(* ===== verification/Prelude.thy ===== *)
theory Prelude imports Main "HOL-Library.Word" "HOL-Library.List_Lexorder" "HOL-Library.Char_ord" begin

text \<open>
  Shared vocabulary of the development: the generic interfaces that several components
  provide, and lemmas on options, maps and lists that their proofs share.

  A Go channel that is only ever closed (a "done" channel) is modelled by the number of
  times it has been closed: it is closed when the number is positive, and a second close,
  which panics in Go, shows as a number above one.  A Go \<^verbatim>\<open>error\<close> that may be
  \<^verbatim>\<open>nil\<close> is an \<open>option\<close>.
\<close>

type_synonym closes = nat
type_synonym u64 = "64 word"

abbreviation (input) ch_closed :: "closes \<Rightarrow> bool" where
  "ch_closed n \<equiv> 0 < n"

abbreviation (input) ch_close :: "closes \<Rightarrow> closes" where
  "ch_close n \<equiv> Suc n"

named_theorems machine_defs "definitions of the operations of a state machine"

section \<open>Interface: a machine with an inductive invariant\<close>

locale invariant_machine =
  fixes start :: "'s \<Rightarrow> bool"
    and step :: "'s \<Rightarrow> 's \<Rightarrow> bool"
    and inv :: "'s \<Rightarrow> bool"
  assumes inv_start: "start s \<Longrightarrow> inv s"
    and inv_step: "step s t \<Longrightarrow> inv s \<Longrightarrow> inv t"
begin

lemma inv_run: "step\<^sup>*\<^sup>* s t \<Longrightarrow> inv s \<Longrightarrow> inv t"
  by (induction rule: rtranclp_induct) (auto intro: inv_step)

lemma inv_reach: "start s \<Longrightarrow> step\<^sup>*\<^sup>* s t \<Longrightarrow> inv t"
  by (blast intro: inv_start inv_run)

lemma stable_run:
  assumes keep: "\<And>a b. inv a \<Longrightarrow> step a b \<Longrightarrow> P a \<Longrightarrow> P b"
  shows "step\<^sup>*\<^sup>* s t \<Longrightarrow> inv s \<Longrightarrow> P s \<Longrightarrow> P t"
proof (induction rule: rtranclp_induct)
  case base
  then show ?case by simp
next
  case (step y z)
  then show ?case using inv_run keep by blast
qed

end

section \<open>Interface: a machine that implements a specification\<close>

text \<open>
  Every step of the machine is a step of the specification or leaves the abstract state alone;
  so is every run, and what no step of the specification changes the machine never changes.
\<close>

locale simulation =
  fixes step :: "'s \<Rightarrow> 's \<Rightarrow> bool"
    and inv :: "'s \<Rightarrow> bool"
    and abs :: "'s \<Rightarrow> 'a"
    and spec :: "'a \<Rightarrow> 'a \<Rightarrow> bool"
  assumes sim_inv: "step s t \<Longrightarrow> inv s \<Longrightarrow> inv t"
    and sim_step: "step s t \<Longrightarrow> inv s \<Longrightarrow> abs t = abs s \<or> spec (abs s) (abs t)"
begin

lemma sim_run: "step\<^sup>*\<^sup>* s t \<Longrightarrow> inv s \<Longrightarrow> inv t \<and> spec\<^sup>*\<^sup>* (abs s) (abs t)"
proof (induction rule: rtranclp_induct)
  case base
  then show ?case by simp
next
  case (step y z)
  then have y: "inv y" "spec\<^sup>*\<^sup>* (abs s) (abs y)" by simp_all
  from sim_step [OF step(2) y(1)] have "spec\<^sup>*\<^sup>* (abs s) (abs z)"
    using y(2) by (auto intro: rtranclp.rtrancl_into_rtrancl)
  with sim_inv [OF step(2) y(1)] show ?case by blast
qed

lemma sim_final: "(\<And>b. \<not> spec (abs s) b) \<Longrightarrow> step\<^sup>*\<^sup>* s t \<Longrightarrow> inv s \<Longrightarrow> abs t = abs s"
  using sim_run by (metis converse_rtranclpE)

end

section \<open>Interface: goroutines that keep a ledger\<close>

text \<open>
  A goroutine is the value its last call returned and the actions it still has to perform.  A
  runner performs one action: it gives the new state, the new value, the actions that take the
  place of the action and the goroutines it starts; it has no result where the action cannot
  proceed.  \<open>go_at\<close> lets goroutine \<open>i\<close> perform its next action.
\<close>

type_synonym ('r, 'a) thread = "'r \<times> 'a list"
type_synonym ('c, 'r, 'a, 's) runner = "'c \<Rightarrow> 'r \<Rightarrow> 'a \<Rightarrow> 's \<Rightarrow> ('s \<times> 'r \<times> 'a list \<times> 'a list list) option"

definition go_at ::
    "('c, 'r, 'a, 's) runner \<Rightarrow> 'r \<Rightarrow> nat \<Rightarrow> 'c \<Rightarrow> 's \<Rightarrow> ('r, 'a) thread list \<Rightarrow> ('s \<times> ('r, 'a) thread list) option" where
  "go_at run idle i ch s gs =
     (if length gs \<le> i then None
      else case gs ! i of
        (r, []) \<Rightarrow> None
      | (r, a # as) \<Rightarrow>
          (case run ch r a s of
             None \<Rightarrow> None
           | Some (s', r', new, spawned) \<Rightarrow>
               Some (s', gs[i := (r', new @ as)] @ map (\<lambda>x. (idle, x)) spawned)))"

lemma go_at_cases:
  assumes "go_at run idle i ch s gs = Some (s', gs')"
  obtains r a as r' new spawned where "i < length gs" "gs ! i = (r, a # as)"
    "run ch r a s = Some (s', r', new, spawned)"
    "gs' = gs[i := (r', new @ as)] @ map (\<lambda>x. (idle, x)) spawned"
  using assms by (auto simp: go_at_def split: if_splits prod.splits list.splits option.splits)

text \<open>
  A ledger gives every action a weight, what is owed for it, and relates the sum of the weights
  of all goroutines to the state.
\<close>

locale act_ledger =
  fixes run :: "('c, 'r, 'a, 's) runner"
    and weight :: "'a \<Rightarrow> 'm::comm_monoid_add"
    and ok :: "'s \<Rightarrow> 'm \<Rightarrow> bool"
  assumes act_ok: "run ch r a s = Some (s', r', new, spawned) \<Longrightarrow> ok s (weight a + m) \<Longrightarrow>
      ok s' (sum_list (map weight new) + sum_list (map weight (concat spawned)) + m)"
begin

definition owed :: "('r, 'a) thread list \<Rightarrow> 'm" where
  "owed gs = sum_list (map (\<lambda>(_, as). sum_list (map weight as)) gs)"

lemma owed_append: "owed (gs @ hs) = owed gs + owed hs"
  by (simp add: owed_def)

lemma owed_split:
  "i < length gs \<Longrightarrow> owed gs = owed [gs ! i] + (owed (take i gs) + owed (drop (Suc i) gs))"
proof -
  assume "i < length gs"
  then have "gs = take i gs @ [gs ! i] @ drop (Suc i) gs" by (simp add: id_take_nth_drop)
  then have "owed gs = owed (take i gs) + (owed [gs ! i] + owed (drop (Suc i) gs))"
    by (metis owed_append)
  then show ?thesis by (simp add: ac_simps)
qed

lemma owed_head:
  assumes "i < length gs" "gs ! i = (r, a # as)"
  shows "owed gs = weight a +
    (sum_list (map weight as) + (owed (take i gs) + owed (drop (Suc i) gs)))"
  by (subst owed_split [OF assms(1)]) (simp add: assms(2) owed_def ac_simps)

lemma owed_spawned: "owed (map (\<lambda>x. (idle, x)) xs) = sum_list (map weight (concat xs))"
  by (induction xs) (simp_all add: owed_def)

lemma go_at_ok:
  assumes "go_at run idle i ch s gs = Some (s', gs')" "ok s (owed gs)" shows "ok s' (owed gs')"
  using assms(1)
proof (cases rule: go_at_cases)
  case (1 r a as r' new spawned)
  let ?rest = "sum_list (map weight as) + (owed (take i gs) + owed (drop (Suc i) gs))"
  have "ok s' (sum_list (map weight new) + sum_list (map weight (concat spawned)) + ?rest)"
    using act_ok [OF 1(3)] assms(2) owed_head [OF 1(1,2)] by simp
  moreover have "owed (gs[i := (r', new @ as)]) = sum_list (map weight new) + ?rest"
    by (subst owed_split [of i]) (use 1(1) in \<open>simp_all add: owed_def ac_simps\<close>)
  ultimately show ?thesis
    by (simp add: 1(4) owed_append owed_spawned ac_simps)
qed

end

section \<open>Interface: a cell that is written once\<close>

text \<open>
  \<open>commit v c\<close> stores \<open>v\<close> unless something is stored already; the cell's content is
  what the first commit stored.  The terminal result of a turn, its acceptance, the close
  error of a client and of a transport all follow this contract.
\<close>

locale write_once =
  fixes commit :: "'v \<Rightarrow> 'c \<Rightarrow> 'c"
    and content :: "'c \<Rightarrow> 'v option"
  assumes commit_empty: "content c = None \<Longrightarrow> content (commit v c) = Some v"
    and commit_full: "content c = Some w \<Longrightarrow> commit v c = c"
begin

lemma commit_keeps: "content c = Some w \<Longrightarrow> content (fold commit vs c) = Some w"
  by (induction vs arbitrary: c) (auto simp: commit_full)

lemma first_commit_wins: "content c = None \<Longrightarrow> content (fold commit (v # vs) c) = Some v"
  by (simp add: commit_empty commit_keeps)

lemma content_fold:
  "content (fold commit vs c) =
     (case content c of Some w \<Rightarrow> Some w | None \<Rightarrow> (case vs of [] \<Rightarrow> None | v # _ \<Rightarrow> Some v))"
  by (cases vs; cases "content c")
    (simp_all add: commit_keeps commit_empty commit_full commit_keeps [OF commit_empty])

lemma commit_idem: "commit v (commit w c) = commit w c"
proof (cases "content c")
  case None
  then have "content (commit w c) = Some w" by (rule commit_empty)
  then show ?thesis by (rule commit_full)
next
  case (Some x)
  then show ?thesis by (simp add: commit_full)
qed

end

section \<open>Interface: a string-keyed map\<close>

locale keyed_map =
  fixes put :: "'k \<Rightarrow> 'v \<Rightarrow> 'm \<Rightarrow> 'm"
    and get :: "'m \<Rightarrow> 'k \<Rightarrow> 'v option"
  assumes get_put: "get (put k v m) = (get m)(k \<mapsto> v)"
begin

lemma get_put_same: "get (put k v m) k = Some v"
  by (simp add: get_put)

lemma get_put_other: "j \<noteq> k \<Longrightarrow> get (put k v m) j = get m j"
  by (simp add: get_put)

lemma get_fold_put:
  "get (fold (\<lambda>(k, v). put k v) kvs m) k =
     (case map_of (rev kvs) k of None \<Rightarrow> get m k | Some v \<Rightarrow> Some v)"
proof (induction kvs arbitrary: m)
  case Nil
  then show ?case by simp
next
  case (Cons kv kvs)
  then show ?case
    by (cases kv) (auto simp: get_put map_add_def map_of_append split: option.splits)
qed

end

section \<open>Interface: an encoder with a partial decoder\<close>

locale codec =
  fixes enc :: "'v \<Rightarrow> 'w"
    and dec :: "'w \<Rightarrow> 'v option"
    and ok :: "'v \<Rightarrow> bool"
  assumes dec_enc: "ok v \<Longrightarrow> dec (enc v) = Some v"
begin

lemma enc_inj: "ok v \<Longrightarrow> ok w \<Longrightarrow> enc v = enc w \<Longrightarrow> v = w"
  by (metis dec_enc option.inject)

lemma dec_map: "list_all ok vs \<Longrightarrow> map dec (map enc vs) = map Some vs"
  by (induction vs) (auto simp: dec_enc)

end

section \<open>Generic lemmas\<close>

lemma takeWhile_append_stop:
  "list_all P xs \<Longrightarrow> \<not> P y \<Longrightarrow> takeWhile P (xs @ y # ys) = xs"
  by (induction xs) auto

lemma dropWhile_append_stop:
  "list_all P xs \<Longrightarrow> \<not> P y \<Longrightarrow> dropWhile P (xs @ y # ys) = y # ys"
  by (induction xs) auto

lemma takeWhile_all_rest:
  "list_all P xs \<Longrightarrow> (ys = [] \<or> \<not> P (hd ys)) \<Longrightarrow> takeWhile P (xs @ ys) = xs"
  by (induction xs) (auto simp: takeWhile_eq_Nil_iff)

lemma dropWhile_all_rest:
  "list_all P xs \<Longrightarrow> (ys = [] \<or> \<not> P (hd ys)) \<Longrightarrow> dropWhile P (xs @ ys) = ys"
  by (induction xs) (auto simp: dropWhile_eq_self_iff)

text \<open>Arithmetic on Go's 64-bit \<^verbatim>\<open>int\<close> wraps around.\<close>

definition goint :: "int \<Rightarrow> int" where
  "goint i = signed_take_bit 63 i"

lemma goint_id: "- (2 ^ 63) \<le> i \<Longrightarrow> i < 2 ^ 63 \<Longrightarrow> goint i = i"
  by (simp add: goint_def signed_take_bit_int_eq_self)

lemma goint_range: "- (2 ^ 63) \<le> goint i" "goint i < 2 ^ 63"
  using signed_take_bit_int_greater_eq_minus_exp [of 63 i] signed_take_bit_int_less_exp [of 63 i]
  by (simp_all add: goint_def)

end
