(* ===== verification/Utf8.thy ===== *)
theory Utf8 imports Prelude begin

text \<open>
  Go strings are byte sequences.  This theory models the standard library's
  \<^verbatim>\<open>unicode/utf8\<close> as far as the code uses it: decoding the rune at the head of a string
  (an invalid or cut-off encoding decodes to U+FFFD with width 1), encoding a rune, and
  the \<^verbatim>\<open>range\<close> loop over a string.
\<close>

abbreviation byte :: "char \<Rightarrow> nat" where
  "byte c \<equiv> (of_char c :: nat)"

definition is_cont :: "char \<Rightarrow> bool" where
  "is_cont c = (128 \<le> byte c \<and> byte c \<le> 191)"

definition second_ok :: "nat \<Rightarrow> char \<Rightarrow> bool" where
  "second_ok x b =
     (is_cont b \<and> (x = 224 \<longrightarrow> 160 \<le> byte b) \<and> (x = 237 \<longrightarrow> byte b \<le> 159)
      \<and> (x = 240 \<longrightarrow> 144 \<le> byte b) \<and> (x = 244 \<longrightarrow> byte b \<le> 143))"

text \<open>The width of the valid encoding at the head of a string, 0 when there is none.\<close>

fun rune_len :: "string \<Rightarrow> nat" where
  "rune_len [] = 0"
| "rune_len (a # s) =
     (if byte a < 128 then 1
      else if 194 \<le> byte a \<and> byte a \<le> 223 then
        (case s of b # _ \<Rightarrow> if is_cont b then 2 else 0 | _ \<Rightarrow> 0)
      else if 224 \<le> byte a \<and> byte a \<le> 239 then
        (case s of b # c # _ \<Rightarrow> if second_ok (byte a) b \<and> is_cont c then 3 else 0 | _ \<Rightarrow> 0)
      else if 240 \<le> byte a \<and> byte a \<le> 244 then
        (case s of b # c # d # _ \<Rightarrow>
           if second_ok (byte a) b \<and> is_cont c \<and> is_cont d then 4 else 0 | _ \<Rightarrow> 0)
      else 0)"

declare rune_len.simps(2) [simp del]

definition rune_error :: nat where
  "rune_error = 65533"

text \<open>\<^verbatim>\<open>utf8.DecodeRuneInString\<close>: the rune and its width.\<close>

definition decode_rune :: "string \<Rightarrow> nat \<times> nat" where
  "decode_rune s =
     (if s = [] then (rune_error, 0)
      else if rune_len s = 1 then (byte (s ! 0), 1)
      else if rune_len s = 2 then ((byte (s ! 0) - 192) * 64 + (byte (s ! 1) - 128), 2)
      else if rune_len s = 3 then
        ((byte (s ! 0) - 224) * 4096 + (byte (s ! 1) - 128) * 64 + (byte (s ! 2) - 128), 3)
      else if rune_len s = 4 then
        ((byte (s ! 0) - 240) * 262144 + (byte (s ! 1) - 128) * 4096
          + (byte (s ! 2) - 128) * 64 + (byte (s ! 3) - 128), 4)
      else (rune_error, 1))"

text \<open>\<^verbatim>\<open>utf8.AppendRune\<close>: surrogates and values past U+10FFFF become U+FFFD.\<close>

definition encode_rune :: "nat \<Rightarrow> string" where
  "encode_rune r =
     (if r < 128 then [char_of r]
      else if r < 2048 then [char_of (192 + r div 64), char_of (128 + r mod 64)]
      else if (55296 \<le> r \<and> r \<le> 57343) \<or> 1114111 < r then
        [char_of (239::nat), char_of (191::nat), char_of (189::nat)]
      else if r < 65536 then
        [char_of (224 + r div 4096), char_of (128 + r div 64 mod 64), char_of (128 + r mod 64)]
      else [char_of (240 + r div 262144), char_of (128 + r div 4096 mod 64),
            char_of (128 + r div 64 mod 64), char_of (128 + r mod 64)])"

text \<open>The runes a \<^verbatim>\<open>for _, r := range s\<close> loop visits.\<close>

fun runes :: "string \<Rightarrow> nat list" where
  "runes [] = []"
| "runes (a # s) =
     (let (r, n) = decode_rune (a # s) in r # runes (drop (n - 1) s))"

fun valid_utf8 :: "string \<Rightarrow> bool" where
  "valid_utf8 [] = True"
| "valid_utf8 (a # s) =
     (let n = rune_len (a # s) in 0 < n \<and> valid_utf8 (drop (n - 1) s))"

definition ascii :: "string \<Rightarrow> bool" where
  "ascii s = list_all (\<lambda>c. byte c < 128) s"

lemma byte_char_of [simp]: "n < 256 \<Longrightarrow> byte (char_of (n::nat)) = n"
  by simp

lemma rune_len_le4: "rune_len s \<le> 4"
  by (cases s) (auto simp: rune_len.simps split: list.splits)

lemma rune_len_le_length: "rune_len s \<le> length s"
  by (cases s) (auto simp: rune_len.simps split: list.splits)

lemma rune_len_ascii [simp]: "byte a < 128 \<Longrightarrow> rune_len (a # s) = 1"
  by (simp add: rune_len.simps)

text \<open>The bytes of a valid encoding after the first are continuation bytes.\<close>

lemma rune_len_conts:
  assumes "0 < i" and "i < rune_len s"
  shows "is_cont (s ! i)"
proof -
  have "i = 1 \<or> i = 2 \<or> i = 3" using assms rune_len_le4 [of s] by arith
  then show ?thesis using assms
    by (cases s) (auto simp: rune_len.simps second_ok_def numeral_2_eq_2 numeral_3_eq_3
        split: if_splits list.splits)
qed

text \<open>A valid encoding is recognised whatever follows it.\<close>

lemma rune_len_append:
  "0 < rune_len s \<Longrightarrow> rune_len (s @ t) = rune_len s"
  by (cases s) (auto simp: rune_len.simps split: if_splits list.splits)

lemma rune_len_take:
  "0 < rune_len s \<Longrightarrow> rune_len (take (rune_len s) s @ t) = rune_len s"
  by (cases s; cases "tl s"; cases "tl (tl s)"; cases "tl (tl (tl s))")
    (simp_all add: rune_len.simps split: if_splits)

lemma ascii_valid: "ascii s \<Longrightarrow> valid_utf8 s"
  by (induction s) (auto simp: ascii_def rune_len_ascii)

lemma valid_utf8_Cons_ascii:
  "byte a < 128 \<Longrightarrow> valid_utf8 (a # s) = valid_utf8 s"
  by (simp add: rune_len_ascii)

lemma valid_utf8_rune:
  assumes "0 < rune_len s" and "valid_utf8 t"
  shows "valid_utf8 (take (rune_len s) s @ t)"
proof -
  let ?p = "take (rune_len s) s"
  obtain a s' where s: "s = a # s'" using assms(1) by (cases s) auto
  then obtain q where p: "?p = a # q" using assms(1) by (cases "rune_len s") auto
  have len: "length ?p = rune_len s" using rune_len_le_length [of s] by simp
  have "rune_len (?p @ t) = rune_len s" using assms(1) by (rule rune_len_take)
  moreover have "length q = rune_len s - 1" using len p by simp
  ultimately show ?thesis using assms p by (simp add: Let_def)
qed

text \<open>Every encoded rune is a valid encoding of exactly its own bytes.\<close>

lemma encode_rune_valid: "rune_len (encode_rune r @ t) = length (encode_rune r)"
proof -
  consider (one) "r < 128" | (two) "128 \<le> r" "r < 2048"
    | (bad) "2048 \<le> r" "(55296 \<le> r \<and> r \<le> 57343) \<or> 1114111 < r"
    | (three) "2048 \<le> r" "r < 65536" "\<not> (55296 \<le> r \<and> r \<le> 57343)"
    | (four) "65536 \<le> r" "r \<le> 1114111"
    by linarith
  then show ?thesis
  proof cases
    case one
    then show ?thesis by (simp add: encode_rune_def)
  next
    case two
    then have "2 \<le> r div 64" "r div 64 < 32" by arith+
    with two show ?thesis
      by (simp add: encode_rune_def rune_len.simps is_cont_def)
  next
    case bad
    then have e: "encode_rune r = [char_of (239::nat), char_of (191::nat), char_of (189::nat)]"
      by (auto simp: encode_rune_def)
    show ?thesis unfolding e by (simp add: rune_len.simps is_cont_def second_ok_def)
  next
    case three
    define x y z where "x = r div 4096" and "y = r div 64 mod 64" and "z = r mod 64"
    have e: "encode_rune r = [char_of (224 + x), char_of (128 + y), char_of (128 + z)]"
    proof -
      have n: "\<not> ((55296 \<le> r \<and> r \<le> 57343) \<or> 1114111 < r)" using three by linarith
      show ?thesis unfolding encode_rune_def if_not_P [OF n] x_def y_def z_def
        using three(1,2) by simp
    qed
    have b: "x < 16" "y < 64" "z < 64" using three by (simp_all add: x_def y_def z_def)
    have q: "r div 64 = 64 * x + y"
      by (simp add: x_def y_def div_mult2_eq [of r 64 64, simplified])
    have r: "64 * (r div 64) \<le> r" "r < 64 * (r div 64) + 64" by simp_all
    have c: "x = 0 \<Longrightarrow> 32 \<le> y" "x = 13 \<Longrightarrow> y \<le> 31"
      using three r b unfolding q by auto
    have m: "byte (char_of (224 + x)) = 224 + x" "byte (char_of (128 + y)) = 128 + y"
      "byte (char_of (128 + z)) = 128 + z"
      by (rule byte_char_of, use b in linarith)+
    have "rune_len ([char_of (224 + x), char_of (128 + y), char_of (128 + z)] @ t) = 3"
      using b c
      by (simp only: append.simps rune_len.simps is_cont_def second_ok_def m list.case) auto
    then show ?thesis unfolding e by simp
  next
    case four
    define w x y z where "w = r div 262144" and "x = r div 4096 mod 64"
      and "y = r div 64 mod 64" and "z = r mod 64"
    have e: "encode_rune r =
        [char_of (240 + w), char_of (128 + x), char_of (128 + y), char_of (128 + z)]"
      using four by (simp add: encode_rune_def w_def x_def y_def z_def)
    have b: "w \<le> 4" "x < 64" "y < 64" "z < 64" using four by (auto simp: w_def x_def y_def z_def)
    have q: "r div 4096 = 64 * w + x"
      by (simp add: w_def x_def div_mult2_eq [of r 4096 64, simplified])
    have r: "4096 * (r div 4096) \<le> r" "r < 4096 * (r div 4096) + 4096" by simp_all
    have c: "w = 0 \<Longrightarrow> 16 \<le> x" "w = 4 \<Longrightarrow> x \<le> 15"
      using four r b unfolding q by auto
    have m: "byte (char_of (240 + w)) = 240 + w" "byte (char_of (128 + x)) = 128 + x"
      "byte (char_of (128 + y)) = 128 + y" "byte (char_of (128 + z)) = 128 + z"
      by (rule byte_char_of, use b in linarith)+
    have "rune_len ([char_of (240 + w), char_of (128 + x), char_of (128 + y),
        char_of (128 + z)] @ t) = 4"
      using b c
      by (simp only: append.simps rune_len.simps is_cont_def second_ok_def m list.case) auto
    then show ?thesis unfolding e by simp
  qed
qed

lemma encode_rune_nonempty: "encode_rune r \<noteq> []"
  by (simp add: encode_rune_def)

lemma valid_utf8_encode: "valid_utf8 t \<Longrightarrow> valid_utf8 (encode_rune r @ t)"
  using valid_utf8_rune [of "encode_rune r" t] encode_rune_valid [of r "[]"]
    encode_rune_nonempty [of r]
  by simp

lemma encode_decode_rune:
  assumes "0 < rune_len s"
  shows "encode_rune (fst (decode_rune s)) = take (rune_len s) s"
proof -
  have ne: "s \<noteq> []" using assms by auto
  consider "rune_len s = 1" | "rune_len s = 2" | "rune_len s = 3" | "rune_len s = 4"
    using assms rune_len_le4 [of s] by linarith
  then show ?thesis
  proof cases
    case 1
    then obtain a t where s: "s = a # t" and a: "byte a < 128"
      by (cases s) (auto simp: rune_len.simps split: if_splits list.splits)
    show ?thesis unfolding s using a by (simp add: decode_rune_def encode_rune_def)
  next
    case 2
    then obtain a b t where s: "s = a # b # t"
      and v: "194 \<le> byte a" "byte a \<le> 223" "128 \<le> byte b" "byte b \<le> 191"
      by (cases s) (auto simp: rune_len.simps is_cont_def split: if_splits list.splits)
    define x y where "x = byte a - 192" and "y = byte b - 128"
    have xy: "2 \<le> x" "x < 32" "y < 64" "byte a = 192 + x" "byte b = 128 + y"
      using v by (auto simp: x_def y_def)
    have r: "fst (decode_rune s) = x * 64 + y"
      using 2 ne unfolding x_def y_def s by (simp add: decode_rune_def)
    have "encode_rune (x * 64 + y) = [char_of (192 + x), char_of (128 + y)]"
      using xy by (simp add: encode_rune_def)
    also have "\<dots> = [a, b]"
      by (simp only: xy(4,5) [symmetric] char_of_char)
    finally show ?thesis unfolding r using 2 s by simp
  next
    case 3
    then obtain a b c t where s: "s = a # b # c # t"
      and v: "224 \<le> byte a" "byte a \<le> 239" "second_ok (byte a) b" "128 \<le> byte c" "byte c \<le> 191"
      by (cases s) (auto simp: rune_len.simps is_cont_def split: if_splits list.splits)
    define x y z where "x = byte a - 224" and "y = byte b - 128" and "z = byte c - 128"
    have xy: "x < 16" "y < 64" "z < 64" "byte a = 224 + x" "byte b = 128 + y" "byte c = 128 + z"
      "x = 0 \<Longrightarrow> 32 \<le> y" "x = 13 \<Longrightarrow> y \<le> 31"
      using v by (auto simp: x_def y_def z_def second_ok_def is_cont_def)
    let ?r = "x * 4096 + y * 64 + z"
    have r: "fst (decode_rune s) = ?r"
      using 3 ne unfolding x_def y_def z_def s by (simp add: decode_rune_def)
    have lo: "2048 \<le> ?r" using xy by (cases "x = 0") auto
    have hi: "?r < 65536" using xy by linarith
    have ns: "\<not> ((55296 \<le> ?r \<and> ?r \<le> 57343) \<or> 1114111 < ?r)"
    proof (cases "x = 13")
      case True
      with xy(8) xy(3) show ?thesis by auto
    next
      case False
      then have "x \<le> 12 \<or> 14 \<le> x" by arith
      with xy hi show ?thesis by auto
    qed
    have d: "?r div 4096 = x" "?r div 64 mod 64 = y" "?r mod 64 = z"
    proof -
      have a: "?r = z + 64 * (y + 64 * x)" by simp
      have b: "?r = (y * 64 + z) + 4096 * x" by simp
      have c: "y * 64 + z < 4096" using xy by linarith
      show "?r div 4096 = x" unfolding b using c by (subst div_mult_self2) simp_all
      show "?r div 64 mod 64 = y" unfolding a using xy
        by (subst div_mult_self2) (simp_all)
      show "?r mod 64 = z" unfolding a using xy by (subst mod_mult_self2) simp
    qed
    have "encode_rune ?r = [char_of (224 + x), char_of (128 + y), char_of (128 + z)]"
      unfolding encode_rune_def if_not_P [OF ns] d using lo hi by simp
    also have "\<dots> = [a, b, c]"
      by (simp only: xy(4,5,6) [symmetric] char_of_char)
    finally show ?thesis unfolding r using 3 s by simp
  next
    case 4
    then obtain a b c d t where s: "s = a # b # c # d # t"
      and v: "240 \<le> byte a" "byte a \<le> 244" "second_ok (byte a) b" "128 \<le> byte c" "byte c \<le> 191"
        "128 \<le> byte d" "byte d \<le> 191"
      by (cases s) (auto simp: rune_len.simps is_cont_def split: if_splits list.splits)
    define w x y z where "w = byte a - 240" and "x = byte b - 128" and "y = byte c - 128"
      and "z = byte d - 128"
    have xy: "w \<le> 4" "x < 64" "y < 64" "z < 64" "byte a = 240 + w" "byte b = 128 + x"
      "byte c = 128 + y" "byte d = 128 + z" "w = 0 \<Longrightarrow> 16 \<le> x" "w = 4 \<Longrightarrow> x \<le> 15"
      using v by (auto simp: w_def x_def y_def z_def second_ok_def is_cont_def)
    let ?r = "w * 262144 + x * 4096 + y * 64 + z"
    have r: "fst (decode_rune s) = ?r"
      using 4 ne unfolding w_def x_def y_def z_def s by (simp add: decode_rune_def)
    have lo: "65536 \<le> ?r" using xy by (cases "w = 0") auto
    have hi: "?r \<le> 1114111"
      using xy by (cases "w = 4") auto
    have ns: "\<not> ((55296 \<le> ?r \<and> ?r \<le> 57343) \<or> 1114111 < ?r)" using lo hi by linarith
    have e: "?r div 262144 = w" "?r div 4096 mod 64 = x" "?r div 64 mod 64 = y" "?r mod 64 = z"
    proof -
      have a: "?r = z + 64 * (y + 64 * (x + 64 * w))" by simp
      have b: "?r = (x * 4096 + y * 64 + z) + 262144 * w" by simp
      have c: "x * 4096 + y * 64 + z < 262144" using xy by linarith
      have f: "?r = (y * 64 + z) + 4096 * (x + 64 * w)" by simp
      have g: "y * 64 + z < 4096" using xy by linarith
      show "?r div 262144 = w" unfolding b using c by (subst div_mult_self2) simp_all
      have q: "?r div 64 = y + 64 * (x + 64 * w)" unfolding a using xy by (subst div_mult_self2) simp_all
      have q': "?r div 4096 = x + 64 * w" unfolding f using g by (subst div_mult_self2) simp_all
      show "?r div 4096 mod 64 = x" unfolding q' using xy by (subst mod_mult_self2) simp
      show "?r div 64 mod 64 = y" unfolding q using xy by (subst mod_mult_self2) simp
      show "?r mod 64 = z" unfolding a using xy by (subst mod_mult_self2) simp
    qed
    have "encode_rune ?r =
        [char_of (240 + w), char_of (128 + x), char_of (128 + y), char_of (128 + z)]"
      unfolding encode_rune_def if_not_P [OF ns] e using lo by simp
    also have "\<dots> = [a, b, c, d]"
      by (simp only: xy(5,6,7,8) [symmetric] char_of_char)
    finally show ?thesis unfolding r using 4 s by simp
  qed
qed

end
