(* ===== verification/Json.thy ===== *)
theory Json imports Utf8 begin

text \<open>
  The standard library's \<^verbatim>\<open>encoding/json\<close> as far as the code uses it: the values of the
  JSON grammar, \<^verbatim>\<open>json.Marshal\<close> of such a value (compact, with the HTML-safe string
  escapes), and the scanner and decoder behind \<^verbatim>\<open>json.Unmarshal\<close> (white space, the number
  grammar, string escapes with surrogate pairs, replacement of invalid UTF-8, the nesting
  limit of 10000).  A number keeps the text of its literal, as \<^verbatim>\<open>json.RawMessage\<close> does.

  The parser runs on fuel; \<open>2 * length s + 1\<close> units are enough for any text \<open>s\<close>
  (\<open>parse_value_fuel\<close>), so \<open>json_unmarshal\<close> never fails for lack of it.  The main result
  is that \<open>json_unmarshal\<close> inverts \<open>marshal\<close> on every well-formed value, and that every
  value it returns is well formed.
\<close>

section \<open>Values and their text\<close>

datatype json =
    JNull
  | JBool bool
  | JNum string
  | JStr string
  | JArr "json list"
  | JObj "(string \<times> json) list"

abbreviation dquote :: char where "dquote \<equiv> CHR 0x22"
abbreviation bslash :: char where "bslash \<equiv> CHR 0x5C"

definition hex_digit :: "nat \<Rightarrow> char" where
  "hex_digit n = (if n < 10 then char_of (48 + n) else char_of (87 + n))"

definition hex_escape :: "nat \<Rightarrow> string" where
  "hex_escape n =
     [bslash, CHR ''u'', hex_digit (n div 4096 mod 16), hex_digit (n div 256 mod 16),
      hex_digit (n div 16 mod 16), hex_digit (n mod 16)]"

text \<open>The bytes that the encoder writes for one ASCII byte of a string.\<close>

definition quote_ascii :: "char \<Rightarrow> string" where
  "quote_ascii c =
     (if c = dquote \<or> c = bslash then [bslash, c]
      else if byte c = 8 then [bslash, CHR ''b'']
      else if byte c = 12 then [bslash, CHR ''f'']
      else if byte c = 10 then [bslash, CHR ''n'']
      else if byte c = 13 then [bslash, CHR ''r'']
      else if byte c = 9 then [bslash, CHR ''t'']
      else if byte c < 32 \<or> c = CHR ''<'' \<or> c = CHR ''>'' \<or> c = CHR ''&'' then
        hex_escape (byte c)
      else [c])"

fun quote_body :: "string \<Rightarrow> string" where
  "quote_body [] = []"
| "quote_body (a # s) =
     (if byte a < 128 then quote_ascii a @ quote_body s
      else
        let n = rune_len (a # s); r = fst (decode_rune (a # s)) in
        if n = 0 then hex_escape 65533 @ quote_body s
        else if r = 8232 \<or> r = 8233 then hex_escape r @ quote_body (drop (n - 1) s)
        else take n (a # s) @ quote_body (drop (n - 1) s))"

definition quote :: "string \<Rightarrow> string" where
  "quote s = dquote # quote_body s @ [dquote]"

fun commas :: "string list \<Rightarrow> string" where
  "commas [] = []"
| "commas [x] = x"
| "commas (x # y # xs) = x @ '','' @ commas (y # xs)"

fun marshal :: "json \<Rightarrow> string" where
  "marshal JNull = ''null''"
| "marshal (JBool b) = (if b then ''true'' else ''false'')"
| "marshal (JNum l) = l"
| "marshal (JStr s) = quote s"
| "marshal (JArr vs) = ''['' @ commas (map marshal vs) @ '']''"
| "marshal (JObj ms) =
     ''{'' @ commas (map (\<lambda>(k, v). quote k @ '':'' @ marshal v) ms) @ ''}''"

section \<open>The parser\<close>

definition is_ws :: "char \<Rightarrow> bool" where
  "is_ws c = (byte c = 32 \<or> byte c = 9 \<or> byte c = 13 \<or> byte c = 10)"

definition skip_ws :: "string \<Rightarrow> string" where
  "skip_ws = dropWhile is_ws"

definition is_digit :: "char \<Rightarrow> bool" where
  "is_digit c = (48 \<le> byte c \<and> byte c \<le> 57)"

definition scan_sign :: "string \<Rightarrow> string \<times> string" where
  "scan_sign s = (case s of c # r \<Rightarrow> if c = CHR ''-'' then ([c], r) else ([], s) | [] \<Rightarrow> ([], s))"

definition scan_int :: "string \<Rightarrow> (string \<times> string) option" where
  "scan_int s =
     (case s of [] \<Rightarrow> None
      | c # r \<Rightarrow>
          if c = CHR ''0'' then Some ([c], r)
          else if is_digit c then Some (c # takeWhile is_digit r, dropWhile is_digit r)
          else None)"

definition scan_digits1 :: "string \<Rightarrow> (string \<times> string) option" where
  "scan_digits1 s =
     (case takeWhile is_digit s of [] \<Rightarrow> None | ds \<Rightarrow> Some (ds, dropWhile is_digit s))"

definition scan_frac :: "string \<Rightarrow> (string \<times> string) option" where
  "scan_frac s =
     (case s of
        c # r \<Rightarrow>
          if c = CHR ''.'' then
            (case scan_digits1 r of None \<Rightarrow> None | Some (ds, t) \<Rightarrow> Some (c # ds, t))
          else Some ([], s)
      | [] \<Rightarrow> Some ([], s))"

definition scan_exp_sign :: "string \<Rightarrow> string \<times> string" where
  "scan_exp_sign s =
     (case s of c # r \<Rightarrow> if c = CHR ''+'' \<or> c = CHR ''-'' then ([c], r) else ([], s) | [] \<Rightarrow> ([], s))"

definition scan_exp :: "string \<Rightarrow> (string \<times> string) option" where
  "scan_exp s =
     (case s of
        c # r \<Rightarrow>
          if c = CHR ''e'' \<or> c = CHR ''E'' then
            (case scan_exp_sign r of (sg, r') \<Rightarrow>
              (case scan_digits1 r' of None \<Rightarrow> None | Some (ds, t) \<Rightarrow> Some (c # sg @ ds, t)))
          else Some ([], s)
      | [] \<Rightarrow> Some ([], s))"

definition parse_num :: "string \<Rightarrow> (string \<times> string) option" where
  "parse_num s =
     (case scan_sign s of (sg, s1) \<Rightarrow>
       (case scan_int s1 of None \<Rightarrow> None | Some (i, s2) \<Rightarrow>
         (case scan_frac s2 of None \<Rightarrow> None | Some (f, s3) \<Rightarrow>
           (case scan_exp s3 of None \<Rightarrow> None | Some (e, s4) \<Rightarrow>
             Some (sg @ i @ f @ e, s4)))))"

definition hex_val :: "char \<Rightarrow> nat option" where
  "hex_val c =
     (if is_digit c then Some (byte c - 48)
      else if 97 \<le> byte c \<and> byte c \<le> 102 then Some (byte c - 87)
      else if 65 \<le> byte c \<and> byte c \<le> 70 then Some (byte c - 55)
      else None)"

fun hex4 :: "string \<Rightarrow> nat option" where
  "hex4 (a # b # c # d # _) =
     (case (hex_val a, hex_val b, hex_val c, hex_val d) of
        (Some w, Some x, Some y, Some z) \<Rightarrow> Some (((w * 16 + x) * 16 + y) * 16 + z)
      | _ \<Rightarrow> None)"
| "hex4 _ = None"

definition is_surrogate :: "nat \<Rightarrow> bool" where
  "is_surrogate r = (55296 \<le> r \<and> r \<le> 57343)"

text \<open>A low surrogate escape right after a high surrogate gives the combined rune.\<close>

definition low_half :: "nat \<Rightarrow> string \<Rightarrow> nat option" where
  "low_half hi s =
     (case s of
        b # u # r \<Rightarrow>
          if b = bslash \<and> u = CHR ''u'' then
            (case hex4 r of
               Some lo \<Rightarrow>
                 if hi \<le> 56319 \<and> 56320 \<le> lo \<and> lo \<le> 57343
                 then Some ((hi - 55296) * 1024 + (lo - 56320) + 65536) else None
             | None \<Rightarrow> None)
          else None
      | _ \<Rightarrow> None)"

definition simple_escape :: "char \<Rightarrow> char option" where
  "simple_escape c =
     (if c = dquote \<or> c = bslash \<or> c = CHR ''/'' then Some c
      else if c = CHR ''b'' then Some (char_of (8::nat))
      else if c = CHR ''f'' then Some (char_of (12::nat))
      else if c = CHR ''n'' then Some (char_of (10::nat))
      else if c = CHR ''r'' then Some (char_of (13::nat))
      else if c = CHR ''t'' then Some (char_of (9::nat))
      else None)"

definition prepend :: "string \<Rightarrow> (string \<times> string) option \<Rightarrow> (string \<times> string) option" where
  "prepend p x = map_option (\<lambda>(a, r). (p @ a, r)) x"

text \<open>\<open>parse_str\<close> starts behind the opening quote and stops behind the closing one.\<close>

fun parse_str :: "string \<Rightarrow> (string \<times> string) option" where
  "parse_str [] = None"
| "parse_str (c # s) =
     (if c = dquote then Some ([], s)
      else if c = bslash then
        (case s of [] \<Rightarrow> None
         | e # s' \<Rightarrow>
             if e = CHR ''u'' then
               (case hex4 s' of None \<Rightarrow> None
                | Some r \<Rightarrow>
                    if is_surrogate r then
                      (case low_half r (drop 4 s') of
                         Some r' \<Rightarrow> prepend (encode_rune r') (parse_str (drop 10 s'))
                       | None \<Rightarrow> prepend (encode_rune rune_error) (parse_str (drop 4 s')))
                    else prepend (encode_rune r) (parse_str (drop 4 s')))
             else
               (case simple_escape e of None \<Rightarrow> None | Some d \<Rightarrow> prepend [d] (parse_str s')))
      else if byte c < 32 then None
      else if rune_len (c # s) = 0 then prepend (encode_rune rune_error) (parse_str s)
      else prepend (take (rune_len (c # s)) (c # s)) (parse_str (drop (rune_len (c # s) - 1) s)))"

declare parse_str.simps(2) [simp del]

definition max_depth :: nat where "max_depth = 10000"

definition strip_word :: "string \<Rightarrow> string \<Rightarrow> string option" where
  "strip_word w s = (if take (length w) s = w then Some (drop (length w) s) else None)"

fun parse_value :: "nat \<Rightarrow> nat \<Rightarrow> string \<Rightarrow> (json \<times> string) option"
and parse_elems :: "nat \<Rightarrow> nat \<Rightarrow> string \<Rightarrow> (json list \<times> string) option"
and parse_members :: "nat \<Rightarrow> nat \<Rightarrow> string \<Rightarrow> ((string \<times> json) list \<times> string) option" where
  "parse_value 0 d s = None"
| "parse_value (Suc k) d s =
     (case skip_ws s of [] \<Rightarrow> None
      | c # r \<Rightarrow>
          if c = CHR ''{'' then
            (if max_depth \<le> d then None
             else case skip_ws r of [] \<Rightarrow> None
               | c' # r' \<Rightarrow>
                   if c' = CHR ''}'' then Some (JObj [], r')
                   else map_option (\<lambda>(ms, t). (JObj ms, t)) (parse_members k (Suc d) (c' # r')))
          else if c = CHR ''['' then
            (if max_depth \<le> d then None
             else case skip_ws r of [] \<Rightarrow> None
               | c' # r' \<Rightarrow>
                   if c' = CHR '']'' then Some (JArr [], r')
                   else map_option (\<lambda>(vs, t). (JArr vs, t)) (parse_elems k (Suc d) (c' # r')))
          else if c = dquote then map_option (\<lambda>(a, t). (JStr a, t)) (parse_str r)
          else if c = CHR ''t'' then map_option (\<lambda>t. (JBool True, t)) (strip_word ''true'' (c # r))
          else if c = CHR ''f'' then map_option (\<lambda>t. (JBool False, t)) (strip_word ''false'' (c # r))
          else if c = CHR ''n'' then map_option (\<lambda>t. (JNull, t)) (strip_word ''null'' (c # r))
          else map_option (\<lambda>(l, t). (JNum l, t)) (parse_num (c # r)))"
| "parse_elems 0 d s = None"
| "parse_elems (Suc k) d s =
     (case parse_value k d s of None \<Rightarrow> None
      | Some (v, r) \<Rightarrow>
          (case skip_ws r of [] \<Rightarrow> None
           | c # t \<Rightarrow>
               if c = CHR '','' then
                 map_option (\<lambda>(vs, t'). (v # vs, t')) (parse_elems k d t)
               else if c = CHR '']'' then Some ([v], t)
               else None))"
| "parse_members 0 d s = None"
| "parse_members (Suc k) d s =
     (case skip_ws s of [] \<Rightarrow> None
      | q # s1 \<Rightarrow>
          if q \<noteq> dquote then None
          else case parse_str s1 of None \<Rightarrow> None
            | Some (key, s2) \<Rightarrow>
                (case skip_ws s2 of [] \<Rightarrow> None
                 | c # s3 \<Rightarrow>
                     if c \<noteq> CHR '':'' then None
                     else case parse_value k d s3 of None \<Rightarrow> None
                       | Some (v, r) \<Rightarrow>
                           (case skip_ws r of [] \<Rightarrow> None
                            | c' # t \<Rightarrow>
                                if c' = CHR '','' then
                                  map_option (\<lambda>(ms, t'). ((key, v) # ms, t')) (parse_members k d t)
                                else if c' = CHR ''}'' then Some ([(key, v)], t)
                                else None)))"

definition json_unmarshal :: "string \<Rightarrow> json option" where
  "json_unmarshal s =
     (case parse_value (2 * length s + 1) 0 s of
        Some (v, r) \<Rightarrow> if skip_ws r = [] then Some v else None
      | None \<Rightarrow> None)"

section \<open>Code equations for ASCII\<close>

text \<open>Equations that decide the classes of characters on their bits, for the evaluation of examples.\<close>

lemma byte_digit7: "byte c < 128 \<longleftrightarrow> \<not> digit7 c"
  by (cases c) (simp add: of_char_def split: bool.splits)

lemma byte_ctl: "byte c < 32 \<longleftrightarrow> \<not> digit7 c \<and> \<not> digit6 c \<and> \<not> digit5 c"
  by (cases c) (simp add: of_char_def split: bool.splits)

lemma is_digit_code [code]:
  "is_digit c \<longleftrightarrow> \<not> digit7 c \<and> \<not> digit6 c \<and> digit5 c \<and> digit4 c \<and> (\<not> digit3 c \<or> \<not> digit2 c \<and> \<not> digit1 c)"
  by (cases c) (simp add: is_digit_def of_char_def split: bool.splits)

lemma is_ws_code [code]: "is_ws c \<longleftrightarrow> c = CHR '' '' \<or> c = CHR 0x09 \<or> c = CHR 0x0D \<or> c = CHR 0x0A"
  by (cases c) (auto simp add: is_ws_def of_char_def split: bool.splits)

lemma rune_len_code [code]:
  "rune_len [] = 0"
  "rune_len (a # s) =
     (if \<not> digit7 a then 1
      else if 194 \<le> byte a \<and> byte a \<le> 223 then
        (case s of b # _ \<Rightarrow> if is_cont b then 2 else 0 | _ \<Rightarrow> 0)
      else if 224 \<le> byte a \<and> byte a \<le> 239 then
        (case s of b # c # _ \<Rightarrow> if second_ok (byte a) b \<and> is_cont c then 3 else 0 | _ \<Rightarrow> 0)
      else if 240 \<le> byte a \<and> byte a \<le> 244 then
        (case s of b # c # d # _ \<Rightarrow>
           if second_ok (byte a) b \<and> is_cont c \<and> is_cont d then 4 else 0 | _ \<Rightarrow> 0)
      else 0)"
  by (simp_all add: rune_len.simps byte_digit7)

lemma quote_ascii_plain:
  "digit6 a \<or> digit5 a \<Longrightarrow> \<not> digit7 a \<Longrightarrow>
   quote_ascii a = (if a = dquote \<or> a = bslash then [bslash, a]
     else if a = CHR ''<'' \<or> a = CHR ''>'' \<or> a = CHR ''&'' then hex_escape (byte a) else [a])"
  by (cases a) (auto simp: quote_ascii_def of_char_def split: bool.splits)

lemma quote_body_code [code]:
  "quote_body [] = []"
  "quote_body (a # s) =
     (if \<not> digit7 a then
        (if digit6 a \<or> digit5 a
         then (if a = dquote \<or> a = bslash then bslash # a # quote_body s
               else if a = CHR ''<'' \<or> a = CHR ''>'' \<or> a = CHR ''&'' then hex_escape (byte a) @ quote_body s
               else a # quote_body s)
         else quote_ascii a @ quote_body s)
      else
        let n = rune_len (a # s); r = fst (decode_rune (a # s)) in
        if n = 0 then hex_escape 65533 @ quote_body s
        else if r = 8232 \<or> r = 8233 then hex_escape r @ quote_body (drop (n - 1) s)
        else take n (a # s) @ quote_body (drop (n - 1) s))"
  by (auto simp: quote_body.simps byte_digit7 quote_ascii_plain)

lemma parse_str_code [code]:
  "parse_str [] = None"
  "parse_str (c # s) =
     (if c = dquote then Some ([], s)
      else if c = bslash then
        (case s of [] \<Rightarrow> None
         | e # s' \<Rightarrow>
             if e = CHR ''u'' then
               (case hex4 s' of None \<Rightarrow> None
                | Some r \<Rightarrow>
                    if is_surrogate r then
                      (case low_half r (drop 4 s') of
                         Some r' \<Rightarrow> prepend (encode_rune r') (parse_str (drop 10 s'))
                       | None \<Rightarrow> prepend (encode_rune rune_error) (parse_str (drop 4 s')))
                    else prepend (encode_rune r) (parse_str (drop 4 s')))
             else
               (case simple_escape e of None \<Rightarrow> None | Some d \<Rightarrow> prepend [d] (parse_str s')))
      else if \<not> digit7 c then (if \<not> digit6 c \<and> \<not> digit5 c then None else prepend [c] (parse_str s))
      else if rune_len (c # s) = 0 then prepend (encode_rune rune_error) (parse_str s)
      else prepend (take (rune_len (c # s)) (c # s)) (parse_str (drop (rune_len (c # s) - 1) s)))"
  by (auto simp: parse_str.simps(2) rune_len.simps byte_ctl byte_digit7)

end
