(* ===== verification/JsonCorrect.thy ===== *)
theory JsonCorrect imports Json begin

text \<open>
  Correctness of the JSON layer: the parser consumes what it reads, its fuel is enough,
  every value it returns is well formed, and it inverts \<open>marshal\<close>.
\<close>

section \<open>Consumption and fuel\<close>

lemma skip_ws_length: "length (skip_ws s) \<le> length s"
  by (simp add: skip_ws_def length_dropWhile_le)

lemma skip_ws_Cons: "skip_ws s = c # r \<Longrightarrow> length r < length s"
  using skip_ws_length [of s] by simp

lemma prepend_Some:
  "prepend p x = Some (a, r) \<longleftrightarrow> (\<exists>b. x = Some (b, r) \<and> a = p @ b)"
  by (auto simp: prepend_def)

lemma parse_str_length: "parse_str s = Some (a, r) \<Longrightarrow> length r < length s"
proof (induction "length s" arbitrary: s a r rule: less_induct)
  case less
  have IH: "length r' < length t" if "parse_str t = Some (b, r')" "length t < length s" for t b r'
    using less.hyps that by blast
  have IH': "length r' < length s" if "parse_str t = Some (b, r')" "length t < length s" for t b r'
    using IH [OF that] that(2) by simp
  show ?case
  proof (cases s)
    case Nil
    with less.prems show ?thesis by simp
  next
    case (Cons c s')
    with less.prems IH' show ?thesis
      by (auto simp: parse_str.simps(2) prepend_Some split: if_splits list.splits option.splits)
  qed
qed

lemma scan_digits1_length: "scan_digits1 s = Some (a, r) \<Longrightarrow> length r \<le> length s"
  by (auto simp: scan_digits1_def length_dropWhile_le split: list.splits)

lemma scan_int_length: "scan_int s = Some (a, r) \<Longrightarrow> length r < length s"
  by (auto simp: scan_int_def le_imp_less_Suc length_dropWhile_le split: list.splits if_splits)

lemma scan_frac_length: "scan_frac s = Some (a, r) \<Longrightarrow> length r \<le> length s"
  by (auto simp: scan_frac_def split: list.splits if_splits option.splits
      dest!: scan_digits1_length)

lemma scan_exp_length: "scan_exp s = Some (a, r) \<Longrightarrow> length r \<le> length s"
  by (auto simp: scan_exp_def scan_exp_sign_def split: list.splits if_splits option.splits
      dest!: scan_digits1_length)

lemma scan_sign_length: "length (snd (scan_sign s)) \<le> length s"
  by (auto simp: scan_sign_def split: list.splits)

lemma parse_num_length: "parse_num s = Some (a, r) \<Longrightarrow> length r < length s"
  using scan_sign_length [of s]
  by (auto simp: parse_num_def split: prod.splits option.splits
      dest!: scan_int_length scan_frac_length scan_exp_length)

lemma strip_word_length: "strip_word w s = Some r \<Longrightarrow> w \<noteq> [] \<Longrightarrow> length r < length s"
  by (cases s; cases w) (auto simp: strip_word_def split: if_splits)

lemma parse_length_all:
  "(\<forall>d s v r. parse_value k d s = Some (v, r) \<longrightarrow> length r < length s)
   \<and> (\<forall>d s vs r. parse_elems k d s = Some (vs, r) \<longrightarrow> length r < length s)
   \<and> (\<forall>d s ms r. parse_members k d s = Some (ms, r) \<longrightarrow> length r < length s)"
proof (induction k)
  case 0
  then show ?case by simp
next
  case (Suc k)
  then have V: "\<And>d s v r. parse_value k d s = Some (v, r) \<Longrightarrow> length r < length s"
    and E: "\<And>d s v r. parse_elems k d s = Some (v, r) \<Longrightarrow> length r < length s"
    and M: "\<And>d s v r. parse_members k d s = Some (v, r) \<Longrightarrow> length r < length s"
    by blast+
  note drops = skip_ws_Cons parse_str_length parse_num_length strip_word_length
  have "length r < length s" if "parse_value (Suc k) d s = Some (v, r)" for d s v r
    using that
    by (auto split: list.splits if_splits dest!: E M drops)
  moreover have "length r < length s" if "parse_elems (Suc k) d s = Some (v, r)" for d s v r
    using that
    by (auto split: list.splits if_splits option.splits dest!: V E drops)
  moreover have "length r < length s" if "parse_members (Suc k) d s = Some (v, r)" for d s v r
    using that
    by (auto split: list.splits if_splits option.splits dest!: V M drops)
  ultimately show ?case by blast
qed

lemmas parse_value_length = parse_length_all [THEN conjunct1, rule_format]
  and parse_elems_length = parse_length_all [THEN conjunct2, THEN conjunct1, rule_format]
  and parse_members_length = parse_length_all [THEN conjunct2, THEN conjunct2, rule_format]

text \<open>Fuel beyond \<open>2 * length s + 1\<close> changes nothing.\<close>

lemma parse_fuel_all:
  "(\<forall>d s. 2 * length s + 1 \<le> k \<longrightarrow> parse_value (Suc k) d s = parse_value k d s)
   \<and> (\<forall>d s. 2 * length s + 2 \<le> k \<longrightarrow> parse_elems (Suc k) d s = parse_elems k d s)
   \<and> (\<forall>d s. 2 * length s + 2 \<le> k \<longrightarrow> parse_members (Suc k) d s = parse_members k d s)"
proof (induction k)
  case 0
  then show ?case by simp
next
  case (Suc k)
  then have V: "\<And>d s. 2 * length s + 1 \<le> k \<Longrightarrow> parse_value (Suc k) d s = parse_value k d s"
    and E: "\<And>d s. 2 * length s + 2 \<le> k \<Longrightarrow> parse_elems (Suc k) d s = parse_elems k d s"
    and M: "\<And>d s. 2 * length s + 2 \<le> k \<Longrightarrow> parse_members (Suc k) d s = parse_members k d s"
    by blast+
  note nounfold = parse_value.simps(2) parse_elems.simps(2) parse_members.simps(2)
  note drops = skip_ws_Cons parse_str_length parse_value_length
  have "parse_value (Suc (Suc k)) d s = parse_value (Suc k) d s" if "2 * length s + 1 \<le> Suc k" for d s
    unfolding parse_value.simps(2) [of "Suc k" d s] parse_value.simps(2) [of k d s]
    using that by (auto simp: E M simp del: nounfold split: list.split dest!: drops)
  moreover have "parse_elems (Suc (Suc k)) d s = parse_elems (Suc k) d s"
    if "2 * length s + 2 \<le> Suc k" for d s
  proof -
    have "parse_value (Suc k) d s = parse_value k d s" using that by (intro V) simp
    then show ?thesis
      unfolding parse_elems.simps(2) [of "Suc k" d s] parse_elems.simps(2) [of k d s]
      using that
      by (auto simp: E simp del: nounfold split: list.split option.split dest!: drops)
  qed
  moreover have "parse_members (Suc (Suc k)) d s = parse_members (Suc k) d s"
    if "2 * length s + 2 \<le> Suc k" for d s
  proof -
    have v: "parse_value (Suc k) d s3 = parse_value k d s3"
      if "skip_ws s = q # s1" "parse_str s1 = Some (key, s2)" "skip_ws s2 = c # s3" for q s1 key s2 c s3
      using skip_ws_Cons [OF that(1)] parse_str_length [OF that(2)] skip_ws_Cons [OF that(3)]
        \<open>2 * length s + 2 \<le> Suc k\<close> by (intro V) simp
    have m: "parse_members (Suc k) d t = parse_members k d t"
      if "skip_ws s = q # s1" "parse_str s1 = Some (key, s2)" "skip_ws s2 = c # s3"
        "parse_value k d s3 = Some (v, r)" "skip_ws r = c' # t" for q s1 key s2 c s3 v r c' t
      using skip_ws_Cons [OF that(1)] parse_str_length [OF that(2)] skip_ws_Cons [OF that(3)]
        parse_value_length [OF that(4)] skip_ws_Cons [OF that(5)]
        \<open>2 * length s + 2 \<le> Suc k\<close> by (intro M) simp
    show ?thesis
      unfolding parse_members.simps(2) [of "Suc k" d s] parse_members.simps(2) [of k d s]
      by (simp add: v m del: nounfold split: list.split option.split)
  qed
  ultimately show ?case by blast
qed

lemma parse_value_fuel:
  assumes "2 * length s + 1 \<le> k"
  shows "parse_value k d s = parse_value (2 * length s + 1) d s"
  using assms
proof (induction k rule: dec_induct)
  case base
  show ?case by simp
next
  case (step k)
  from step.hyps(1) have "parse_value (Suc k) d s = parse_value k d s"
    using parse_fuel_all by blast
  with step.IH show ?case by simp
qed

section \<open>Well-formed values\<close>

fun jdepth :: "json \<Rightarrow> nat" where
  "jdepth (JArr vs) = Suc (foldr max (map jdepth vs) 0)"
| "jdepth (JObj ms) = Suc (foldr max (map (\<lambda>(k, v). jdepth v) ms) 0)"
| "jdepth _ = 0"

fun wf_shape :: "json \<Rightarrow> bool" where
  "wf_shape (JNum l) = (parse_num l = Some (l, []))"
| "wf_shape (JStr s) = valid_utf8 s"
| "wf_shape (JArr vs) = list_all wf_shape vs"
| "wf_shape (JObj ms) = list_all (\<lambda>(k, v). valid_utf8 k \<and> wf_shape v) ms"
| "wf_shape _ = True"

definition wf_json :: "json \<Rightarrow> bool" where
  "wf_json v = (wf_shape v \<and> jdepth v \<le> max_depth)"

lemma foldr_max_le: "foldr max xs 0 \<le> (n::nat) \<longleftrightarrow> (\<forall>x \<in> set xs. x \<le> n)"
  by (induction xs) auto

section \<open>Strings\<close>

lemma hex_val_digit: "n < 16 \<Longrightarrow> hex_val (hex_digit n) = Some n"
  by (auto simp: hex_val_def hex_digit_def is_digit_def)

lemma hex4_escape:
  assumes "n < 65536"
  shows "hex4 (hex_digit (n div 4096 mod 16) # hex_digit (n div 256 mod 16)
    # hex_digit (n div 16 mod 16) # hex_digit (n mod 16) # t) = Some n"
proof -
  have b: "n div 4096 mod 16 = n div 4096" using assms by simp
  have "n div 16 div 16 = n div 256" "n div 256 div 16 = n div 4096"
    by (simp_all add: div_mult2_eq [symmetric])
  then have "(((n div 4096 mod 16) * 16 + n div 256 mod 16) * 16 + n div 16 mod 16) * 16 + n mod 16 = n"
    unfolding b by (metis div_mult_mod_eq)
  then show ?thesis using assms by (simp add: hex_val_digit)
qed

lemma parse_str_hex_escape:
  assumes "n < 65536" and "\<not> is_surrogate n"
  shows "parse_str (hex_escape n @ t) = prepend (encode_rune n) (parse_str t)"
proof -
  have "bslash \<noteq> dquote" by simp
  then show ?thesis
    using hex4_escape [OF assms(1), of t] assms(2)
    by (simp add: hex_escape_def parse_str.simps(2) [of bslash])
qed

lemma control_bytes:
  "byte c = 8 \<longleftrightarrow> c = CHR 0x08" "byte c = 12 \<longleftrightarrow> c = CHR 0x0C" "byte c = 10 \<longleftrightarrow> c = CHR 0x0A"
  "byte c = 13 \<longleftrightarrow> c = CHR 0x0D" "byte c = 9 \<longleftrightarrow> c = CHR 0x09"
  using of_char_eq_iff [of c "CHR 0x08", where 'a = nat] of_char_eq_iff [of c "CHR 0x0C", where 'a = nat]
    of_char_eq_iff [of c "CHR 0x0A", where 'a = nat] of_char_eq_iff [of c "CHR 0x0D", where 'a = nat]
    of_char_eq_iff [of c "CHR 0x09", where 'a = nat]
  by simp_all

lemma parse_str_quote_ascii:
  assumes "byte c < 128"
  shows "parse_str (quote_ascii c @ t) = prepend [c] (parse_str t)"
proof -
  note c = parse_str.simps(2) [of bslash] simple_escape_def
  consider "c = dquote \<or> c = bslash" | "byte c \<in> {8, 12, 10, 13, 9}"
    | (hex) "c \<noteq> dquote" "c \<noteq> bslash" "byte c \<notin> {8, 12, 10, 13, 9}"
        "byte c < 32 \<or> c = CHR ''<'' \<or> c = CHR ''>'' \<or> c = CHR ''&''"
    | (raw) "c \<noteq> dquote" "c \<noteq> bslash" "32 \<le> byte c" "c \<noteq> CHR ''<''" "c \<noteq> CHR ''>''" "c \<noteq> CHR ''&''"
    by fastforce
  then show ?thesis
  proof cases
    case 1
    then show ?thesis by (auto simp: quote_ascii_def c)
  next
    case 2
    then have "c \<in> {CHR 0x08, CHR 0x0C, CHR 0x0A, CHR 0x0D, CHR 0x09}"
      by (simp add: control_bytes)
    moreover have "char_of (8::nat) = CHR 0x08" "char_of (12::nat) = CHR 0x0C"
      "char_of (10::nat) = CHR 0x0A" "char_of (13::nat) = CHR 0x0D" "char_of (9::nat) = CHR 0x09"
      using char_of_char [of "CHR 0x08"] by (simp_all add: char_of_eq_iff)
    ultimately show ?thesis by (elim insertE emptyE) (simp_all add: quote_ascii_def c)
  next
    case hex
    then have "quote_ascii c = hex_escape (byte c)" by (auto simp: quote_ascii_def)
    moreover have "encode_rune (byte c) = [c]" using assms by (simp add: encode_rune_def)
    ultimately show ?thesis
      using assms by (simp add: parse_str_hex_escape is_surrogate_def)
  next
    case raw
    then have "quote_ascii c = [c]" by (auto simp: quote_ascii_def)
    with raw assms show ?thesis by (simp add: parse_str.simps(2) [of c])
  qed
qed

lemma parse_str_quote_body:
  "valid_utf8 s \<Longrightarrow> parse_str (quote_body s @ dquote # rest) = Some (s, rest)"
proof (induction s rule: quote_body.induct)
  case 1
  show ?case by (simp add: parse_str.simps(2) [of dquote])
next
  case (2 a s)
  let ?n = "rune_len (a # s)" and ?r = "fst (decode_rune (a # s))"
  show ?case
  proof (cases "byte a < 128")
    case True
    with 2 show ?thesis
      by (simp add: parse_str_quote_ascii valid_utf8_Cons_ascii prepend_Some del: valid_utf8.simps)
  next
    case False
    from "2.prems" have n: "0 < ?n" and v: "valid_utf8 (drop (?n - 1) s)" by (simp_all add: Let_def)
    have split: "take ?n (a # s) @ drop (?n - 1) s = a # s"
      using n by (cases ?n) simp_all
    have IH: "parse_str (quote_body (drop (?n - 1) s) @ dquote # rest) = Some (drop (?n - 1) s, rest)"
    proof (cases "?r = 8232 \<or> ?r = 8233")
      case True
      with "2.IH"(3) False n v show ?thesis by auto
    next
      case no: False
      with "2.IH"(4) False n v show ?thesis by auto
    qed
    show ?thesis
    proof (cases "?r = 8232 \<or> ?r = 8233")
      case True
      then have "parse_str (hex_escape ?r @ quote_body (drop (?n - 1) s) @ dquote # rest)
          = prepend (encode_rune ?r) (Some (drop (?n - 1) s, rest))"
        using IH by (subst parse_str_hex_escape) (auto simp: is_surrogate_def)
      with True False n show ?thesis
        using encode_decode_rune [of "a # s"] split by (simp add: Let_def prepend_Some)
    next
      case no: False
      obtain q where q: "take ?n (a # s) = a # q" using n by (cases ?n) auto
      let ?t = "quote_body (drop (?n - 1) s) @ dquote # rest"
      have len: "rune_len (a # q @ ?t) = ?n"
        using rune_len_take [OF n, of ?t] q by simp
      have lq: "length q = ?n - 1"
        using arg_cong [OF q, of length] rune_len_le_length [of "a # s"] n by simp
      have ad: "a \<noteq> dquote" "a \<noteq> bslash" "\<not> byte a < 32" using False by auto
      have m: "?n = Suc (length q)" using lq n by simp
      have "parse_str (a # q @ ?t) =
          prepend (take ?n (a # q @ ?t)) (parse_str (drop (?n - 1) (q @ ?t)))"
        using ad n by (simp only: parse_str.simps(2) [of a "q @ ?t"] len if_False) simp
      then have "parse_str (a # q @ ?t) = prepend (a # q) (parse_str ?t)"
        by (simp add: m)
      then have "parse_str (take ?n (a # s) @ ?t) = Some (a # s, rest)"
        unfolding q using IH split q by (simp add: prepend_Some)
      moreover have "quote_body (a # s) = take ?n (a # s) @ quote_body (drop (?n - 1) s)"
        using False n no by (simp add: Let_def)
      ultimately show ?thesis by simp
    qed
  qed
qed

lemma parse_str_valid: "parse_str s = Some (a, r) \<Longrightarrow> valid_utf8 a"
proof (induction "length s" arbitrary: s a r rule: less_induct)
  case less
  have IH: "valid_utf8 b" if "parse_str t = Some (b, r')" "length t < length s" for t b r'
    using less.hyps that by blast
  show ?case
  proof (cases s)
    case Nil
    with less.prems show ?thesis by simp
  next
    case (Cons c s')
    have se: "simple_escape e = Some d \<Longrightarrow> byte d < 128" for e d
      by (auto simp: simple_escape_def split: if_splits)
    from less.prems IH Cons show ?thesis
      by (auto simp: parse_str.simps(2) prepend_Some valid_utf8_encode valid_utf8_Cons_ascii se
          simp del: valid_utf8.simps(2)
          split: if_splits list.splits option.splits intro!: valid_utf8_rune)
  qed
qed

section \<open>Numbers\<close>

definition num_stop :: "string \<Rightarrow> bool" where
  "num_stop t = (case t of [] \<Rightarrow> True
     | c # _ \<Rightarrow> \<not> is_digit c \<and> c \<noteq> CHR ''.'' \<and> c \<noteq> CHR ''e'' \<and> c \<noteq> CHR ''E'')"

definition no_digit :: "string \<Rightarrow> bool" where
  "no_digit t = (case t of [] \<Rightarrow> True | c # _ \<Rightarrow> \<not> is_digit c)"

lemma num_stop_no_digit: "num_stop t \<Longrightarrow> no_digit t"
  by (auto simp: num_stop_def no_digit_def split: list.splits)

lemma takeWhile_digits_append:
  "dropWhile is_digit xs \<noteq> [] \<or> no_digit t \<Longrightarrow>
   takeWhile is_digit (xs @ t) = takeWhile is_digit xs \<and>
   dropWhile is_digit (xs @ t) = dropWhile is_digit xs @ t"
  by (induction xs) (auto simp: no_digit_def split: list.splits)

lemma scan_int_append:
  "scan_int s = Some (a, r) \<Longrightarrow> r \<noteq> [] \<or> no_digit t \<Longrightarrow> scan_int (s @ t) = Some (a, r @ t)"
  using takeWhile_digits_append [of "tl s" t]
  by (auto simp: scan_int_def split: list.splits if_splits)

lemma scan_digits1_append:
  "scan_digits1 s = Some (a, r) \<Longrightarrow> r \<noteq> [] \<or> no_digit t \<Longrightarrow> scan_digits1 (s @ t) = Some (a, r @ t)"
  using takeWhile_digits_append [of s t]
  by (auto simp: scan_digits1_def split: list.splits)

lemma scan_digits1_Nil: "scan_digits1 [] = None"
  by (simp add: scan_digits1_def)

lemma scan_frac_append:
  "scan_frac s = Some (a, r) \<Longrightarrow>
   r \<noteq> [] \<or> (no_digit t \<and> (t = [] \<or> hd t \<noteq> CHR ''.'')) \<Longrightarrow> scan_frac (s @ t) = Some (a, r @ t)"
  by (auto simp: scan_frac_def scan_digits1_append split: list.splits if_splits option.splits)

lemma scan_exp_sign_append:
  "scan_exp_sign s = (sg, u) \<Longrightarrow> s \<noteq> [] \<Longrightarrow> scan_exp_sign (s @ t) = (sg, u @ t)"
  by (auto simp: scan_exp_sign_def split: list.splits if_splits)

lemma scan_exp_Cons:
  assumes "scan_exp_sign s = (sg, u)"
  shows "scan_exp (c # s) =
    (if c = CHR ''e'' \<or> c = CHR ''E'' then map_option (\<lambda>(ds, t). (c # sg @ ds, t)) (scan_digits1 u)
     else Some ([], c # s))"
  using assms by (simp add: scan_exp_def split: option.split)

lemma scan_exp_sign_nonempty:
  "scan_exp_sign s = (sg, u) \<Longrightarrow> scan_digits1 u = Some x \<Longrightarrow> s \<noteq> []"
  by (auto simp: scan_exp_sign_def scan_digits1_Nil)

lemma scan_exp_append:
  assumes p: "scan_exp s = Some (a, r)" and t: "r \<noteq> [] \<or> num_stop t"
  shows "scan_exp (s @ t) = Some (a, r @ t)"
proof (cases s)
  case Nil
  with p t show ?thesis by (auto simp: scan_exp_def num_stop_def split: list.splits)
next
  case (Cons c s')
  obtain sg u where sg: "scan_exp_sign s' = (sg, u)" by fastforce
  show ?thesis
  proof (cases "c = CHR ''e'' \<or> c = CHR ''E''")
    case True
    with p sg obtain ds where ds: "scan_digits1 u = Some (ds, r)" "a = c # sg @ ds"
      by (auto simp: Cons scan_exp_Cons [OF sg])
    have "scan_exp_sign (s' @ t) = (sg, u @ t)"
      using sg scan_exp_sign_nonempty [OF sg ds(1)] by (rule scan_exp_sign_append)
    moreover have "scan_digits1 (u @ t) = Some (ds, r @ t)"
      using ds(1) t num_stop_no_digit by (blast intro: scan_digits1_append)
    ultimately show ?thesis using True ds(2) by (simp add: Cons scan_exp_Cons)
  next
    case False
    with p show ?thesis by (auto simp: Cons scan_exp_def)
  qed
qed

lemma scan_sign_append: "s \<noteq> [] \<Longrightarrow> scan_sign s = (a, r) \<Longrightarrow> scan_sign (s @ t) = (a, r @ t)"
  by (auto simp: scan_sign_def split: list.splits if_splits)

lemma parse_num_append:
  assumes p: "parse_num s = Some (l, r)" and t: "r \<noteq> [] \<or> num_stop t"
  shows "parse_num (s @ t) = Some (l, r @ t)"
proof -
  from p obtain sg s1 i s2 f s3 e where
    sg: "scan_sign s = (sg, s1)" and i: "scan_int s1 = Some (i, s2)"
    and f: "scan_frac s2 = Some (f, s3)" and e: "scan_exp s3 = Some (e, r)" and l: "l = sg @ i @ f @ e"
    by (auto simp: parse_num_def split: prod.splits option.splits)
  have s: "s \<noteq> []" using sg i by (auto simp: scan_sign_def scan_int_def)
  have r3: "s3 \<noteq> [] \<or> num_stop t" using t scan_exp_length [OF e] by auto
  have r2: "s2 \<noteq> [] \<or> num_stop t" using r3 scan_frac_length [OF f] by auto
  have dot: "num_stop t \<Longrightarrow> no_digit t \<and> (t = [] \<or> hd t \<noteq> CHR ''.'')"
    by (auto simp: num_stop_no_digit num_stop_def split: list.splits)
  have "scan_sign (s @ t) = (sg, s1 @ t)" using s sg by (rule scan_sign_append)
  moreover have "scan_int (s1 @ t) = Some (i, s2 @ t)" using i r2 num_stop_no_digit by (metis scan_int_append)
  moreover have "scan_frac (s2 @ t) = Some (f, s3 @ t)" using f r3 dot by (metis scan_frac_append)
  moreover have "scan_exp (s3 @ t) = Some (e, r @ t)" using e t by (rule scan_exp_append)
  ultimately show ?thesis by (simp add: parse_num_def l)
qed

lemma scan_int_parts: "scan_int s = Some (a, r) \<Longrightarrow> scan_int a = Some (a, []) \<and> s = a @ r"
  by (auto simp: scan_int_def takeWhile_eq_all_conv dropWhile_eq_Nil_conv dest: set_takeWhileD
      split: list.splits if_splits)

lemma scan_digits1_parts: "scan_digits1 s = Some (a, r) \<Longrightarrow> scan_digits1 a = Some (a, []) \<and> s = a @ r"
  unfolding scan_digits1_def
  by (cases "takeWhile is_digit s")
    (use takeWhile_dropWhile_id [of is_digit s] in
      \<open>auto simp: takeWhile_eq_all_conv dropWhile_eq_Nil_conv dest: set_takeWhileD [of _ is_digit s]
        split: list.splits\<close>)

lemma scan_frac_parts: "scan_frac s = Some (a, r) \<Longrightarrow> scan_frac a = Some (a, []) \<and> s = a @ r"
proof (cases s)
  case (Cons c s')
  assume p: "scan_frac s = Some (a, r)"
  show ?thesis
  proof (cases "c = CHR ''.''")
    case True
    with p Cons obtain ds where ds: "scan_digits1 s' = Some (ds, r)" "a = c # ds"
      by (auto simp: scan_frac_def split: option.splits)
    with True Cons scan_digits1_parts [OF ds(1)] show ?thesis by (simp add: scan_frac_def)
  next
    case False
    with p Cons show ?thesis by (auto simp: scan_frac_def)
  qed
qed (auto simp: scan_frac_def)

lemma scan_exp_sign_digits:
  "scan_digits1 ds = Some (ds, []) \<Longrightarrow> scan_exp_sign s = (sg, r) \<Longrightarrow> scan_exp_sign (sg @ ds) = (sg, ds)"
  by (auto simp: scan_exp_sign_def scan_digits1_def is_digit_def split: list.splits if_splits)

lemma scan_exp_parts:
  assumes p: "scan_exp s = Some (a, r)"
  shows "scan_exp a = Some (a, []) \<and> s = a @ r"
proof (cases s)
  case Nil
  with p show ?thesis by (auto simp: scan_exp_def)
next
  case (Cons c s')
  obtain sg u where sg: "scan_exp_sign s' = (sg, u)" by fastforce
  then have s': "s' = sg @ u" by (auto simp: scan_exp_sign_def split: list.splits if_splits)
  show ?thesis
  proof (cases "c = CHR ''e'' \<or> c = CHR ''E''")
    case True
    with p sg obtain ds where ds: "scan_digits1 u = Some (ds, r)" "a = c # sg @ ds"
      by (auto simp: Cons scan_exp_Cons [OF sg])
    have "scan_digits1 ds = Some (ds, []) \<and> u = ds @ r" using ds(1) by (rule scan_digits1_parts)
    moreover from this have "scan_exp_sign (sg @ ds) = (sg, ds)"
      using sg by (blast intro: scan_exp_sign_digits)
    ultimately show ?thesis using True ds(2) s' by (simp add: Cons scan_exp_Cons)
  next
    case False
    with p show ?thesis by (auto simp: Cons scan_exp_def)
  qed
qed

lemma scan_frac_head: "scan_frac s = Some (a, r) \<Longrightarrow> a = [] \<or> hd a = CHR ''.''"
  by (auto simp: scan_frac_def split: list.splits if_splits option.splits)

lemma scan_exp_head: "scan_exp s = Some (a, r) \<Longrightarrow> a = [] \<or> hd a = CHR ''e'' \<or> hd a = CHR ''E''"
  by (auto simp: scan_exp_def split: list.splits if_splits option.splits prod.splits)

lemma parse_num_parts:
  assumes p: "parse_num s = Some (l, r)"
  shows "parse_num l = Some (l, [])"
proof -
  from p obtain sg s1 i s2 f s3 e where
    sg: "scan_sign s = (sg, s1)" and i: "scan_int s1 = Some (i, s2)"
    and f: "scan_frac s2 = Some (f, s3)" and e: "scan_exp s3 = Some (e, r)" and l: "l = sg @ i @ f @ e"
    by (auto simp: parse_num_def split: prod.splits option.splits)
  have hf: "f = [] \<or> hd f = CHR ''.''" using f by (rule scan_frac_head)
  have he: "e = [] \<or> hd e = CHR ''e'' \<or> hd e = CHR ''E''" using e by (rule scan_exp_head)
  have nd: "no_digit (f @ e)" "no_digit e"
    using hf he by (cases f; cases e; auto simp: no_digit_def is_digit_def)+
  have i': "scan_int (i @ f @ e) = Some (i, f @ e)"
    using scan_int_append [of i i "[]" "f @ e"] scan_int_parts [OF i] nd by simp
  have f': "scan_frac (f @ e) = Some (f, e)"
    using scan_frac_append [of f f "[]" e] scan_frac_parts [OF f] nd he by auto
  have e': "scan_exp e = Some (e, [])" using scan_exp_parts [OF e] by simp
  have "scan_sign (sg @ i @ f @ e) = (sg, i @ f @ e)"
    using sg i scan_int_parts [OF i]
    by (auto simp: scan_sign_def scan_int_def split: list.splits if_splits)
  with i' f' e' show ?thesis by (simp add: parse_num_def l)
qed

lemma parse_num_head:
  "parse_num l = Some (l, []) \<Longrightarrow> \<exists>c t. l = c # t \<and> (is_digit c \<or> c = CHR ''-'')"
  by (cases l) (auto simp: parse_num_def scan_sign_def scan_int_def is_digit_def
      split: list.splits if_splits prod.splits option.splits)

lemma parse_num_wf: "parse_num s = Some (l, r) \<Longrightarrow> wf_shape (JNum l)"
  by (simp add: parse_num_parts)

section \<open>The round trip\<close>

lemma skip_ws_stop: "\<not> is_ws c \<Longrightarrow> skip_ws (c # t) = c # t"
  by (simp add: skip_ws_def)

lemma marshal_head:
  "wf_shape v \<Longrightarrow> \<exists>c t. marshal v = c # t \<and> \<not> is_ws c \<and> c \<noteq> CHR '']'' \<and> c \<noteq> CHR ''}''"
proof (cases v)
  case (JNum l)
  assume "wf_shape v"
  with JNum obtain c t where "l = c # t" "is_digit c \<or> c = CHR ''-''"
    using parse_num_head [of l] by auto
  with JNum show ?thesis by (auto simp: is_ws_def is_digit_def)
qed (auto simp: is_ws_def quote_def)

lemma skip_ws_marshal: "wf_shape v \<Longrightarrow> skip_ws (marshal v @ t) = marshal v @ t"
  using marshal_head [of v] by (auto simp: skip_ws_stop)

lemma strip_word_append: "strip_word w (w @ t) = Some t"
  by (simp add: strip_word_def)

definition value_ok :: "json \<Rightarrow> bool" where
  "value_ok v = (\<forall>d k t. d + jdepth v \<le> max_depth \<longrightarrow> num_stop t \<longrightarrow>
      2 * length (marshal v @ t) + 1 \<le> k \<longrightarrow> parse_value k d (marshal v @ t) = Some (v, t))"

lemma value_okI:
  assumes "\<And>d k t. d + jdepth v \<le> max_depth \<Longrightarrow> num_stop t \<Longrightarrow>
      2 * length (marshal v @ t) \<le> k \<Longrightarrow> parse_value (Suc k) d (marshal v @ t) = Some (v, t)"
  shows "value_ok v"
  unfolding value_ok_def using assms by (metis Suc_eq_plus1 Suc_le_D Suc_le_mono)

lemma value_okD:
  "value_ok v \<Longrightarrow> d + jdepth v \<le> max_depth \<Longrightarrow> num_stop t \<Longrightarrow>
   2 * length (marshal v @ t) + 1 \<le> k \<Longrightarrow> parse_value k d (marshal v @ t) = Some (v, t)"
  by (simp add: value_ok_def)

lemma num_stop_punct [simp]:
  "num_stop (CHR '','' # t)" "num_stop (CHR '']'' # t)" "num_stop (CHR ''}'' # t)" "num_stop []"
  by (simp_all add: num_stop_def is_digit_def)

lemma skip_ws_punct [simp]:
  "skip_ws (CHR '','' # t) = CHR '','' # t" "skip_ws (CHR '']'' # t) = CHR '']'' # t"
  "skip_ws (CHR ''}'' # t) = CHR ''}'' # t" "skip_ws (CHR '':'' # t) = CHR '':'' # t"
  "skip_ws (CHR ''{'' # t) = CHR ''{'' # t" "skip_ws (CHR ''['' # t) = CHR ''['' # t"
  "skip_ws (dquote # t) = dquote # t"
  by (simp_all add: skip_ws_stop is_ws_def)

lemma parse_elems_commas:
  assumes "vs \<noteq> []" and "\<forall>v \<in> set vs. value_ok v \<and> d + jdepth v \<le> max_depth"
    and "2 * length (commas (map marshal vs) @ CHR '']'' # t) + 2 \<le> k"
  shows "parse_elems k d (commas (map marshal vs) @ CHR '']'' # t) = Some (vs, t)"
  using assms
proof (induction "map marshal vs" arbitrary: vs k rule: commas.induct)
  case 1
  then show ?case by simp
next
  case (2 x)
  then obtain v where vs: "vs = [v]" by (cases vs) auto
  obtain k' where k: "k = Suc k'" using "2.prems"(3) by (cases k) auto
  have "parse_value k' d (marshal v @ CHR '']'' # t) = Some (v, CHR '']'' # t)"
    using "2.prems" vs k by (intro value_okD) auto
  then show ?case by (simp add: vs k)
next
  case (3 x y xs)
  then obtain v w ws where vs: "vs = v # w # ws" by (cases vs; cases "tl vs") auto
  obtain k' where k: "k = Suc k'" using "3.prems"(3) by (cases k) auto
  let ?rest = "commas (map marshal (w # ws)) @ CHR '']'' # t"
  have len: "2 * length (marshal v @ CHR '','' # ?rest) + 1 \<le> k'"
    using "3.prems"(3) vs k by simp
  have "parse_value k' d (marshal v @ CHR '','' # ?rest) = Some (v, CHR '','' # ?rest)"
    using "3.prems" vs len by (intro value_okD) auto
  moreover have "parse_elems k' d ?rest = Some (w # ws, t)"
    using "3.prems" "3.hyps"(2) len vs by (intro "3.hyps"(1)) auto
  ultimately show ?case by (simp add: vs k)
qed

abbreviation (input) member_text :: "string \<times> json \<Rightarrow> string" where
  "member_text \<equiv> \<lambda>(k, v). quote k @ CHR '':'' # marshal v"

lemma parse_members_commas:
  assumes "ms \<noteq> []"
    and "\<forall>(q, v) \<in> set ms. valid_utf8 q \<and> value_ok v \<and> d + jdepth v \<le> max_depth"
    and "2 * length (commas (map member_text ms) @ CHR ''}'' # t) + 2 \<le> k"
  shows "parse_members k d (commas (map member_text ms) @ CHR ''}'' # t) = Some (ms, t)"
  using assms
proof (induction "map member_text ms" arbitrary: ms k rule: commas.induct)
  case 1
  then show ?case by simp
next
  case (2 x)
  then obtain q v where vs: "ms = [(q, v)]" by (cases ms) auto
  obtain k' where k: "k = Suc k'" using "2.prems"(3) by (cases k) auto
  have "parse_value k' d (marshal v @ CHR ''}'' # t) = Some (v, CHR ''}'' # t)"
    using "2.prems" vs k by (intro value_okD) (auto simp: quote_def)
  then show ?case
    using "2.prems"(2) by (simp add: vs k quote_def parse_str_quote_body)
next
  case (3 x y xs)
  then obtain q v w ws where vs: "ms = (q, v) # w # ws" by (cases ms; cases "tl ms") auto
  obtain k' where k: "k = Suc k'" using "3.prems"(3) by (cases k) auto
  let ?rest = "commas (map member_text (w # ws)) @ CHR ''}'' # t"
  have len: "2 * length (marshal v @ CHR '','' # ?rest) + 1 \<le> k'"
    using "3.prems"(3) vs k by (simp add: quote_def)
  have "parse_value k' d (marshal v @ CHR '','' # ?rest) = Some (v, CHR '','' # ?rest)"
    using "3.prems" vs len by (intro value_okD) auto
  moreover have "parse_members k' d ?rest = Some (w # ws, t)"
    using "3.prems" "3.hyps"(2) len vs by (intro "3.hyps"(1)) auto
  ultimately show ?case
    using "3.prems"(2) by (simp add: vs k quote_def parse_str_quote_body)
qed

lemma commas_head:
  "xs = (c # y) # ys \<Longrightarrow> \<exists>t. commas xs = c # t"
  by (cases ys) auto

lemma value_ok_marshal: "wf_shape v \<Longrightarrow> value_ok v"
proof (induction v rule: marshal.induct)
  case 1
  show ?case by (rule value_okI) (simp add: skip_ws_stop is_ws_def strip_word_def)
next
  case (2 b)
  show ?case by (rule value_okI) (simp add: skip_ws_stop is_ws_def strip_word_def)
next
  case (3 l)
  then have l: "parse_num l = Some (l, [])" by simp
  obtain c u where c: "l = c # u" "is_digit c \<or> c = CHR ''-''" using parse_num_head [OF l] by blast
  then have "\<not> is_ws c" "c \<noteq> CHR ''{''" "c \<noteq> CHR ''[''" "c \<noteq> dquote" "c \<noteq> CHR ''t''"
    "c \<noteq> CHR ''f''" "c \<noteq> CHR ''n''" by (auto simp: is_ws_def is_digit_def)
  then show ?case
    using parse_num_append [OF l] c
    by (intro value_okI) (simp add: skip_ws_stop)
next
  case (4 s)
  then show ?case by (intro value_okI) (simp add: quote_def parse_str_quote_body)
next
  case (5 vs)
  show ?case unfolding value_ok_def
  proof (intro allI impI)
    fix d k t
    assume d: "d + jdepth (JArr vs) \<le> max_depth" and k: "2 * length (marshal (JArr vs) @ t) + 1 \<le> k"
    obtain k' where k': "k = Suc k'" using k by (cases k) auto
    show "parse_value k d (marshal (JArr vs) @ t) = Some (JArr vs, t)"
    proof (cases vs)
      case Nil
      with d show ?thesis by (simp add: k')
    next
      case (Cons v ws)
      obtain c u where "marshal v = c # u" "\<not> is_ws c" "c \<noteq> CHR '']''"
        using marshal_head [of v] "5.prems" Cons by auto
      then obtain u' where h: "commas (map marshal vs) = c # u'" "\<not> is_ws c" "c \<noteq> CHR '']''"
        using commas_head [of "map marshal vs" c] Cons by auto
      have "\<forall>v \<in> set vs. value_ok v \<and> Suc d + jdepth v \<le> max_depth"
      proof
        fix x assume x: "x \<in> set vs"
        then have "jdepth x \<le> foldr max (map jdepth vs) 0"
          using foldr_max_le [of "map jdepth vs" "foldr max (map jdepth vs) 0"] by auto
        with d x "5" show "value_ok x \<and> Suc d + jdepth x \<le> max_depth"
          by (auto simp: list_all_iff)
      qed
      moreover have "2 * length (commas (map marshal vs) @ CHR '']'' # t) + 2 \<le> k'"
        using k k' by simp
      ultimately have "parse_elems k' (Suc d) (commas (map marshal vs) @ CHR '']'' # t) = Some (vs, t)"
        using Cons by (intro parse_elems_commas) auto
      with h d show ?thesis by (simp add: k' skip_ws_stop)
    qed
  qed
next
  case (6 ms)
  show ?case unfolding value_ok_def
  proof (intro allI impI)
    fix d k t
    assume d: "d + jdepth (JObj ms) \<le> max_depth" and k: "2 * length (marshal (JObj ms) @ t) + 1 \<le> k"
    obtain k' where k': "k = Suc k'" using k by (cases k) auto
    show "parse_value k d (marshal (JObj ms) @ t) = Some (JObj ms, t)"
    proof (cases ms)
      case Nil
      with d show ?thesis by (simp add: k')
    next
      case (Cons m ws)
      obtain u' where h: "commas (map member_text ms) = dquote # u'"
        using commas_head [of "map member_text ms" dquote] Cons by (cases m) (auto simp: quote_def)
      have "\<forall>(q, v) \<in> set ms. valid_utf8 q \<and> value_ok v \<and> Suc d + jdepth v \<le> max_depth"
      proof (intro ballI, clarify)
        fix q v assume x: "(q, v) \<in> set ms"
        then have "jdepth v \<le> foldr max (map (\<lambda>(k, v). jdepth v) ms) 0"
          using foldr_max_le [of "map (\<lambda>(k, v). jdepth v) ms" "foldr max (map (\<lambda>(k, v). jdepth v) ms) 0"]
          by fastforce
        with d x "6" show "valid_utf8 q \<and> value_ok v \<and> Suc d + jdepth v \<le> max_depth"
          by (fastforce simp: list_all_iff)
      qed
      moreover have "2 * length (commas (map member_text ms) @ CHR ''}'' # t) + 2 \<le> k'"
        using k k' by simp
      ultimately have "parse_members k' (Suc d) (commas (map member_text ms) @ CHR ''}'' # t) = Some (ms, t)"
        using Cons by (intro parse_members_commas) auto
      with h d show ?thesis by (simp add: k')
    qed
  qed
qed

lemma json_roundtrip:
  assumes "wf_json v"
  shows "json_unmarshal (marshal v) = Some v"
proof -
  have "value_ok v" "0 + jdepth v \<le> max_depth"
    using assms by (simp_all add: wf_json_def value_ok_marshal)
  then have "parse_value (2 * length (marshal v @ []) + 1) 0 (marshal v @ []) = Some (v, [])"
    by (rule value_okD) simp_all
  then show ?thesis by (simp add: json_unmarshal_def skip_ws_def)
qed

interpretation json_codec: codec marshal json_unmarshal wf_json
  by unfold_locales (rule json_roundtrip)

text \<open>Everything the parser returns is well formed.\<close>

lemma parse_wf_all:
  "(\<forall>d s v r. d \<le> max_depth \<longrightarrow> parse_value k d s = Some (v, r) \<longrightarrow> wf_shape v \<and> d + jdepth v \<le> max_depth)
   \<and> (\<forall>d s vs r. d \<le> max_depth \<longrightarrow> parse_elems k d s = Some (vs, r) \<longrightarrow>
        (\<forall>v \<in> set vs. wf_shape v \<and> d + jdepth v \<le> max_depth))
   \<and> (\<forall>d s ms r. d \<le> max_depth \<longrightarrow> parse_members k d s = Some (ms, r) \<longrightarrow>
        (\<forall>(q, v) \<in> set ms. valid_utf8 q \<and> wf_shape v \<and> d + jdepth v \<le> max_depth))"
proof (induction k)
  case 0
  then show ?case by simp
next
  case (Suc k)
  then have V: "\<And>d s v r. parse_value k d s = Some (v, r) \<Longrightarrow> d \<le> max_depth \<Longrightarrow>
      wf_shape v \<and> d + jdepth v \<le> max_depth"
    and E: "\<And>d s vs r. parse_elems k d s = Some (vs, r) \<Longrightarrow> d \<le> max_depth \<Longrightarrow>
      \<forall>v \<in> set vs. wf_shape v \<and> d + jdepth v \<le> max_depth"
    and M: "\<And>d s ms r. parse_members k d s = Some (ms, r) \<Longrightarrow> d \<le> max_depth \<Longrightarrow>
      \<forall>(q, v) \<in> set ms. valid_utf8 q \<and> wf_shape v \<and> d + jdepth v \<le> max_depth"
    by blast+
  have M': "valid_utf8 q \<and> wf_shape v"
    if "parse_members k (Suc d) s = Some (ms, r)" "(q, v) \<in> set ms" "d \<le> max_depth" "max_depth \<noteq> d"
    for d s ms r q v
    using M [OF that(1)] that(2-) by fastforce
  have arr: "Suc (d + foldr max (map jdepth vs) 0) \<le> max_depth"
    if "\<not> max_depth \<le> d" "\<forall>v \<in> set vs. wf_shape v \<and> Suc d + jdepth v \<le> max_depth" for d vs
    using that foldr_max_le [of "map jdepth vs" "max_depth - Suc d"] by fastforce
  have obj: "Suc (d + foldr max (map (\<lambda>(k, v). jdepth v) ms) 0) \<le> max_depth"
    if "\<not> max_depth \<le> d" "\<forall>(q, v) \<in> set ms. valid_utf8 q \<and> wf_shape v \<and> Suc d + jdepth v \<le> max_depth" for d ms
    using that foldr_max_le [of "map (\<lambda>(k, v). jdepth v) ms" "max_depth - Suc d"] by fastforce
  have "wf_shape v \<and> d + jdepth v \<le> max_depth"
    if d: "d \<le> max_depth" and p: "parse_value (Suc k) d s = Some (v, r)" for d s v r
    using p d arr [of d] obj [of d]
    by (auto simp: list_all_iff simp del: wf_shape.simps(1) split: list.splits if_splits prod.splits
        dest!: parse_str_valid parse_num_wf dest: E M M')
  moreover have "\<forall>v \<in> set vs. wf_shape v \<and> d + jdepth v \<le> max_depth"
    if d: "d \<le> max_depth" and p: "parse_elems (Suc k) d s = Some (vs, r)" for d s vs r
    using p by (auto split: list.splits if_splits option.splits dest!: V [OF _ d] E [OF _ d])
  moreover have "\<forall>(q, v) \<in> set ms. valid_utf8 q \<and> wf_shape v \<and> d + jdepth v \<le> max_depth"
    if d: "d \<le> max_depth" and p: "parse_members (Suc k) d s = Some (ms, r)" for d s ms r
    using p
    by (auto split: list.splits if_splits option.splits dest!: V [OF _ d] M [OF _ d] parse_str_valid)
      fastforce+
  ultimately show ?case by blast
qed

lemma json_unmarshal_wf: "json_unmarshal s = Some v \<Longrightarrow> wf_json v"
  using parse_wf_all [of "2 * length s + 1"]
  by (fastforce simp: json_unmarshal_def wf_json_def split: option.splits if_splits)

end
