(* ===== verification/JsonDecode.thy ===== *)
theory JsonDecode imports JsonCorrect begin

text \<open>
  The typed half of \<^verbatim>\<open>json.Unmarshal\<close>: decoding a JSON value into a Go value of a given
  type.  \<open>decode_go t old j\<close> decodes \<open>j\<close> over the present content \<open>old\<close> of a variable of
  type \<open>t\<close>, and is \<open>None\<close> where the decoder reports an error.  It covers what the code's
  struct declarations use: strings, sized integers, floats, booleans, slices, pointers and
  nested structs; \<^verbatim>\<open>null\<close> leaves a variable as it is (or clears a slice or a pointer),
  unknown members are ignored, a member matches a field by its exact name first and by its
  folded name otherwise, and a repeated member is decoded over the earlier one.

  A float is kept as the text of its literal.  A nil slice or pointer is \<open>VNil\<close>, a non-nil
  pointer is the value it points to.
\<close>

section \<open>Decimal numbers\<close>

fun nat_text :: "nat \<Rightarrow> string" where
  "nat_text n = (if n < 10 then [char_of (48 + n)] else nat_text (n div 10) @ [char_of (48 + n mod 10)])"

declare nat_text.simps [simp del]

definition int_text :: "int \<Rightarrow> string" where
  "int_text i = (if i < 0 then CHR ''-'' # nat_text (nat (- i)) else nat_text (nat i))"

definition digits_val :: "string \<Rightarrow> nat" where
  "digits_val = foldl (\<lambda>n c. 10 * n + (byte c - 48)) 0"

definition parse_nat_lit :: "string \<Rightarrow> nat option" where
  "parse_nat_lit l = (if l \<noteq> [] \<and> list_all is_digit l then Some (digits_val l) else None)"

definition parse_uint :: "nat \<Rightarrow> string \<Rightarrow> nat option" where
  "parse_uint bits l =
     (case parse_nat_lit l of Some n \<Rightarrow> if int n < 2 ^ bits then Some n else None | None \<Rightarrow> None)"

definition parse_int :: "nat \<Rightarrow> string \<Rightarrow> int option" where
  "parse_int bits l =
     (case l of
        c # r \<Rightarrow>
          if c = CHR ''-'' then
            (case parse_nat_lit r of
               Some n \<Rightarrow> if int n \<le> 2 ^ (bits - 1) then Some (- int n) else None
             | None \<Rightarrow> None)
          else
            (case parse_nat_lit l of
               Some n \<Rightarrow> if int n < 2 ^ (bits - 1) then Some (int n) else None
             | None \<Rightarrow> None)
      | [] \<Rightarrow> None)"

text \<open>
  A literal that rounds past the largest float is a range error; the parts are those of the
  number grammar.
\<close>

definition float_in_range :: "string \<Rightarrow> bool" where
  "float_in_range l =
     (let body = snd (scan_sign l);
          ip = takeWhile is_digit body;
          r = dropWhile is_digit body;
          fp = (case r of c # t \<Rightarrow> if c = CHR ''.'' then takeWhile is_digit t else [] | [] \<Rightarrow> []);
          e = (case dropWhile (\<lambda>c. is_digit c \<or> c = CHR ''.'') body of
                 c # t \<Rightarrow> (case scan_exp_sign t of (sg, ds) \<Rightarrow>
                   if sg = ''-'' then - int (digits_val ds) else int (digits_val ds))
               | [] \<Rightarrow> 0);
          m = int (digits_val (ip @ fp));
          sc = e - int (length fp);
          lim = (2::int) ^ 1024 - 2 ^ 970
      in if m = 0 then True
         else if 0 \<le> sc then m * 10 ^ nat sc < lim
         else m < lim * 10 ^ nat (- sc))"

lemma nat_text_digits: "list_all is_digit (nat_text n) \<and> nat_text n \<noteq> []"
proof (induction n rule: nat_text.induct)
  case (1 n)
  have "is_digit (char_of (48 + k))" if "k < 10" for k :: nat
    using that by (simp add: is_digit_def)
  with 1 show ?case by (subst (1 2) nat_text.simps) auto
qed

lemma digits_val_snoc: "digits_val (xs @ [c]) = 10 * digits_val xs + (byte c - 48)"
  by (simp add: digits_val_def)

lemma digits_val_nat_text: "digits_val (nat_text n) = n"
proof (induction n rule: nat_text.induct)
  case (1 n)
  show ?case
  proof (cases "n < 10")
    case True
    then show ?thesis by (subst nat_text.simps) (simp add: digits_val_def)
  next
    case False
    with 1 show ?thesis by (subst nat_text.simps) (simp add: digits_val_snoc)
  qed
qed

lemma parse_nat_lit_text [simp]: "parse_nat_lit (nat_text n) = Some n"
  using nat_text_digits by (simp add: parse_nat_lit_def digits_val_nat_text)

lemma parse_uint_text: "int n < 2 ^ b \<Longrightarrow> parse_uint b (nat_text n) = Some n"
  by (simp add: parse_uint_def)

lemma nat_text_hd: "\<exists>c r. nat_text n = c # r \<and> is_digit c"
  using nat_text_digits [of n] by (cases "nat_text n") auto

lemma parse_int_text:
  assumes "- (2 ^ (b - 1)) \<le> i" and "i < 2 ^ (b - 1)"
  shows "parse_int b (int_text i) = Some i"
proof (cases "i < 0")
  case True
  have "int (nat (- i)) \<le> 2 ^ (b - 1)" using assms True by simp
  with True show ?thesis by (simp add: int_text_def parse_int_def)
next
  case False
  obtain c r where c: "nat_text (nat i) = c # r" "is_digit c" using nat_text_hd by blast
  then have "c \<noteq> CHR ''-''" by (auto simp: is_digit_def)
  moreover have "int (nat i) < 2 ^ (b - 1)" using assms False by simp
  ultimately show ?thesis
    using False c parse_nat_lit_text [of "nat i"] by (simp add: int_text_def parse_int_def)
qed

lemma nat_text_no_zero: "n \<noteq> 0 \<Longrightarrow> hd (nat_text n) \<noteq> CHR ''0''"
proof (induction n rule: nat_text.induct)
  case (1 n)
  show ?case
  proof (cases "n < 10")
    case True
    have "byte (char_of (48 + n)) \<noteq> byte (CHR ''0'')" using 1 True by simp
    then have "char_of (48 + n) \<noteq> CHR ''0''" by metis
    with True show ?thesis by (subst nat_text.simps) simp
  next
    case False
    with 1 nat_text_digits [of "n div 10"] show ?thesis by (subst nat_text.simps) simp
  qed
qed

lemma parse_num_nat_text: "parse_num (nat_text n) = Some (nat_text n, [])"
proof (cases "n = 0")
  case True
  have "nat_text 0 = ''0''" by (simp add: nat_text.simps char_of_eq_iff)
  with True show ?thesis by (simp add: parse_num_def scan_sign_def scan_int_def
        scan_frac_def scan_exp_def)
next
  case False
  obtain c r where c: "nat_text n = c # r" "is_digit c" using nat_text_hd by blast
  have r: "list_all is_digit r" using nat_text_digits [of n] c by simp
  have "c \<noteq> CHR ''0''" using nat_text_no_zero [OF False] c by simp
  moreover have "c \<noteq> CHR ''-''" using c by (auto simp: is_digit_def)
  moreover have "takeWhile is_digit r = r" "dropWhile is_digit r = []"
    using r by (simp_all add: list_all_iff takeWhile_eq_all_conv dropWhile_eq_Nil_conv)
  ultimately show ?thesis using c
    by (simp del: takeWhile_eq_all_conv dropWhile_eq_Nil_conv add: parse_num_def scan_sign_def scan_int_def scan_frac_def scan_exp_def)
qed

lemma parse_num_int_text: "parse_num (int_text i) = Some (int_text i, [])"
proof (cases "i < 0")
  case True
  obtain c r where c: "nat_text (nat (- i)) = c # r" "is_digit c" using nat_text_hd by blast
  then have "c \<noteq> CHR ''-''" by (auto simp: is_digit_def)
  with True c parse_num_nat_text [of "nat (- i)"] show ?thesis
    by (auto simp: int_text_def parse_num_def scan_sign_def split: option.splits)
next
  case False
  then show ?thesis by (simp add: int_text_def parse_num_nat_text)
qed

section \<open>Go types and values\<close>

datatype gotype =
    TStr | TInt nat | TUint nat | TFloat | TBool
  | TSlice gotype | TPtr gotype | TStruct "(string \<times> gotype) list"

datatype goval =
    VStr string | VInt int | VFloat string | VBool bool
  | VNil | VList "goval list" | VStruct "goval list"

fun zero_go :: "gotype \<Rightarrow> goval" where
  "zero_go TStr = VStr []"
| "zero_go (TInt _) = VInt 0"
| "zero_go (TUint _) = VInt 0"
| "zero_go TFloat = VFloat ''0''"
| "zero_go TBool = VBool False"
| "zero_go (TSlice _) = VNil"
| "zero_go (TPtr _) = VNil"
| "zero_go (TStruct fs) = VStruct (map (\<lambda>(_, t). zero_go t) fs)"

text \<open>
  Field names are ASCII; besides the case of letters the decoder's folding identifies the
  long s (U+017F) with S and the Kelvin sign (U+212A) with K.
\<close>

definition upper :: "char \<Rightarrow> char" where
  "upper c = (if 97 \<le> byte c \<and> byte c \<le> 122 then char_of (byte c - 32) else c)"

fun fold_key :: "string \<Rightarrow> string" where
  "fold_key [] = []"
| "fold_key (c # s) =
     (if byte c = 197 \<and> take 1 s = [char_of (191::nat)] then CHR ''S'' # fold_key (drop 1 s)
      else if byte c = 226 \<and> take 2 s = [char_of (132::nat), char_of (170::nat)]
      then CHR ''K'' # fold_key (drop 2 s)
      else upper c # fold_key s)"

fun index_of :: "('a \<Rightarrow> bool) \<Rightarrow> 'a list \<Rightarrow> nat option" where
  "index_of p [] = None"
| "index_of p (x # xs) = (if p x then Some 0 else map_option Suc (index_of p xs))"

definition field_index :: "(string \<times> gotype) list \<Rightarrow> string \<Rightarrow> nat option" where
  "field_index fs k =
     (case index_of (\<lambda>(n, _). n = k) fs of
        Some i \<Rightarrow> Some i
      | None \<Rightarrow> index_of (\<lambda>(n, _). fold_key n = fold_key k) fs)"

definition old_elem :: "gotype \<Rightarrow> goval list \<Rightarrow> goval" where
  "old_elem t olds = (case olds of [] \<Rightarrow> zero_go t | x # _ \<Rightarrow> x)"

definition list_of :: "goval \<Rightarrow> goval list" where
  "list_of v = (case v of VList vs \<Rightarrow> vs | _ \<Rightarrow> [])"

definition fields_of :: "goval \<Rightarrow> goval list" where
  "fields_of v = (case v of VStruct vs \<Rightarrow> vs | _ \<Rightarrow> [])"

function (sequential) decode_go :: "gotype \<Rightarrow> goval \<Rightarrow> json \<Rightarrow> goval option"
and decode_elems :: "gotype \<Rightarrow> goval list \<Rightarrow> json list \<Rightarrow> goval list option"
and decode_members ::
    "(string \<times> gotype) list \<Rightarrow> goval list \<Rightarrow> (string \<times> json) list \<Rightarrow> goval list option" where
  "decode_go t old j =
     (case t of
        TPtr t' \<Rightarrow>
          if j = JNull then Some VNil
          else decode_go t' (if old = VNil then zero_go t' else old) j
      | TSlice t' \<Rightarrow>
          (case j of JNull \<Rightarrow> Some VNil
           | JArr js \<Rightarrow> map_option VList (decode_elems t' (list_of old) js)
           | _ \<Rightarrow> None)
      | TStruct fs \<Rightarrow>
          (case j of JNull \<Rightarrow> Some old
           | JObj ms \<Rightarrow> map_option VStruct (decode_members fs (fields_of old) ms)
           | _ \<Rightarrow> None)
      | TStr \<Rightarrow> (case j of JNull \<Rightarrow> Some old | JStr s \<Rightarrow> Some (VStr s) | _ \<Rightarrow> None)
      | TBool \<Rightarrow> (case j of JNull \<Rightarrow> Some old | JBool b \<Rightarrow> Some (VBool b) | _ \<Rightarrow> None)
      | TInt bits \<Rightarrow>
          (case j of JNull \<Rightarrow> Some old | JNum l \<Rightarrow> map_option VInt (parse_int bits l) | _ \<Rightarrow> None)
      | TUint bits \<Rightarrow>
          (case j of JNull \<Rightarrow> Some old
           | JNum l \<Rightarrow> map_option (\<lambda>n. VInt (int n)) (parse_uint bits l) | _ \<Rightarrow> None)
      | TFloat \<Rightarrow>
          (case j of JNull \<Rightarrow> Some old
           | JNum l \<Rightarrow> if float_in_range l then Some (VFloat l) else None
           | _ \<Rightarrow> None))"
| "decode_elems t olds [] = Some []"
| "decode_elems t olds (j # js) =
     (case decode_go t (old_elem t olds) j of None \<Rightarrow> None
      | Some v \<Rightarrow> map_option (\<lambda>vs. v # vs) (decode_elems t (drop 1 olds) js))"
| "decode_members fs vals [] = Some vals"
| "decode_members fs vals ((k, j) # ms) =
     (case field_index fs k of None \<Rightarrow> decode_members fs vals ms
      | Some i \<Rightarrow>
          (case decode_go (snd (fs ! i)) (vals ! i) j of None \<Rightarrow> None
           | Some v \<Rightarrow> decode_members fs (vals[i := v]) ms))"
  by pat_completeness auto
termination
  by (relation "measures
       [case_sum (\<lambda>(t, old, j). size j)
          (case_sum (\<lambda>(t, olds, js). size_list size js)
                    (\<lambda>(fs, vals, ms). size_list (size_prod (\<lambda>_. 0) size) ms)),
        case_sum (\<lambda>(t, old, j). Suc (size t)) (\<lambda>_. 0)]")
    auto

declare decode_go.simps [simp del]

definition decode_struct :: "(string \<times> gotype) list \<Rightarrow> string \<Rightarrow> goval list option" where
  "decode_struct fs bytes =
     (case json_unmarshal bytes of None \<Rightarrow> None
      | Some j \<Rightarrow> map_option fields_of (decode_go (TStruct fs) (zero_go (TStruct fs)) j))"

lemma decode_go_eqs [code]:
  "decode_go TStr old j = (case j of JNull \<Rightarrow> Some old | JStr s \<Rightarrow> Some (VStr s) | _ \<Rightarrow> None)"
  "decode_go TBool old j = (case j of JNull \<Rightarrow> Some old | JBool b \<Rightarrow> Some (VBool b) | _ \<Rightarrow> None)"
  "decode_go (TInt n) old j =
     (case j of JNull \<Rightarrow> Some old | JNum l \<Rightarrow> map_option VInt (parse_int n l) | _ \<Rightarrow> None)"
  "decode_go (TUint n) old j =
     (case j of JNull \<Rightarrow> Some old
      | JNum l \<Rightarrow> map_option (\<lambda>n. VInt (int n)) (parse_uint n l) | _ \<Rightarrow> None)"
  "decode_go TFloat old j =
     (case j of JNull \<Rightarrow> Some old
      | JNum l \<Rightarrow> if float_in_range l then Some (VFloat l) else None | _ \<Rightarrow> None)"
  "decode_go (TPtr t) old j =
     (case j of JNull \<Rightarrow> Some VNil | _ \<Rightarrow> decode_go t (if old = VNil then zero_go t else old) j)"
  "decode_go (TSlice t) old j =
     (case j of JNull \<Rightarrow> Some VNil
      | JArr js \<Rightarrow> map_option VList (decode_elems t (list_of old) js) | _ \<Rightarrow> None)"
  "decode_go (TStruct fs) old j =
     (case j of JNull \<Rightarrow> Some old
      | JObj ms \<Rightarrow> map_option VStruct (decode_members fs (fields_of old) ms) | _ \<Rightarrow> None)"
  by (subst decode_go.simps, simp split: json.split)+

lemma index_of_less: "index_of p xs = Some i \<Longrightarrow> i < length xs \<and> p (xs ! i)"
  by (induction xs arbitrary: i) (auto split: if_splits)

lemma field_index_less: "field_index fs k = Some i \<Longrightarrow> i < length fs"
  by (auto simp: field_index_def dest: index_of_less split: option.splits)

lemma decode_members_length:
  "decode_members fs vals ms = Some vs \<Longrightarrow> length vs = length vals"
  by (induction ms arbitrary: vals) (auto split: option.splits)

text \<open>Decoding a value of a struct type always gives one value per declared field.\<close>

lemma decode_struct_length: "decode_struct fs bytes = Some vs \<Longrightarrow> length vs = length fs"
  by (auto simp: decode_struct_def decode_go_eqs fields_of_def dest!: decode_members_length
      split: option.splits json.splits)

end
