(* ===== verification/GoError.thy ===== *)
theory GoError imports Prelude begin

text \<open>
  Go error values and the part of the standard library's \<^verbatim>\<open>errors\<close> package the code
  relies on.  An error is one of the package-level sentinels, an error with only a text,
  a wrapping of another error (\<^verbatim>\<open>fmt.Errorf\<close> with \<^verbatim>\<open>%w\<close>), a join, or one of the typed
  errors of the SDK.  \<open>err_is\<close> is \<^verbatim>\<open>errors.Is\<close> against a sentinel, \<open>err_join\<close> is
  \<^verbatim>\<open>errors.Join\<close>, and the \<open>err_as_\<close> functions are \<^verbatim>\<open>errors.As\<close> at the SDK's types, all
  in the pre-order in which Go walks the tree.
\<close>

datatype sentinel =
    ErrClosed | ErrDisconnected | ErrSubscriberOverflow | ErrCapability | ErrResume
  | ErrTurnNoReply | ErrTurnCanceled | ErrProtocolFailure | ErrBridgeExited
  | ErrInvalidOptions
  | ErrMalformedFrame | ErrInvalidFrame | ErrFrameTooLarge
  | ErrTransportClosed | ErrUnsupported
  | Err_EOF | Ctx_Canceled | Ctx_DeadlineExceeded | Os_ErrNotExist | Sys_ESRCH

datatype launch_code =
    LaunchMissingBinary | LaunchStartupFailed | LaunchStartupTimeout
  | LaunchHandshakeFailed | LaunchTransportFailed

datatype gerr =
    Sent sentinel
  | Plain string
  | WrapE string gerr
  | JoinE "gerr list"
  | EventErr string string string
  | OptionErr string
  | CompatErr string string
  | LaunchErr launch_code string string "gerr option"

fun err_is :: "gerr \<Rightarrow> sentinel \<Rightarrow> bool" where
  "err_is (Sent s) t = (s = t)"
| "err_is (Plain _) t = False"
| "err_is (WrapE _ e) t = err_is e t"
| "err_is (JoinE es) t = list_ex (\<lambda>e. err_is e t) es"
| "err_is (EventErr _ _ _) t = False"
| "err_is (OptionErr _) t = (t = ErrInvalidOptions)"
| "err_is (CompatErr _ _) t = (t = ErrProtocolFailure)"
| "err_is (LaunchErr _ _ _ None) t = False"
| "err_is (LaunchErr _ _ _ (Some e)) t = err_is e t"

text \<open>\<^verbatim>\<open>errors.Join\<close> drops nil errors and is nil when none is left.\<close>

definition err_join :: "gerr option list \<Rightarrow> gerr option" where
  "err_join es = (case List.map_filter id es of [] \<Rightarrow> None | xs \<Rightarrow> Some (JoinE xs))"

definition join_all :: "gerr list \<Rightarrow> gerr option" where
  "join_all es = err_join (map Some es)"

fun first_some :: "'a option list \<Rightarrow> 'a option" where
  "first_some [] = None"
| "first_some (None # xs) = first_some xs"
| "first_some (Some x # xs) = Some x"

fun err_as_compat :: "gerr \<Rightarrow> (string \<times> string) option" where
  "err_as_compat (CompatErr k t) = Some (k, t)"
| "err_as_compat (WrapE _ e) = err_as_compat e"
| "err_as_compat (JoinE es) = first_some (map err_as_compat es)"
| "err_as_compat (LaunchErr _ _ _ (Some e)) = err_as_compat e"
| "err_as_compat _ = None"

fun err_as_launch :: "gerr \<Rightarrow> launch_code option" where
  "err_as_launch (LaunchErr c _ _ _) = Some c"
| "err_as_launch (WrapE _ e) = err_as_launch e"
| "err_as_launch (JoinE es) = first_some (map err_as_launch es)"
| "err_as_launch _ = None"

fun err_as_event :: "gerr \<Rightarrow> (string \<times> string \<times> string) option" where
  "err_as_event (EventErr c m p) = Some (c, m, p)"
| "err_as_event (WrapE _ e) = err_as_event e"
| "err_as_event (JoinE es) = first_some (map err_as_event es)"
| "err_as_event (LaunchErr _ _ _ (Some e)) = err_as_event e"
| "err_as_event _ = None"

fun err_as_option :: "gerr \<Rightarrow> string option" where
  "err_as_option (OptionErr f) = Some f"
| "err_as_option (WrapE _ e) = err_as_option e"
| "err_as_option (JoinE es) = first_some (map err_as_option es)"
| "err_as_option (LaunchErr _ _ _ (Some e)) = err_as_option e"
| "err_as_option _ = None"

text \<open>An optional error: \<^verbatim>\<open>errors.Is(nil, target)\<close> is false.\<close>

definition oerr_is :: "gerr option \<Rightarrow> sentinel \<Rightarrow> bool" where
  "oerr_is e t = (case e of None \<Rightarrow> False | Some x \<Rightarrow> err_is x t)"

lemma oerr_is_simps [simp]: "oerr_is None t = False" "oerr_is (Some e) t = err_is e t"
  by (simp_all add: oerr_is_def)

lemma map_filter_id_Some [simp]: "List.map_filter id (map Some es) = es"
  by (induction es) (auto simp: map_filter_simps)

lemma join_all_simps [simp]:
  "join_all [] = None" "join_all (e # es) = Some (JoinE (e # es))"
  by (simp_all add: join_all_def err_join_def)

lemma err_join_None_iff: "err_join es = None \<longleftrightarrow> (\<forall>e \<in> set es. e = None)"
  by (induction es) (auto simp: err_join_def map_filter_simps split: list.splits option.splits)

lemma oerr_is_join_all: "oerr_is (join_all es) t = list_ex (\<lambda>e. err_is e t) es"
  by (cases es) auto

end
