(* ===== verification/Protocol.thy ===== *)
theory Protocol imports JsonDecode GoError begin

text \<open>
  \<^verbatim>\<open>protocol/protocol.go\<close>: protocol-v1 requests, client frames and server frames.

  A Go \<^verbatim>\<open>map[string]json.RawMessage\<close> is a list of members in key order with distinct keys
  (the order in which \<^verbatim>\<open>json.Marshal\<close> writes a map).  A raw message is represented by the
  JSON value it denotes, so that the bytes written for it spell its strings canonically; no
  decoder of the program can tell two spellings of a value apart.  A \<^verbatim>\<open>fields any\<close> argument
  is the JSON value it marshals to, or the error of marshalling it.
\<close>

type_synonym members = "(string \<times> json) list"

section \<open>Raw-message maps\<close>

fun jput :: "string \<Rightarrow> json \<Rightarrow> members \<Rightarrow> members" where
  "jput k v [] = [(k, v)]"
| "jput k v ((k', v') # m) =
     (if k = k' then (k, v) # m
      else if k < k' then (k, v) # (k', v') # m
      else (k', v') # jput k v m)"

definition jmap_of :: "members \<Rightarrow> members" where
  "jmap_of ms = fold (\<lambda>(k, v). jput k v) ms []"

definition jmap_ok :: "members \<Rightarrow> bool" where
  "jmap_ok m = sorted_wrt (<) (map fst m)"

definition jdelete :: "string list \<Rightarrow> members \<Rightarrow> members" where
  "jdelete ks m = filter (\<lambda>(k, _). k \<notin> set ks) m"

text \<open>
  \<^verbatim>\<open>json.Unmarshal\<close> into a \<^verbatim>\<open>map[string]json.RawMessage\<close>: \<open>Inl\<close> the error, \<open>Inr None\<close>
  where the map stays nil (the document is \<^verbatim>\<open>null\<close>), otherwise the map.
\<close>

definition unmarshal_map :: "string \<Rightarrow> gerr + members option" where
  "unmarshal_map bytes =
     (case json_unmarshal bytes of
        Some (JObj ms) \<Rightarrow> Inr (Some (jmap_of ms))
      | Some JNull \<Rightarrow> Inr None
      | _ \<Rightarrow> Inl (Plain ''json''))"

definition marshal_map :: "members \<Rightarrow> string" where
  "marshal_map m = marshal (JObj m)"

section \<open>Requests and client frames\<close>

record raw_request =
  Req :: string
  Fields :: string

definition starts_object :: "string \<Rightarrow> bool" where
  "starts_object b = (case b of c # _ \<Rightarrow> c = CHR ''{'' | [] \<Rightarrow> False)"

definition new_raw_request :: "string \<Rightarrow> gerr + json \<Rightarrow> gerr + raw_request" where
  "new_raw_request req flds =
     (if req = [] then Inl (WrapE ''request tag is empty'' (Sent ErrInvalidFrame))
      else case flds of
        Inl err \<Rightarrow> Inl (WrapE (''marshal '' @ req @ '' fields'') err)
      | Inr v \<Rightarrow>
          let payload = marshal v in
          if \<not> starts_object payload
          then Inl (WrapE ''request fields must be an object'' (Sent ErrInvalidFrame))
          else Inr \<lparr>Req = req, Fields = payload\<rparr>)"

definition raw_request_marshal :: "raw_request \<Rightarrow> gerr + string" where
  "raw_request_marshal r =
     (if Req r = [] \<or> \<not> starts_object (Fields r)
      then Inl (WrapE (''invalid request '' @ Req r) (Sent ErrInvalidFrame))
      else case unmarshal_map (Fields r) of
        Inl err \<Rightarrow> Inl (WrapE ''request fields'' err)
      | Inr None \<Rightarrow> Inl (Plain ''assignment to entry in nil map'')
      | Inr (Some flds) \<Rightarrow> Inr (marshal_map (jput ''req'' (JStr (Req r)) flds)))"

record client_frame =
  CV :: int
  CID :: u64
  Request :: raw_request

definition client_frame_marshal :: "client_frame \<Rightarrow> gerr + string" where
  "client_frame_marshal f =
     (case raw_request_marshal (Request f) of
        Inl err \<Rightarrow> Inl err
      | Inr request \<Rightarrow>
          (case unmarshal_map request of
             Inl err \<Rightarrow> Inl err
           | Inr None \<Rightarrow> Inl (Plain ''assignment to entry in nil map'')
           | Inr (Some object) \<Rightarrow>
               Inr (marshal_map (jput ''id'' (JNum (nat_text (unat (CID f))))
                      (jput ''v'' (JNum (int_text (CV f))) object)))))"

section \<open>Events and server frames\<close>

datatype pevent =
    HelloOK (ev_version: int) (ev_server: string) (ev_capabilities: "string list")
  | OK
  | ErrorEv (ev_code: string) (ev_message: string) (ev_provider: string)
  | RawEvent string string
  | UnknownEvent string string

text \<open>A value of the interface type \<^verbatim>\<open>Event\<close>: nil, an event, or a pointer to one.\<close>

datatype event_ref = EvNil | EvVal pevent | EvPtr "pevent option"

definition event_tag :: "pevent \<Rightarrow> string" where
  "event_tag e =
     (case e of HelloOK _ _ _ \<Rightarrow> ''hello_ok'' | OK \<Rightarrow> ''ok'' | ErrorEv _ _ _ \<Rightarrow> ''error''
      | RawEvent k _ \<Rightarrow> k | UnknownEvent k _ \<Rightarrow> k)"

definition event_kind :: "event_ref \<Rightarrow> string" where
  "event_kind r = (case r of EvVal e \<Rightarrow> event_tag e | EvPtr (Some e) \<Rightarrow> event_tag e | _ \<Rightarrow> [])"

definition known_events :: "string list" where
  "known_events =
     [''hello_ok'', ''ok'', ''error'', ''sessions'', ''attached'', ''history'', ''pong'',
      ''text_delta'', ''reasoning_delta'', ''reasoning_done'', ''tool_start'', ''tool_input_delta'',
      ''tool_exec'', ''tool_done'', ''side_pane_images'', ''token_usage'', ''turn_done'',
      ''background_progress'', ''message_accepted'', ''permission_request'', ''session_status'',
      ''model_info'', ''models'', ''runtime_info'', ''credential_updated'', ''file_content'',
      ''files'', ''text_matches'', ''file_status'', ''compacted'', ''connection_phase'',
      ''session_renamed'', ''session_forked'', ''wake_requested'']"

definition is_known_event :: "string \<Rightarrow> bool" where
  "is_known_event kind = (kind \<in> set known_events)"

definition api_version_major :: int where "api_version_major = 1"
definition api_version_minor :: int where "api_version_minor = 0"

definition is_compatible_version :: "int \<Rightarrow> bool" where
  "is_compatible_version v = (v = api_version_major)"

record server_frame =
  SV :: int
  ReplyTo :: "u64 option"
  Event :: pevent

definition go_int :: "goval \<Rightarrow> int" where
  "go_int v = (case v of VInt i \<Rightarrow> i | _ \<Rightarrow> 0)"
definition go_str :: "goval \<Rightarrow> string" where
  "go_str v = (case v of VStr s \<Rightarrow> s | _ \<Rightarrow> [])"
definition go_strs :: "goval \<Rightarrow> string list" where
  "go_strs v = map go_str (list_of v)"

definition hello_ok_fields :: "(string \<times> gotype) list" where
  "hello_ok_fields = [(''version'', TInt 64), (''server'', TStr), (''capabilities'', TSlice TStr)]"

definition error_fields :: "(string \<times> gotype) list" where
  "error_fields = [(''code'', TStr), (''message'', TStr), (''provider_code'', TStr)]"

text \<open>\<^verbatim>\<open>json.Unmarshal(object[key], &x)\<close>: a missing key is an empty document, an error.\<close>

definition member_go :: "gotype \<Rightarrow> string \<Rightarrow> members \<Rightarrow> goval option" where
  "member_go t key object =
     (case map_of object key of None \<Rightarrow> None | Some j \<Rightarrow> decode_go t (zero_go t) j)"

definition decode_reply_to :: "members \<Rightarrow> gerr + u64 option" where
  "decode_reply_to object =
     (case map_of object ''reply_to'' of
        None \<Rightarrow> Inr None
      | Some JNull \<Rightarrow> Inr None
      | Some j \<Rightarrow>
          (case decode_go (TUint 64) (VInt 0) j of
             None \<Rightarrow> Inl (WrapE ''invalid reply_to'' (Sent ErrInvalidFrame))
           | Some v \<Rightarrow> Inr (Some (word_of_int (go_int v)))))"

definition decode_event :: "string \<Rightarrow> string \<Rightarrow> string \<Rightarrow> gerr + pevent" where
  "decode_event data kind payload =
     (if kind = ''hello_ok'' then
        (case decode_struct hello_ok_fields data of
           None \<Rightarrow> Inl (WrapE ''decode hello_ok'' (Plain ''json''))
         | Some vs \<Rightarrow> Inr (HelloOK (go_int (vs ! 0)) (go_str (vs ! 1)) (go_strs (vs ! 2))))
      else if kind = ''ok'' then Inr OK
      else if kind = ''error'' then
        (case decode_struct error_fields data of
           None \<Rightarrow> Inl (WrapE ''decode error event'' (Plain ''json''))
         | Some vs \<Rightarrow> Inr (ErrorEv (go_str (vs ! 0)) (go_str (vs ! 1)) (go_str (vs ! 2))))
      else if is_known_event kind then Inr (RawEvent kind payload)
      else Inr (UnknownEvent kind payload))"

definition reserved_keys :: "string list" where
  "reserved_keys = [''v'', ''reply_to'', ''ev'']"

definition decode_server_frame :: "string \<Rightarrow> gerr + server_frame" where
  "decode_server_frame data =
     (case unmarshal_map data of
        Inl err \<Rightarrow> Inl (WrapE ''decode server frame'' (Sent ErrMalformedFrame))
      | Inr None \<Rightarrow> Inl (WrapE ''server frame is not an object'' (Sent ErrInvalidFrame))
      | Inr (Some object) \<Rightarrow>
          (case member_go (TInt 64) ''v'' object of
             None \<Rightarrow> Inl (WrapE ''missing or invalid v'' (Sent ErrInvalidFrame))
           | Some v \<Rightarrow>
               if go_int v \<le> 0 then Inl (WrapE ''missing or invalid v'' (Sent ErrInvalidFrame))
               else case decode_reply_to object of
                 Inl err \<Rightarrow> Inl err
               | Inr reply_to \<Rightarrow>
                   (case member_go TStr ''ev'' object of
                      None \<Rightarrow> Inl (WrapE ''missing event tag'' (Sent ErrInvalidFrame))
                    | Some k \<Rightarrow>
                        if go_str k = [] then Inl (WrapE ''missing event tag'' (Sent ErrInvalidFrame))
                        else
                          let payload = marshal_map (jdelete reserved_keys object) in
                          case decode_event data (go_str k) payload of
                            Inl err \<Rightarrow> Inl err
                          | Inr e \<Rightarrow> Inr \<lparr>SV = go_int v, ReplyTo = reply_to, Event = e\<rparr>)))"

text \<open>
  The \<^verbatim>\<open>fields map[string]any\<close> of \<^verbatim>\<open>EncodeServerFrame\<close> are members whose values marshal, or
  \<open>None\<close> for a value that does not.
\<close>

definition encode_server_frame ::
    "int \<Rightarrow> u64 option \<Rightarrow> string \<Rightarrow> (string \<times> json option) list \<Rightarrow> gerr + string" where
  "encode_server_frame v reply_to kind flds =
     (if v \<le> 0 \<or> kind = [] then Inl (WrapE ''invalid server frame'' (Sent ErrInvalidFrame))
      else
        let object0 = jput ''ev'' (JStr kind) [(''v'', JNum (int_text v))];
            object1 = (case reply_to of None \<Rightarrow> object0
                       | Some rid \<Rightarrow> jput ''reply_to'' (JNum (nat_text (unat rid))) object0);
            kept = filter (\<lambda>(k, _). k \<notin> set reserved_keys) flds
        in if list_ex (\<lambda>(_, x). x = None) kept then Inl (Plain ''json: unsupported type'')
           else Inr (marshal_map (fold (\<lambda>(k, x) m. jput k (the x) m) kept object1)))"

definition fields_json :: "pevent \<Rightarrow> string option" where
  "fields_json e = (case e of RawEvent _ f \<Rightarrow> Some f | UnknownEvent _ f \<Rightarrow> Some f | _ \<Rightarrow> None)"

section \<open>Lemmas on raw-message maps\<close>

lemma map_of_jput: "map_of (jput k v m) = (map_of m)(k \<mapsto> v)"
  by (induction k v m rule: jput.induct) (auto simp: fun_eq_iff)

interpretation jmap: keyed_map jput map_of
  by unfold_locales (rule map_of_jput)

lemma set_jput: "set (jput k v m) \<subseteq> insert (k, v) (set m)"
  by (induction k v m rule: jput.induct) auto

lemma fst_jput: "fst ` set (jput k v m) = insert k (fst ` set m)"
  by (induction k v m rule: jput.induct) auto

lemma jput_ok: "jmap_ok m \<Longrightarrow> jmap_ok (jput k v m)"
  unfolding jmap_ok_def
proof (induction k v m rule: jput.induct)
  case (2 k v k' v' m)
  have "x > k'" if "x \<in> fst ` set (jput k v m)" "\<not> k < k'" "k \<noteq> k'" for x
    using that 2 by (auto simp: fst_jput)
  with 2 show ?case by (auto simp: image_def)
qed simp

lemma jmap_ok_fold_jput: "jmap_ok m \<Longrightarrow> jmap_ok (fold (\<lambda>(k, v). jput k v) ms m)"
  by (induction ms arbitrary: m) (auto intro: jput_ok)

lemma jmap_of_ok: "jmap_ok (jmap_of ms)"
  unfolding jmap_of_def by (rule jmap_ok_fold_jput) (simp add: jmap_ok_def)

lemma jmap_ok_distinct: "jmap_ok m \<Longrightarrow> distinct (map fst m)"
  by (simp add: jmap_ok_def strict_sorted_iff)

lemma jmap_ok_delete: "jmap_ok m \<Longrightarrow> jmap_ok (jdelete ks m)"
  unfolding jmap_ok_def jdelete_def by (induction m) auto

lemma jmap_eqI:
  assumes "jmap_ok m" "jmap_ok n" "map_of m = map_of n"
  shows "m = n"
proof (rule map_sorted_distinct_set_unique)
  show eq: "set m = set n"
    using assms map_of_inject_set [of m n] by (simp add: jmap_ok_distinct)
  show "inj_on fst (set m \<union> set n)"
    using assms jmap_ok_distinct [of n] by (simp add: eq distinct_map)
  show "sorted (map fst m)" "distinct (map fst m)" "sorted (map fst n)" "distinct (map fst n)"
    using assms by (simp_all add: jmap_ok_def strict_sorted_iff)
qed

lemma map_of_rev_ok: "jmap_ok m \<Longrightarrow> map_of (rev m) = map_of m"
  by (simp add: map_of_inject_set jmap_ok_distinct rev_map [symmetric])

lemma map_of_jmap_of: "map_of (jmap_of ms) = map_of (rev ms)"
  by (rule ext) (simp add: jmap_of_def jmap.get_fold_put split: option.split)

lemma jmap_of_id: "jmap_ok m \<Longrightarrow> jmap_of m = m"
  by (rule jmap_eqI) (simp_all add: jmap_of_ok map_of_jmap_of map_of_rev_ok)

lemma map_of_jdelete: "map_of (jdelete ks m) = (map_of m) |` (- set ks)"
  by (rule ext) (induction m, auto simp: jdelete_def restrict_map_def)

section \<open>Encoding client frames\<close>

lemma wf_JObj_iff:
  "wf_json (JObj m) \<longleftrightarrow> (\<forall>(k, v) \<in> set m. valid_utf8 k \<and> wf_shape v \<and> jdepth v < max_depth)"
proof -
  have "Suc (foldr max (map (\<lambda>(k, v). jdepth v) m) 0) \<le> max_depth \<longleftrightarrow> (\<forall>(k, v) \<in> set m. jdepth v < max_depth)"
    using foldr_max_le [of "map (\<lambda>(k, v). jdepth v) m" "max_depth - 1"]
    by (fastforce simp: max_depth_def)
  then show ?thesis by (fastforce simp: wf_json_def list_all_iff)
qed

lemma wf_jput: "wf_json (JObj m) \<Longrightarrow> valid_utf8 k \<Longrightarrow> wf_shape v \<Longrightarrow> jdepth v < max_depth \<Longrightarrow>
    wf_json (JObj (jput k v m))"
  using set_jput [of k v m] unfolding wf_JObj_iff by blast

lemma wf_fold_jput:
  "wf_json (JObj m) \<Longrightarrow> wf_json (JObj ms) \<Longrightarrow> wf_json (JObj (fold (\<lambda>(k, v). jput k v) ms m))"
proof (induction ms arbitrary: m)
  case (Cons kv ms)
  obtain k v where kv: "kv = (k, v)" by fastforce
  with Cons have "wf_json (JObj (jput k v m))" "wf_json (JObj ms)"
    by (auto simp: wf_JObj_iff [of "_ # _"] intro: wf_jput) (auto simp: wf_JObj_iff)
  with Cons.IH show ?case by (simp add: kv)
qed simp

lemma unmarshal_marshal_map:
  "jmap_ok m \<Longrightarrow> wf_json (JObj m) \<Longrightarrow> unmarshal_map (marshal_map m) = Inr (Some m)"
  unfolding unmarshal_map_def marshal_map_def by (simp only: json_roundtrip jmap_of_id option.case json.case)

lemma starts_object_iff: "wf_json v \<Longrightarrow> starts_object (marshal v) \<longleftrightarrow> (\<exists>ms. v = JObj ms)"
  using parse_num_head [of "marshal v"]
  by (cases v) (auto simp: starts_object_def wf_json_def quote_def is_digit_def split: list.splits)


lemmas parse_num_texts [simp] = parse_num_nat_text parse_num_int_text

lemma unmarshal_map_ok: "unmarshal_map b = Inr (Some m) \<Longrightarrow> jmap_ok m \<and> wf_json (JObj m)"
proof -
  assume "unmarshal_map b = Inr (Some m)"
  then obtain ms where ms: "json_unmarshal b = Some (JObj ms)" "m = jmap_of ms"
    by (auto simp: unmarshal_map_def split: option.splits json.splits)
  then have "wf_json (JObj ms)" by (blast intro: json_unmarshal_wf)
  then have "wf_json (JObj m)"
    unfolding ms(2) jmap_of_def by (rule wf_fold_jput [rotated]) (simp add: wf_JObj_iff)
  with ms(2) show ?thesis by (simp add: jmap_of_ok)
qed

lemma wf_jdelete: "wf_json (JObj m) \<Longrightarrow> wf_json (JObj (jdelete ks m))"
  by (auto simp: wf_JObj_iff jdelete_def)

lemma ascii_tags [simp]:
  "valid_utf8 ''req''" "valid_utf8 ''v''" "valid_utf8 ''id''" "valid_utf8 ''ev''"
  "valid_utf8 ''reply_to''"
  by (simp_all add: ascii_valid ascii_def)

lemma raw_request_marshal_new:
  assumes "new_raw_request req (Inr v) = Inr r" and "wf_json v" and "valid_utf8 req"
  shows "\<exists>fs. v = JObj fs \<and> Req r = req \<and> Fields r = marshal v \<and> req \<noteq> [] \<and>
     raw_request_marshal r = Inr (marshal_map (jput ''req'' (JStr req) (jmap_of fs)))"
proof -
  obtain fs where fs: "v = JObj fs" "r = \<lparr>Req = req, Fields = marshal v\<rparr>" "req \<noteq> []"
    using assms by (auto simp: new_raw_request_def starts_object_iff Let_def split: if_splits)
  have s: "starts_object (marshal v)" using assms(2) fs(1) starts_object_iff by blast
  have "unmarshal_map (marshal v) = Inr (Some (jmap_of fs))"
    unfolding unmarshal_map_def json_roundtrip [OF assms(2)] by (simp add: fs(1))
  with fs s show ?thesis by (auto simp: raw_request_marshal_def)
qed

text \<open>C33: a client frame made from a well-formed object always encodes to an object that
  decodes to the request's fields with the request tag, the version and the id put over
  whatever the fields held under those three keys.\<close>

theorem client_frame_fields:
  assumes "new_raw_request req (Inr v) = Inr r" and "wf_json v" and "valid_utf8 req"
  shows "\<exists>fs b m. v = JObj fs \<and> client_frame_marshal \<lparr>CV = n, CID = i, Request = r\<rparr> = Inr b \<and>
     starts_object b \<and> unmarshal_map b = Inr (Some m) \<and>
     map_of m = (map_of (rev fs))(''req'' \<mapsto> JStr req, ''v'' \<mapsto> JNum (int_text n),
                  ''id'' \<mapsto> JNum (nat_text (unat i)))"
proof -
  obtain fs where v: "v = JObj fs"
    and rm: "raw_request_marshal r = Inr (marshal_map (jput ''req'' (JStr req) (jmap_of fs)))"
    using raw_request_marshal_new [OF assms] by blast
  let ?m1 = "jput ''req'' (JStr req) (jmap_of fs)"
  let ?m2 = "jput ''id'' (JNum (nat_text (unat i))) (jput ''v'' (JNum (int_text n)) ?m1)"
  have "wf_json (JObj (jmap_of fs))"
    unfolding jmap_of_def using assms(2) v by (intro wf_fold_jput) (simp_all add: wf_JObj_iff)
  then have w1: "wf_json (JObj ?m1)"
    using assms(3) by (intro wf_jput) (simp_all add: max_depth_def)
  then have w2: "wf_json (JObj ?m2)"
    by (intro wf_jput [OF wf_jput [OF w1]]) (simp_all add: max_depth_def)
  have o1: "jmap_ok ?m1" and o2: "jmap_ok ?m2" by (simp_all add: jput_ok jmap_of_ok)
  have b: "client_frame_marshal \<lparr>CV = n, CID = i, Request = r\<rparr> = Inr (marshal_map ?m2)"
    by (simp add: client_frame_marshal_def rm unmarshal_marshal_map [OF o1 w1])
  have "starts_object (marshal_map ?m2)"
    using w2 unfolding marshal_map_def by (blast intro: starts_object_iff [THEN iffD2])
  moreover have "map_of ?m2 = (map_of (rev fs))(''req'' \<mapsto> JStr req, ''v'' \<mapsto> JNum (int_text n),
                  ''id'' \<mapsto> JNum (nat_text (unat i)))"
    by (simp add: map_of_jput map_of_jmap_of)
  ultimately show ?thesis using v b unmarshal_marshal_map [OF o2 w2] by blast
qed

theorem client_frame_fields_witness:
  "\<exists>b m. client_frame_marshal \<lparr>CV = 1, CID = 7, Request = \<lparr>Req = ''attach'', Fields = marshal (JObj [(''v'', JNull)])\<rparr>\<rparr> = Inr b
     \<and> unmarshal_map b = Inr (Some m) \<and> map_of m ''v'' = Some (JNum (int_text 1))"
proof -
  have "new_raw_request ''attach'' (Inr (JObj [(''v'', JNull)])) =
      Inr \<lparr>Req = ''attach'', Fields = marshal (JObj [(''v'', JNull)])\<rparr>"
    by (simp add: new_raw_request_def starts_object_def)
  moreover have "wf_json (JObj [(''v'', JNull)])" "valid_utf8 ''attach''"
    by (simp_all add: wf_json_def max_depth_def ascii_valid ascii_def)
  ultimately show ?thesis
    using client_frame_fields [of "''attach''" "JObj [(''v'', JNull)]" _ 1 7] by fastforce
qed



section \<open>Decoding server frames\<close>

text \<open>The members an encoded frame carries besides its envelope.\<close>

definition frame_payload :: "(string \<times> json option) list \<Rightarrow> members" where
  "frame_payload flds =
     jmap_of (map (\<lambda>(k, x). (k, the x)) (filter (\<lambda>(k, _). k \<notin> set reserved_keys) flds))"

definition fields_ok :: "(string \<times> json option) list \<Rightarrow> bool" where
  "fields_ok flds = list_all (\<lambda>(k, x). case x of None \<Rightarrow> False
     | Some j \<Rightarrow> valid_utf8 k \<and> wf_shape j \<and> jdepth j < max_depth) flds"

definition go_int_range :: "int \<Rightarrow> bool" where
  "go_int_range i = (- (2 ^ 63) \<le> i \<and> i < 2 ^ 63)"

lemma fold_the: "fold (\<lambda>(k, x) m. jput k (the x) m) kept m =
    fold (\<lambda>(k, v). jput k v) (map (\<lambda>(k, x). (k, the x)) kept) m"
  by (induction kept arbitrary: m) auto

lemma wf_kept:
  "fields_ok flds \<Longrightarrow> wf_json (JObj (map (\<lambda>(k, x). (k, the x)) (filter P flds)))"
  by (fastforce simp: fields_ok_def wf_JObj_iff list_all_iff split: option.splits)

lemma kept_no_None: "fields_ok flds \<Longrightarrow> \<not> list_ex (\<lambda>(_, x). x = None) (filter P flds)"
  by (fastforce simp: fields_ok_def list_all_iff list_ex_iff split: option.splits)

lemma parse_uint_unat: "parse_uint 64 (nat_text (unat (w :: u64))) = Some (unat w)"
proof (rule parse_uint_text)
  show "int (unat w) < 2 ^ 64" using uint_lt2p [of w] by simp
qed

lemma map_of_kept_reserved:
  "k \<in> set reserved_keys \<Longrightarrow>
   map_of (rev (map (\<lambda>(k, x). (k, the x)) (filter (\<lambda>(k, _). k \<notin> set reserved_keys) flds))) k = None"
  by (auto simp: map_of_eq_None_iff)

definition frame_members ::
    "int \<Rightarrow> u64 option \<Rightarrow> string \<Rightarrow> (string \<times> json option) list \<Rightarrow> members" where
  "frame_members v r kind flds =
     fold (\<lambda>(k, v). jput k v)
       (map (\<lambda>(k, x). (k, the x)) (filter (\<lambda>(k, _). k \<notin> set reserved_keys) flds))
       (case r of None \<Rightarrow> jput ''ev'' (JStr kind) [(''v'', JNum (int_text v))]
        | Some rid \<Rightarrow> jput ''reply_to'' (JNum (nat_text (unat rid)))
            (jput ''ev'' (JStr kind) [(''v'', JNum (int_text v))]))"

lemma frame_members_ok:
  assumes "0 < v" "kind \<noteq> []" "valid_utf8 kind" "fields_ok flds"
  shows "encode_server_frame v r kind flds = Inr (marshal_map (frame_members v r kind flds))"
    and "jmap_ok (frame_members v r kind flds)" and "wf_json (JObj (frame_members v r kind flds))"
    and "jdelete reserved_keys (frame_members v r kind flds) = frame_payload flds"
    and "map_of (frame_members v r kind flds) ''v'' = Some (JNum (int_text v))"
    and "map_of (frame_members v r kind flds) ''ev'' = Some (JStr kind)"
    and "map_of (frame_members v r kind flds) ''reply_to'' = map_option (\<lambda>w. JNum (nat_text (unat w))) r"
proof -
  let ?kept = "map (\<lambda>(k, x). (k, the x)) (filter (\<lambda>(k, _). k \<notin> set reserved_keys) flds)"
  let ?o0 = "jput ''ev'' (JStr kind) [(''v'', JNum (int_text v))]"
  define o1 where "o1 = (case r of None \<Rightarrow> ?o0 | Some rid \<Rightarrow> jput ''reply_to'' (JNum (nat_text (unat rid))) ?o0)"
  let ?m = "frame_members v r kind flds"
  have m: "?m = fold (\<lambda>(k, v). jput k v) ?kept o1"
    by (simp only: frame_members_def o1_def)
  have "wf_json (JObj ?o0)" using assms(3)
    by (intro wf_jput) (simp_all add: wf_JObj_iff max_depth_def)
  then have w1: "wf_json (JObj o1)"
    by (cases r) (auto simp: o1_def wf_JObj_iff max_depth_def)
  have k1: "jmap_ok o1"
    by (simp add: o1_def jput_ok jmap_ok_def split: option.split)
  have g1: "map_of o1 = [''v'' \<mapsto> JNum (int_text v), ''ev'' \<mapsto> JStr kind]
      (''reply_to'' := map_option (\<lambda>w. JNum (nat_text (unat w))) r)"
    by (cases r) (auto simp: o1_def map_of_jput)
  show km: "jmap_ok ?m" unfolding m by (rule jmap_ok_fold_jput [OF k1])
  show wm: "wf_json (JObj ?m)" unfolding m by (rule wf_fold_jput [OF w1 wf_kept [OF assms(4)]])
  have gm: "map_of ?m k = (case map_of (rev ?kept) k of None \<Rightarrow> map_of o1 k | Some v \<Rightarrow> Some v)" for k
    unfolding m by (rule jmap.get_fold_put)
  have "map_of (jdelete reserved_keys ?m) = map_of (frame_payload flds)"
  proof
    fix k
    show "map_of (jdelete reserved_keys ?m) k = map_of (frame_payload flds) k"
    proof (cases "k \<in> set reserved_keys")
      case True
      then show ?thesis
        using map_of_kept_reserved [OF True, of flds]
        by (simp add: map_of_jdelete frame_payload_def map_of_jmap_of)
    next
      case False
      then have "map_of o1 k = None" by (auto simp: g1 reserved_keys_def)
      with False show ?thesis
        unfolding frame_payload_def map_of_jmap_of map_of_jdelete gm
        by (simp add: gm del: rev_map split: option.split)
    qed
  qed
  then show "jdelete reserved_keys ?m = frame_payload flds"
    by (intro jmap_eqI jmap_ok_delete km) (simp_all add: frame_payload_def jmap_of_ok)
  show "map_of ?m ''v'' = Some (JNum (int_text v))" "map_of ?m ''ev'' = Some (JStr kind)"
      "map_of ?m ''reply_to'' = map_option (\<lambda>w. JNum (nat_text (unat w))) r"
    unfolding gm
    by (subst map_of_kept_reserved; simp add: reserved_keys_def g1)+
  show "encode_server_frame v r kind flds = Inr (marshal_map ?m)"
    using assms(1,2) kept_no_None [OF assms(4)]
    by (simp add: encode_server_frame_def Let_def fold_the m o1_def split: option.split)
qed

lemma decode_reply_to_ok:
  "map_of m ''reply_to'' = map_option (\<lambda>w. JNum (nat_text (unat w))) r \<Longrightarrow>
   decode_reply_to m = Inr r"
  by (cases r) (auto simp: decode_reply_to_def decode_go_eqs parse_uint_unat go_int_def)

lemma decode_frame_members:
  assumes "0 < v" "v < 2 ^ 63" "kind \<noteq> []" "valid_utf8 kind" "fields_ok flds"
    and "decode_event (marshal_map (frame_members v r kind flds)) kind (marshal_map (frame_payload flds)) = Inr e"
  shows "decode_server_frame (marshal_map (frame_members v r kind flds)) =
     Inr \<lparr>SV = v, ReplyTo = r, Event = e\<rparr>"
proof -
  note m = frame_members_ok [OF assms(1,3,4,5), of r]
  have "parse_int 64 (int_text v) = Some v"
    using assms(1,2) by (intro parse_int_text) simp_all
  then show ?thesis
    using assms(1,3,6) m(4-6) unmarshal_marshal_map [OF m(2,3)] decode_reply_to_ok [OF m(7)]
    by (simp add: decode_server_frame_def member_go_def decode_go_eqs go_int_def go_str_def Let_def)
qed



text \<open>What a decoded frame promises to the client.\<close>

lemma decode_server_frame_Inr:
  assumes "decode_server_frame b = Inr f"
  obtains m k where "unmarshal_map b = Inr (Some m)"
    "member_go (TInt 64) ''v'' m = Some (VInt (SV f))" "0 < SV f"
    "decode_reply_to m = Inr (ReplyTo f)"
    "map_of m ''ev'' = Some (JStr k)" "k \<noteq> []"
    "decode_event b k (marshal_map (jdelete reserved_keys m)) = Inr (Event f)"
proof -
  from assms obtain m v kv where m: "unmarshal_map b = Inr (Some m)"
    and v: "member_go (TInt 64) ''v'' m = Some v" "0 < go_int v" "go_int v = SV f"
    and r: "decode_reply_to m = Inr (ReplyTo f)"
    and k: "member_go TStr ''ev'' m = Some kv" "go_str kv \<noteq> []"
    and e: "decode_event b (go_str kv) (marshal_map (jdelete reserved_keys m)) = Inr (Event f)"
    by (auto simp: decode_server_frame_def Let_def not_le split: sum.splits option.splits if_splits)
  have "v = VInt (SV f)" using v
    by (auto simp: member_go_def decode_go_eqs go_int_def split: option.splits json.splits goval.splits)
  moreover have "map_of m ''ev'' = Some (JStr (go_str kv))" using k
    by (auto simp: member_go_def decode_go_eqs go_str_def split: option.splits json.splits)
  ultimately show thesis
    by (intro that [OF m, of "go_str kv"]) (use v r k e in auto)
qed

lemma decode_event_Inr:
  assumes "decode_event b k p = Inr e" "k \<noteq> []"
  shows "event_tag e = k"
    and "k \<notin> {''hello_ok'', ''ok'', ''error''} \<Longrightarrow>
      e = (if is_known_event k then RawEvent k p else UnknownEvent k p)"
    and "k \<in> {''hello_ok'', ''ok'', ''error''} \<Longrightarrow> fields_json e = None"
  using assms
  by (auto simp: decode_event_def event_tag_def fields_json_def split: if_splits option.splits)

lemma member_int_range:
  assumes "member_go (TInt 64) k m = Some (VInt i)" "0 < i" shows "i < 2 ^ 63"
  using assms
  by (auto simp: member_go_def decode_go_eqs parse_int_def split: option.splits json.splits list.splits if_splits)

text \<open>C34: every frame the decoder accepts has a positive version that fits a Go int and a
  non-empty kind; an event other than the three protocol replies carries the frame's own
  members without the envelope keys, as a document that decodes again, and is a raw event
  exactly when its kind is known.\<close>

theorem decoded_frame_ok:
  assumes "decode_server_frame b = Inr f"
  shows "0 < SV f \<and> SV f < 2 ^ 63 \<and> event_tag (Event f) \<noteq> [] \<and>
    (case fields_json (Event f) of
       None \<Rightarrow> event_tag (Event f) \<in> {''hello_ok'', ''ok'', ''error''}
     | Some p \<Rightarrow> \<exists>m m'. unmarshal_map b = Inr (Some m) \<and> unmarshal_map p = Inr (Some m') \<and>
         map_of m' = (map_of m) |` (- {''v'', ''reply_to'', ''ev''}) \<and>
         (Event f = RawEvent (event_tag (Event f)) p \<longleftrightarrow> is_known_event (event_tag (Event f))))"
proof -
  obtain m k where m: "unmarshal_map b = Inr (Some m)"
    and v: "member_go (TInt 64) ''v'' m = Some (VInt (SV f))" "0 < SV f"
    and k: "k \<noteq> []"
    and e: "decode_event b k (marshal_map (jdelete reserved_keys m)) = Inr (Event f)"
    using decode_server_frame_Inr [OF assms] by metis
  note ev = decode_event_Inr [OF e k]
  have um: "unmarshal_map (marshal_map (jdelete reserved_keys m)) = Inr (Some (jdelete reserved_keys m))"
    using unmarshal_map_ok [OF m] by (simp add: unmarshal_marshal_map jmap_ok_delete wf_jdelete)
  have res: "map_of (jdelete reserved_keys m) = (map_of m) |` (- {''v'', ''reply_to'', ''ev''})"
    by (simp add: map_of_jdelete reserved_keys_def)
  have "SV f < 2 ^ 63" using member_int_range [OF v] .
  moreover have "case fields_json (Event f) of
       None \<Rightarrow> event_tag (Event f) \<in> {''hello_ok'', ''ok'', ''error''}
     | Some p \<Rightarrow> \<exists>m m'. unmarshal_map b = Inr (Some m) \<and> unmarshal_map p = Inr (Some m') \<and>
         map_of m' = (map_of m) |` (- {''v'', ''reply_to'', ''ev''}) \<and>
         (Event f = RawEvent (event_tag (Event f)) p \<longleftrightarrow> is_known_event (event_tag (Event f)))"
  proof (cases "k \<in> {''hello_ok'', ''ok'', ''error''}")
    case True
    with ev show ?thesis by simp
  next
    case False
    with ev(2) m um res show ?thesis by (auto simp: fields_json_def event_tag_def)
  qed
  ultimately show ?thesis using v(2) ev(1) k by simp
qed

text \<open>The decoder rejects a frame that is not a JSON object with the malformed-frame error and any
  other bad envelope with the invalid-frame error, except that a \<^verbatim>\<open>hello_ok\<close> or \<^verbatim>\<open>error\<close>
  event with ill-typed fields gives an error that matches no sentinel at all.\<close>

theorem decode_error_class:
  assumes "decode_server_frame b = Inl e"
  shows "err_is e ErrMalformedFrame \<and> (\<nexists>m. unmarshal_map b = Inr m) \<or>
     err_is e ErrInvalidFrame \<and> (\<exists>m. unmarshal_map b = Inr m) \<or>
     (\<exists>m. unmarshal_map b = Inr (Some m) \<and>
       (map_of m ''ev'' = Some (JStr ''hello_ok'') \<and> decode_struct hello_ok_fields b = None \<or>
        map_of m ''ev'' = Some (JStr ''error'') \<and> decode_struct error_fields b = None) \<and>
       (\<forall>s. \<not> err_is e s))"
proof (cases "unmarshal_map b")
  case (Inl x)
  with assms show ?thesis by (auto simp: decode_server_frame_def)
next
  case (Inr om)
  show ?thesis
  proof (cases "err_is e ErrInvalidFrame")
    case True
    with Inr show ?thesis by blast
  next
    case False
    then obtain m kv where m: "om = Some m" "member_go TStr ''ev'' m = Some kv" "go_str kv \<noteq> []"
      "decode_event b (go_str kv) (marshal_map (jdelete reserved_keys m)) = Inl e"
      using assms Inr
      by (auto simp: decode_server_frame_def decode_reply_to_def Let_def
          split: option.splits if_splits sum.splits json.splits)
    moreover have "map_of m ''ev'' = Some (JStr (go_str kv))" using m(2,3)
      by (auto simp: member_go_def decode_go_eqs go_str_def split: option.splits json.splits)
    ultimately show ?thesis using Inr
      by (auto simp: decode_event_def split: if_splits option.splits)
  qed
qed


lemma decode_elems_strs: "decode_elems TStr olds (map JStr ss) = Some (map VStr ss)"
  by (induction ss arbitrary: olds) (auto simp: decode_go_eqs)

lemma go_strs_VStr [simp]: "go_strs (VList (map VStr ss)) = ss"
  by (induction ss) (auto simp: go_strs_def list_of_def go_str_def)

lemma decode_struct_marshal:
  "wf_json (JObj m) \<Longrightarrow>
   decode_struct fs (marshal_map m) =
     decode_members fs (map (\<lambda>(_, t). zero_go t) fs) m"
  unfolding decode_struct_def marshal_map_def json_roundtrip
  by (simp add: decode_go_eqs fields_of_def option.map_comp comp_def option.map_ident)

lemma ascii_field_names [simp]:
  "valid_utf8 ''version''" "valid_utf8 ''server''" "valid_utf8 ''capabilities''"
  "valid_utf8 ''code''" "valid_utf8 ''message''" "valid_utf8 ''provider_code''"
  "valid_utf8 ''hello_ok''" "valid_utf8 ''error''"
  by (simp_all add: ascii_valid ascii_def)

lemma field_index_hello:
  "field_index hello_ok_fields ''version'' = Some 0" "field_index hello_ok_fields ''server'' = Some 1"
  "field_index hello_ok_fields ''capabilities'' = Some 2" "field_index hello_ok_fields ''ev'' = None"
  "field_index hello_ok_fields ''reply_to'' = None" "field_index hello_ok_fields ''v'' = None"
  by code_simp+

lemma field_index_error:
  "field_index error_fields ''code'' = Some 0" "field_index error_fields ''message'' = Some 1"
  "field_index error_fields ''provider_code'' = Some 2" "field_index error_fields ''ev'' = None"
  "field_index error_fields ''reply_to'' = None" "field_index error_fields ''v'' = None"
  by code_simp+

lemma jdepth_strs: "foldr max (map (jdepth \<circ> JStr) ss) 0 = 0"
  by (induction ss) auto

lemma hello_frame:
  assumes "0 < v" "v < 2 ^ 63" "go_int_range n" "valid_utf8 s" "list_all valid_utf8 caps"
  shows "\<exists>b. encode_server_frame v r ''hello_ok''
       [(''version'', Some (JNum (int_text n))), (''server'', Some (JStr s)),
        (''capabilities'', Some (JArr (map JStr caps)))] = Inr b \<and>
     decode_server_frame b = Inr \<lparr>SV = v, ReplyTo = r, Event = HelloOK n s caps\<rparr>"
proof -
  let ?fs = "[(''version'', Some (JNum (int_text n))), (''server'', Some (JStr s)),
        (''capabilities'', Some (JArr (map JStr caps)))]"
  have ok: "fields_ok ?fs"
    using assms(4,5) by (simp add: fields_ok_def max_depth_def list_all_iff jdepth_strs)
  note m = frame_members_ok [OF assms(1) _ _ ok, of "''hello_ok''" r, simplified]
  have n: "parse_int 64 (int_text n) = Some n"
    using assms(3) by (intro parse_int_text) (simp_all add: go_int_range_def)
  have "decode_struct hello_ok_fields (marshal_map (frame_members v r ''hello_ok'' ?fs)) =
      Some [VInt n, VStr s, VList (map VStr caps)]"
    unfolding decode_struct_marshal [OF m(3)]
    by (simp add: frame_members_def field_index_hello decode_go_eqs n decode_elems_strs
        reserved_keys_def hello_ok_fields_def [THEN arg_cong, of "map _"] split: option.split)
      (simp add: hello_ok_fields_def decode_go_eqs n decode_elems_strs)
  then have "decode_event (marshal_map (frame_members v r ''hello_ok'' ?fs)) ''hello_ok'' p = Inr (HelloOK n s caps)" for p
    by (simp add: decode_event_def go_int_def go_str_def)
  with m decode_frame_members [OF assms(1,2) _ _ ok, of "''hello_ok''" r] show ?thesis by simp
qed


lemma error_frame:
  assumes "0 < v" "v < 2 ^ 63" "valid_utf8 c" "valid_utf8 m" "valid_utf8 p"
  shows "\<exists>b. encode_server_frame v r ''error''
       [(''code'', Some (JStr c)), (''message'', Some (JStr m)), (''provider_code'', Some (JStr p))] = Inr b \<and>
     decode_server_frame b = Inr \<lparr>SV = v, ReplyTo = r, Event = ErrorEv c m p\<rparr>"
proof -
  let ?fs = "[(''code'', Some (JStr c)), (''message'', Some (JStr m)), (''provider_code'', Some (JStr p))]"
  have ok: "fields_ok ?fs"
    using assms(3-5) by (simp add: fields_ok_def max_depth_def)
  note f = frame_members_ok [OF assms(1) _ _ ok, of "''error''" r, simplified]
  have "decode_struct error_fields (marshal_map (frame_members v r ''error'' ?fs)) =
      Some [VStr c, VStr m, VStr p]"
    unfolding decode_struct_marshal [OF f(3)]
    by (simp add: frame_members_def field_index_error decode_go_eqs reserved_keys_def split: option.split)
      (simp add: error_fields_def decode_go_eqs)
  then have "decode_event (marshal_map (frame_members v r ''error'' ?fs)) ''error'' q = Inr (ErrorEv c m p)" for q
    by (simp add: decode_event_def go_str_def)
  with f decode_frame_members [OF assms(1,2) _ _ ok, of "''error''" r] show ?thesis by simp
qed

theorem decode_error_class_witness:
  "\<exists>e. decode_server_frame (marshal_map
     [(''code'', JNum ''1''), (''ev'', JStr ''error''), (''v'', JNum ''1'')]) = Inl e \<and> (\<forall>s. \<not> err_is e s)"
proof -
  let ?m = "[(''code'', JNum ''1''), (''ev'', JStr ''error''), (''v'', JNum ''1'')]"
  have wf: "wf_json (JObj ?m)" "jmap_ok ?m"
    by (simp_all add: wf_JObj_iff max_depth_def jmap_ok_def parse_num_def scan_sign_def
        scan_int_def scan_frac_def scan_exp_def is_digit_def)
  then have um: "unmarshal_map (marshal_map ?m) = Inr (Some ?m)" by (intro unmarshal_marshal_map)
  have "parse_int 64 ''1'' = Some 1" by code_simp
  then obtain e where e: "decode_server_frame (marshal_map ?m) = Inl e" "\<not> err_is e ErrInvalidFrame"
    unfolding decode_server_frame_def um
    by (simp add: member_go_def decode_go_eqs decode_reply_to_def go_int_def go_str_def
        decode_event_def decode_struct_marshal [OF wf(1)] field_index_error Let_def
        del: marshal.simps)
      (simp add: error_fields_def decode_go_eqs)
  from decode_error_class [OF e(1)] e(2) um have "\<forall>s. \<not> err_is e s" by auto
  with e(1) show ?thesis by blast
qed

theorem decoded_frame_ok_witness:
  "\<exists>f. decode_server_frame (marshal_map (frame_members 1 None ''pong'' [])) = Inr f \<and> 0 < SV f"
proof -
  have "decode_event b ''pong'' p = Inr (RawEvent ''pong'' p)" for b p
    by (simp add: decode_event_def is_known_event_def known_events_def)
  then have "decode_server_frame (marshal_map (frame_members 1 None ''pong'' [])) =
      Inr \<lparr>SV = 1, ReplyTo = None, Event = RawEvent ''pong'' (marshal_map (frame_payload []))\<rparr>"
    by (intro decode_frame_members) (simp_all add: fields_ok_def ascii_valid ascii_def)
  with decoded_frame_ok [OF this] show ?thesis by simp
qed


text \<open>The two replies with typed fields, the handshake answer and the error reply, survive
  encoding and decoding with every field intact.\<close>

theorem typed_reply_roundtrip:
  assumes "0 < v" "v < 2 ^ 63" "go_int_range n" "list_all valid_utf8 (s # c # m # p # caps)"
  shows "(\<exists>b. encode_server_frame v r ''hello_ok''
       [(''version'', Some (JNum (int_text n))), (''server'', Some (JStr s)),
        (''capabilities'', Some (JArr (map JStr caps)))] = Inr b \<and>
     decode_server_frame b = Inr \<lparr>SV = v, ReplyTo = r, Event = HelloOK n s caps\<rparr>)
   \<and> (\<exists>b. encode_server_frame v r ''error''
       [(''code'', Some (JStr c)), (''message'', Some (JStr m)), (''provider_code'', Some (JStr p))] = Inr b \<and>
     decode_server_frame b = Inr \<lparr>SV = v, ReplyTo = r, Event = ErrorEv c m p\<rparr>)"
  using assms hello_frame error_frame by simp

theorem typed_reply_roundtrip_witness:
  "\<exists>b. encode_server_frame 1 (Some 9) ''error''
       [(''code'', Some (JStr ''busy'')), (''message'', Some (JStr [])), (''provider_code'', Some (JStr []))] = Inr b \<and>
     decode_server_frame b = Inr \<lparr>SV = 1, ReplyTo = Some 9, Event = ErrorEv ''busy'' [] []\<rparr>"
proof -
  have "list_all valid_utf8 ([] # ''busy'' # [] # [] # [])" by (simp add: ascii_valid ascii_def)
  then show ?thesis
    using typed_reply_roundtrip [of 1 1 "[]" "''busy''" "[]" "[]" "[]" "Some 9"]
    by (simp add: go_int_range_def)
qed

end
