(* ===== verification/Framing.thy ===== *)
theory Framing imports Protocol begin

text \<open>
  \<^verbatim>\<open>protocol/framing.go\<close>: newline-delimited frames with a size limit.

  The \<^verbatim>\<open>io.Writer\<close> under an encoder is a parameter: a function from the bytes of a write
  and its state to an error or nil and the new state.  The \<^verbatim>\<open>bufio.Reader\<close> under a decoder
  is the bytes the connection still delivers and the error it ends with.
\<close>

abbreviation newline :: char where "newline \<equiv> CHR 0x0A"
abbreviation creturn :: char where "creturn \<equiv> CHR 0x0D"

definition default_max_frame_size :: int where
  "default_max_frame_size = 1048576"

section \<open>Encoder\<close>

type_synonym 'w writer = "string \<Rightarrow> 'w \<Rightarrow> gerr option \<times> 'w"

text \<open>\<^verbatim>\<open>value\<close> is the result of \<^verbatim>\<open>json.Marshal\<close> on the argument.\<close>

definition encoder_write ::
    "int \<Rightarrow> 'w writer \<Rightarrow> gerr + string \<Rightarrow> 'w \<Rightarrow> gerr option \<times> 'w" where
  "encoder_write max_size w v st =
     (case v of
        Inl err \<Rightarrow> (Some err, st)
      | Inr data \<Rightarrow>
          if \<not> starts_object data
          then (Some (WrapE ''frame must be a JSON object'' (Sent ErrInvalidFrame)), st)
          else if 0 < max_size \<and> max_size < int (length data)
          then (Some (WrapE ''frame size exceeds the maximum'' (Sent ErrFrameTooLarge)), st)
          else w (data @ [newline]) st)"

section \<open>Decoder\<close>

record reader =
  pending :: string
  end_err :: gerr

definition read_bytes :: "reader \<Rightarrow> string \<times> gerr option \<times> reader" where
  "read_bytes r =
     (case dropWhile (\<lambda>c. c \<noteq> newline) (pending r) of
        [] \<Rightarrow> (pending r, Some (end_err r), r\<lparr>pending := []\<rparr>)
      | c # rest \<Rightarrow>
          (takeWhile (\<lambda>c. c \<noteq> newline) (pending r) @ [newline], None, r\<lparr>pending := rest\<rparr>))"

fun read_loop :: "nat \<Rightarrow> int \<Rightarrow> string \<Rightarrow> reader \<Rightarrow> ((gerr + string) \<times> reader) option" where
  "read_loop 0 max_size frame r = None"
| "read_loop (Suc n) max_size frame r =
     (case read_bytes r of (part, err, r') \<Rightarrow>
        let frame' = frame @ part in
        if 0 < max_size \<and> goint (max_size + 1) < int (length frame')
        then Some (Inl (WrapE ''frame exceeds the maximum'' (Sent ErrFrameTooLarge)), r')
        else if err = Some (Sent Err_EOF) \<and> frame' = [] then Some (Inl (Sent Err_EOF), r')
        else if err \<noteq> None \<and> err \<noteq> Some (Sent Err_EOF) then Some (Inl (the err), r')
        else if frame' = [] \<or> last frame' = newline \<or> err = Some (Sent Err_EOF)
        then Some (Inr frame', r')
        else read_loop n max_size frame' r')"

definition trim_suffix :: "char \<Rightarrow> string \<Rightarrow> string" where
  "trim_suffix c s = (if s \<noteq> [] \<and> last s = c then butlast s else s)"

definition accept_frame :: "int \<Rightarrow> string \<Rightarrow> gerr + string" where
  "accept_frame max_size raw =
     (let frame = trim_suffix creturn (trim_suffix newline raw) in
      if frame = [] then Inl (WrapE ''empty frame'' (Sent ErrMalformedFrame))
      else if 0 < max_size \<and> max_size < int (length frame)
      then Inl (WrapE ''frame exceeds the maximum'' (Sent ErrFrameTooLarge))
      else case unmarshal_map frame of
        Inr (Some _) \<Rightarrow> Inr frame
      | _ \<Rightarrow> Inl (WrapE ''invalid JSON frame'' (Sent ErrMalformedFrame)))"

text \<open>One iteration of the loop is enough: see \<open>read_loop_once\<close>.\<close>

definition read_frame :: "int \<Rightarrow> reader \<Rightarrow> (gerr + string) \<times> reader" where
  "read_frame max_size r =
     (case read_loop 1 max_size [] r of
        Some (Inl err, r') \<Rightarrow> (Inl err, r')
      | Some (Inr raw, r') \<Rightarrow> (accept_frame max_size raw, r')
      | None \<Rightarrow> (Inl (Plain ''out of fuel''), r))"

fun read_frames :: "nat \<Rightarrow> int \<Rightarrow> reader \<Rightarrow> (gerr + string) list \<times> reader" where
  "read_frames 0 max_size r = ([], r)"
| "read_frames (Suc n) max_size r =
     (case read_frame max_size r of (x, r') \<Rightarrow>
        case read_frames n max_size r' of (xs, r'') \<Rightarrow> (x # xs, r''))"

section \<open>The reading loop\<close>

lemma read_bytes_line:
  assumes "newline \<notin> set xs"
  shows "read_bytes (r\<lparr>pending := xs @ newline # rest\<rparr>) = (xs @ [newline], None, r\<lparr>pending := rest\<rparr>)"
proof -
  have "list_all (\<lambda>c. c \<noteq> newline) xs" using assms by (auto simp: list_all_iff)
  then show ?thesis by (simp add: read_bytes_def dropWhile_append_stop takeWhile_append_stop)
qed

lemma read_bytes_more: "read_bytes r = (part, None, r') \<Longrightarrow> part \<noteq> [] \<and> last part = newline"
  by (auto simp: read_bytes_def split: list.splits)

lemma read_loop_once: "read_loop (Suc n) mx fr r = read_loop 1 mx fr r \<and> read_loop 1 mx fr r \<noteq> None"
proof (cases "read_bytes r")
  case (fields part err r')
  then show ?thesis
    using read_bytes_more [of r part r'] by (cases err) (simp_all add: Let_def)
qed

lemma trim_line: "newline \<notin> set xs \<Longrightarrow> (xs = [] \<or> last xs \<noteq> creturn) \<Longrightarrow>
    trim_suffix creturn (trim_suffix newline (xs @ [newline])) = xs"
  by (auto simp: trim_suffix_def)

text \<open>A frame that one line of the stream can carry under the limit.\<close>

definition line_ok :: "int \<Rightarrow> string \<Rightarrow> bool" where
  "line_ok mx f = (newline \<notin> set f \<and> f \<noteq> [] \<and> last f \<noteq> creturn
     \<and> (0 < mx \<longrightarrow> int (length f) \<le> mx \<and> mx < 2 ^ 63 - 1)
     \<and> (\<exists>m. unmarshal_map f = Inr (Some m)))"

lemma read_frame_line:
  assumes "line_ok mx f"
  shows "read_frame mx (r\<lparr>pending := f @ newline # rest\<rparr>) = (Inr f, r\<lparr>pending := rest\<rparr>)"
proof -
  have "accept_frame mx (f @ [newline]) = Inr f"
    using assms by (auto simp: accept_frame_def line_ok_def trim_line)
  moreover have "0 < mx \<Longrightarrow> goint (mx + 1) = mx + 1"
    using assms by (simp add: goint_id line_ok_def)
  ultimately show ?thesis
    using assms by (cases "0 < mx") (simp_all add: read_frame_def read_bytes_line line_ok_def Let_def)
qed

section \<open>Encoded values are printable\<close>

definition printable :: "string \<Rightarrow> bool" where
  "printable s = list_all (\<lambda>c. 32 \<le> byte c) s"

lemma printable_simps [simp]:
  "printable []" "printable (c # s) = (32 \<le> byte c \<and> printable s)"
  "printable (s @ t) = (printable s \<and> printable t)"
  by (auto simp: printable_def)

lemma printable_hex_digit [simp]: "n < 16 \<Longrightarrow> 32 \<le> byte (hex_digit n)"
  by (simp add: hex_digit_def)

lemma printable_escape [simp]: "printable (hex_escape n)"
  unfolding hex_escape_def printable_simps by (intro conjI printable_hex_digit) simp_all

lemma printable_quote_ascii: "printable (quote_ascii c)"
  by (auto simp: quote_ascii_def)

lemma printable_rune:
  assumes "128 \<le> byte a" shows "printable (take (rune_len (a # s)) (a # s))"
proof -
  have "32 \<le> byte ((a # s) ! i)" if "i < rune_len (a # s)" for i
    using rune_len_conts [of i "a # s"] that assms
    by (cases "i = 0") (auto simp: is_cont_def)
  then show ?thesis by (simp add: printable_def list_all_length)
qed

lemma printable_quote_body: "printable (quote_body s)"
proof (induction s rule: quote_body.induct)
  case (2 a s)
  then show ?case
    using printable_rune [of a s]
    by (auto simp: Let_def printable_quote_ascii)
qed simp

lemma printable_commas: "(\<And>x. x \<in> set xs \<Longrightarrow> printable x) \<Longrightarrow> printable (commas xs)"
  by (induction xs rule: commas.induct) auto

lemma digits_printable: "printable (takeWhile is_digit s)"
  by (induction s) (auto simp: is_digit_def)

lemma scan_int_printable: "scan_int s = Some (a, r) \<Longrightarrow> printable a"
  using digits_printable [of "tl s"]
  by (auto simp: scan_int_def is_digit_def split: list.splits if_splits)

lemma scan_digits1_printable: "scan_digits1 s = Some (a, r) \<Longrightarrow> printable a"
  using digits_printable [of s] by (cases "takeWhile is_digit s") (simp_all add: scan_digits1_def)

lemma scan_frac_printable: "scan_frac s = Some (a, r) \<Longrightarrow> printable a"
  by (auto simp: scan_frac_def dest: scan_digits1_printable split: list.splits if_splits option.splits)

lemma scan_exp_printable: "scan_exp s = Some (a, r) \<Longrightarrow> printable a"
  by (auto simp: scan_exp_def scan_exp_sign_def dest: scan_digits1_printable
      split: list.splits if_splits option.splits)

lemma scan_sign_printable: "printable (fst (scan_sign s))"
  by (auto simp: scan_sign_def split: list.splits)

lemma printable_num: "parse_num s = Some (l, r) \<Longrightarrow> printable l"
  using scan_sign_printable [of s]
  by (auto simp: parse_num_def split: option.splits prod.splits
      dest!: scan_int_printable scan_frac_printable scan_exp_printable)

lemma printable_marshal: "wf_shape v \<Longrightarrow> printable (marshal v)"
proof (induction v rule: marshal.induct)
  case (3 l)
  then show ?case by (auto intro: printable_num)
next
  case (6 ms)
  have "printable (quote k @ '':'' @ marshal v)" if "(k, v) \<in> set ms" for k v
    using 6 that by (fastforce simp: quote_def printable_quote_body list_all_iff)
  then show ?case by (auto intro!: printable_commas)
qed (auto simp: quote_def printable_quote_body list_all_iff intro!: printable_commas)

lemma printable_no_control: "printable s \<Longrightarrow> newline \<notin> set s \<and> creturn \<notin> set s"
  by (auto simp: printable_def list_all_iff)

lemma line_ok_marshal_map:
  assumes "jmap_ok m" "wf_json (JObj m)"
    and "0 < mx \<Longrightarrow> int (length (marshal_map m)) \<le> mx \<and> mx < 2 ^ 63 - 1"
  shows "line_ok mx (marshal_map m)"
proof -
  have "printable (marshal_map m)"
    using assms(2) unfolding marshal_map_def wf_json_def by (blast intro: printable_marshal)
  then have c: "newline \<notin> set (marshal_map m)" "creturn \<notin> set (marshal_map m)"
    by (simp_all add: printable_no_control)
  have n: "marshal_map m \<noteq> []" by (simp add: marshal_map_def)
  then have "last (marshal_map m) \<noteq> creturn" using c(2) last_in_set [OF n] by metis
  with c n assms unmarshal_marshal_map [OF assms(1,2)] show ?thesis by (simp add: line_ok_def)
qed


section \<open>Properties\<close>

lemma read_frames_lines:
  "list_all (line_ok mx) fs \<Longrightarrow>
   read_frames (length fs) mx (r\<lparr>pending := concat (map (\<lambda>f. f @ [newline]) fs) @ rest\<rparr>)
     = (map Inr fs, r\<lparr>pending := rest\<rparr>)"
  by (induction fs) (simp_all add: read_frame_line)

lemma read_frame_eof: "mx < 2 ^ 63 - 1 \<Longrightarrow> read_frame mx \<lparr>pending = [], end_err = Sent Err_EOF\<rparr> =
    (Inl (Sent Err_EOF), \<lparr>pending = [], end_err = Sent Err_EOF\<rparr>)"
  by (cases "0 < mx") (simp_all add: read_frame_def read_bytes_def Let_def goint_id)

lemma read_frames_append:
  "read_frames (n + k) mx r = (case read_frames n mx r of (xs, r') \<Rightarrow>
     case read_frames k mx r' of (ys, r'') \<Rightarrow> (xs @ ys, r''))"
  by (induction n arbitrary: r) (auto split: prod.splits)

text \<open>The connection as a writer that keeps every byte, and several writes one after the other.\<close>

definition append_writer :: "string writer" where
  "append_writer bs st = (None, st @ bs)"

definition send_all :: "int \<Rightarrow> (gerr + string) list \<Rightarrow> string \<Rightarrow> string" where
  "send_all mx vs st = fold (\<lambda>v st. snd (encoder_write mx append_writer v st)) vs st"

definition sendable :: "int \<Rightarrow> members \<Rightarrow> bool" where
  "sendable mx m = (jmap_ok m \<and> wf_json (JObj m) \<and> (0 < mx \<longrightarrow> int (length (marshal_map m)) \<le> mx))"

lemma encoder_write_ok:
  "sendable mx m \<Longrightarrow> encoder_write mx append_writer (Inr (marshal_map m)) st
     = (None, st @ marshal_map m @ [newline])"
  by (cases "0 < mx")
    (simp_all add: encoder_write_def append_writer_def sendable_def marshal_map_def starts_object_def)

lemma send_all_frames:
  "list_all (sendable mx) ms \<Longrightarrow>
   send_all mx (map (\<lambda>m. Inr (marshal_map m)) ms) st = st @ concat (map (\<lambda>f. f @ [newline]) (map marshal_map ms))"
  by (induction ms arbitrary: st) (simp_all add: send_all_def encoder_write_ok)

text \<open>C9: objects written one after the other by the encoder under a size limit are read back by
  the decoder one frame at a time, in order and byte for byte, and then the end of the stream is reported.\<close>

theorem frames_roundtrip:
  assumes "list_all (sendable mx) ms" "mx < 2 ^ 63 - 1"
  shows "read_frames (Suc (length ms)) mx
      \<lparr>pending = send_all mx (map (\<lambda>m. Inr (marshal_map m)) ms) [], end_err = Sent Err_EOF\<rparr> =
    (map (\<lambda>m. Inr (marshal_map m)) ms @ [Inl (Sent Err_EOF)], \<lparr>pending = [], end_err = Sent Err_EOF\<rparr>)"
proof -
  have ok: "list_all (line_ok mx) (map marshal_map ms)"
    using assms by (auto simp: list_all_iff sendable_def intro!: line_ok_marshal_map)
  have "read_frames (length (map marshal_map ms) + 1) mx
      (\<lparr>pending = [], end_err = Sent Err_EOF\<rparr>\<lparr>pending := concat (map (\<lambda>f. f @ [newline]) (map marshal_map ms)) @ []\<rparr>)
    = (map Inr (map marshal_map ms) @ [Inl (Sent Err_EOF)], \<lparr>pending = [], end_err = Sent Err_EOF\<rparr>)"
    unfolding read_frames_append read_frames_lines [OF ok]
    using read_frame_eof [OF assms(2)] by simp
  then show ?thesis using send_all_frames [OF assms(1), of "[]"] by simp
qed

theorem frames_roundtrip_witness:
  "read_frames 3 100 \<lparr>pending = send_all 100 [Inr (marshal_map [(''a'', JNull)]), Inr (marshal_map [])] [],
      end_err = Sent Err_EOF\<rparr> =
    ([Inr (marshal_map [(''a'', JNull)]), Inr (marshal_map []), Inl (Sent Err_EOF)],
     \<lparr>pending = [], end_err = Sent Err_EOF\<rparr>)"
proof -
  have "list_all (sendable 100) [[(''a'', JNull)], []]"
    by (simp add: sendable_def jmap_ok_def wf_json_def max_depth_def ascii_valid ascii_def
        marshal_map_def quote_def quote_ascii_def)
  from frames_roundtrip [OF this] show ?thesis by (simp add: numeral_3_eq_3)
qed

lemma read_bytes_split:
  assumes "read_bytes r = (part, err, r')"
  shows "pending r = part @ pending r' \<and>
     (err = None \<and> part \<noteq> [] \<or> err = Some (end_err r) \<and> pending r' = [] \<and> newline \<notin> set part)"
proof (cases "dropWhile (\<lambda>c. c \<noteq> newline) (pending r)")
  case Nil
  then have "newline \<notin> set (pending r)" unfolding dropWhile_eq_Nil_conv by blast
  moreover have "part = pending r \<and> err = Some (end_err r) \<and> pending r' = []"
    using assms unfolding read_bytes_def Nil by auto
  ultimately show ?thesis by simp
next
  case (Cons c rest)
  then have c: "c = newline"
    using hd_dropWhile [of "\<lambda>c. c \<noteq> newline" "pending r"] by simp
  have eq: "takeWhile (\<lambda>c. c \<noteq> newline) (pending r) @ c # rest = pending r"
    unfolding Cons [symmetric] by (rule takeWhile_dropWhile_id)
  have p: "part = takeWhile (\<lambda>c. c \<noteq> newline) (pending r) @ [newline]" "err = None" "pending r' = rest"
    using assms Cons by (auto simp: read_bytes_def)
  have "part @ pending r' = pending r"
    unfolding p append_assoc append_Cons append_Nil using eq unfolding c .
  with p show ?thesis by (metis append_is_Nil_conv list.distinct(1))
qed

lemma read_frame_cases:
  obtains (got) part err r' where "read_bytes r = (part, err, r')" "snd (read_frame mx r) = r'"
    and "\<And>f. fst (read_frame mx r) = Inr f \<Longrightarrow> accept_frame mx part = Inr f \<and> part \<noteq> []"
proof -
  obtain part err r' where b: "read_bytes r = (part, err, r')" by (metis prod_cases3)
  have "snd (read_frame mx r) = r'" 
    using read_bytes_more [of r part r'] b
    by (cases err) (auto simp: read_frame_def Let_def)
  moreover have "accept_frame mx part = Inr f \<and> part \<noteq> []" if "fst (read_frame mx r) = Inr f" for f
    using that read_bytes_more [of r part r'] b
    by (cases err) (auto simp: read_frame_def Let_def accept_frame_def trim_suffix_def split: if_splits)
  ultimately show thesis using got b by blast
qed

lemma trim_suffix_cases: "trim_suffix c s = s \<or> s = trim_suffix c s @ [c]"
  by (auto simp: trim_suffix_def)

text \<open>C36: a frame the decoder returns is a non-empty JSON object within the limit, and it is
  exactly the bytes consumed from the stream without one trailing line end.\<close>

theorem read_frame_accepts:
  assumes "read_frame mx r = (Inr f, r')"
  shows "f \<noteq> [] \<and> (0 < mx \<longrightarrow> int (length f) \<le> mx) \<and> (\<exists>m. unmarshal_map f = Inr (Some m)) \<and>
    (\<exists>e \<in> {[], [creturn], [newline], [creturn, newline]}. pending r = f @ e @ pending r')"
proof -
  obtain part err r1 where b: "read_bytes r = (part, err, r1)" "snd (read_frame mx r) = r1"
    and a: "accept_frame mx part = Inr f"
    by (rule read_frame_cases [of r mx]) (use assms in auto)
  have r1: "r1 = r'" using b assms by simp
  define p where "p = trim_suffix newline part"
  have f: "f = trim_suffix creturn p" "f \<noteq> []" "0 < mx \<longrightarrow> int (length f) \<le> mx"
      "\<exists>m. unmarshal_map f = Inr (Some m)"
    using a unfolding p_def by (auto simp: accept_frame_def Let_def split: if_splits sum.splits option.splits)
  have "\<exists>e \<in> {[], [creturn], [newline], [creturn, newline]}. part = f @ e"
    using trim_suffix_cases [of newline part] trim_suffix_cases [of creturn p]
    unfolding f(1) p_def by (metis append.assoc append_Cons append_Nil append_Nil2 insertCI)
  with f read_bytes_split [OF b(1)] r1 show ?thesis by force
qed


theorem read_frame_accepts_witness:
  "\<exists>f r'. read_frame 10 \<lparr>pending = ''{}'' @ [newline], end_err = Sent Err_EOF\<rparr> = (Inr f, r') \<and> int (length f) \<le> 10"
proof -
  have "unmarshal_map ''{}'' = Inr (Some [])" by code_simp
  then have "line_ok 10 ''{}''" by (auto simp: line_ok_def)
  from read_frame_line [OF this, of "[]" "\<lparr>pending = [], end_err = Sent Err_EOF\<rparr>"]
  have r: "read_frame 10 \<lparr>pending = ''{}'' @ [newline], end_err = Sent Err_EOF\<rparr> =
      (Inr ''{}'', \<lparr>pending = [], end_err = Sent Err_EOF\<rparr>)" by simp
  from read_frame_accepts [OF r] r show ?thesis by auto
qed

text \<open>C37: every read consumes at least one byte of a non-empty stream and fails on an empty
  one, so a loop that reads until an error ends.\<close>

theorem read_frame_progress:
  assumes "read_frame mx r = (x, r')"
  shows "(pending r \<noteq> [] \<longrightarrow> length (pending r') < length (pending r)) \<and>
    (pending r = [] \<longrightarrow> (\<exists>e. x = Inl e))"
proof -
  obtain part err where b: "read_bytes r = (part, err, r')"
    and a: "\<And>f. x = Inr f \<Longrightarrow> part \<noteq> []"
    by (rule read_frame_cases [of r mx]) (use assms in auto)
  from read_bytes_split [OF b] have "pending r = part @ pending r'" "part \<noteq> [] \<or> pending r' = []"
    by auto
  with a show ?thesis by (cases x) auto
qed

theorem read_frame_progress_witness:
  "\<exists>e r'. read_frame 10 \<lparr>pending = [], end_err = Sent Sys_ESRCH\<rparr> = (Inl e, r')"
proof -
  obtain x r' where r: "read_frame 10 \<lparr>pending = [], end_err = Sent Sys_ESRCH\<rparr> = (x, r')"
    by (metis prod.exhaust)
  from read_frame_progress [OF this] r show ?thesis by auto
qed

text \<open>A frame that ends in carriage return and newline is read like one that ends in newline,
  except that one of exactly the maximal size is rejected as too large.\<close>

theorem crlf_frame:
  assumes "line_ok mx f"
  shows "if 0 < mx \<and> int (length f) = mx
     then \<exists>e. read_frame mx (r\<lparr>pending := f @ creturn # newline # rest\<rparr>) = (Inl e, r\<lparr>pending := rest\<rparr>)
            \<and> err_is e ErrFrameTooLarge
     else read_frame mx (r\<lparr>pending := f @ creturn # newline # rest\<rparr>) = (Inr f, r\<lparr>pending := rest\<rparr>)"
proof -
  have "read_bytes (r\<lparr>pending := (f @ [creturn]) @ newline # rest\<rparr>) =
      ((f @ [creturn]) @ [newline], None, r\<lparr>pending := rest\<rparr>)"
    by (rule read_bytes_line) (use assms in \<open>simp add: line_ok_def\<close>)
  then have b: "read_bytes (r\<lparr>pending := f @ creturn # newline # rest\<rparr>) =
      (f @ [creturn, newline], None, r\<lparr>pending := rest\<rparr>)" by simp
  have t: "trim_suffix creturn (trim_suffix newline (f @ [creturn, newline])) = f"
    by (simp add: trim_suffix_def butlast_append)
  have a: "accept_frame mx (f @ [creturn, newline]) = Inr f"
    using assms unfolding accept_frame_def t by (cases "0 < mx") (auto simp: line_ok_def Let_def)
  have g: "0 < mx \<Longrightarrow> goint (mx + 1) = mx + 1" using assms by (simp add: goint_id line_ok_def)
  show ?thesis
    using assms by (cases "0 < mx") (auto simp: read_frame_def b Let_def a g line_ok_def)
qed

theorem crlf_frame_witness:
  "read_frame 2 \<lparr>pending = ''{}'' @ [newline], end_err = Sent Err_EOF\<rparr> =
     (Inr ''{}'', \<lparr>pending = [], end_err = Sent Err_EOF\<rparr>) \<and>
   (\<exists>e. read_frame 2 \<lparr>pending = ''{}'' @ [creturn, newline], end_err = Sent Err_EOF\<rparr> =
     (Inl e, \<lparr>pending = [], end_err = Sent Err_EOF\<rparr>) \<and> err_is e ErrFrameTooLarge)"
proof -
  have "unmarshal_map ''{}'' = Inr (Some [])" by code_simp
  then have l: "line_ok 2 ''{}''" by (auto simp: line_ok_def)
  let ?r = "\<lparr>pending = [], end_err = Sent Err_EOF\<rparr>"
  from read_frame_line [OF l, of "[]" ?r] crlf_frame [OF l, of "[]" ?r] show ?thesis by simp
qed

end
