(* ===== verification/Events.thy ===== *)
theory Events imports Framing "HOL-Library.Multiset" begin

text \<open>
  The typed events of \<^verbatim>\<open>session.go\<close>: the wire fields of every event struct, the decoder from
  raw events, the semantic class of an event and the bounded compatibility error.

  A typed event is its struct type and the values of the struct's fields in declared order; a
  value of the type and a pointer to one are the same event here, as every consumer of the
  code treats them alike.
\<close>

section \<open>Event structs\<close>

definition session_info_fields :: "(string \<times> gotype) list" where
  "session_info_fields =
     [(''session_id'', TStr), (''working_dir'', TStr), (''title'', TStr), (''status'', TStr),
      (''transcript_bytes'', TUint 64), (''archived'', TBool), (''archived_at_ms'', TUint 64)]"

definition text_delta_fields :: "(string \<times> gotype) list" where
  "text_delta_fields = [(''session_id'', TStr), (''text'', TStr)]"
definition reasoning_delta_fields :: "(string \<times> gotype) list" where
  "reasoning_delta_fields = [(''session_id'', TStr), (''text'', TStr)]"
definition reasoning_done_fields :: "(string \<times> gotype) list" where
  "reasoning_done_fields = [(''session_id'', TStr), (''duration_secs'', TFloat)]"
definition tool_start_fields :: "(string \<times> gotype) list" where
  "tool_start_fields = [(''session_id'', TStr), (''call_id'', TStr), (''name'', TStr)]"
definition tool_input_delta_fields :: "(string \<times> gotype) list" where
  "tool_input_delta_fields = [(''session_id'', TStr), (''call_id'', TStr), (''delta'', TStr)]"
definition tool_exec_fields :: "(string \<times> gotype) list" where
  "tool_exec_fields = [(''session_id'', TStr), (''call_id'', TStr), (''name'', TStr)]"
definition tool_done_fields :: "(string \<times> gotype) list" where
  "tool_done_fields =
     [(''session_id'', TStr), (''call_id'', TStr), (''name'', TStr), (''output'', TStr),
      (''error'', TStr)]"

definition image_source_fields :: "(string \<times> gotype) list" where
  "image_source_fields = [(''kind'', TStr), (''tool_name'', TStr), (''role'', TStr)]"
definition image_anchor_fields :: "(string \<times> gotype) list" where
  "image_anchor_fields = [(''kind'', TStr), (''id'', TStr), (''ordinal'', TUint 64)]"
definition rendered_image_fields :: "(string \<times> gotype) list" where
  "rendered_image_fields =
     [(''media_type'', TStr), (''data'', TStr), (''label'', TPtr TStr),
      (''source'', TStruct image_source_fields), (''anchor'', TPtr (TStruct image_anchor_fields))]"
definition side_pane_images_fields :: "(string \<times> gotype) list" where
  "side_pane_images_fields =
     [(''session_id'', TStr), (''images'', TSlice (TStruct rendered_image_fields))]"

definition token_usage_fields :: "(string \<times> gotype) list" where
  "token_usage_fields =
     [(''session_id'', TStr), (''input'', TInt 64), (''output'', TInt 64),
      (''cache_read_input'', TInt 64)]"
definition turn_done_fields :: "(string \<times> gotype) list" where
  "turn_done_fields = [(''session_id'', TStr)]"
definition permission_request_fields :: "(string \<times> gotype) list" where
  "permission_request_fields =
     [(''session_id'', TStr), (''request_id'', TStr), (''tool_name'', TStr), (''description'', TStr)]"
definition background_progress_fields :: "(string \<times> gotype) list" where
  "background_progress_fields =
     [(''session_id'', TStr), (''task_id'', TStr), (''label'', TStr), (''percent'', TFloat),
      (''summary'', TStr), (''done'', TBool)]"
definition message_accepted_fields :: "(string \<times> gotype) list" where
  "message_accepted_fields = [(''session_id'', TStr)]"
definition session_status_fields :: "(string \<times> gotype) list" where
  "session_status_fields = [(''session_id'', TStr), (''status'', TStr)]"
definition connection_phase_fields :: "(string \<times> gotype) list" where
  "connection_phase_fields = [(''session_id'', TStr), (''phase'', TStr)]"
definition session_forked_fields :: "(string \<times> gotype) list" where
  "session_forked_fields = [(''session'', TStruct session_info_fields)]"
definition wake_requested_fields :: "(string \<times> gotype) list" where
  "wake_requested_fields = [(''session_id'', TStr), (''reason'', TStr), (''notification'', TStr)]"
definition model_info_fields :: "(string \<times> gotype) list" where
  "model_info_fields =
     [(''session_id'', TStr), (''provider'', TStr), (''model'', TStr), (''reasoning_effort'', TStr)]"
definition model_route_info_fields :: "(string \<times> gotype) list" where
  "model_route_info_fields =
     [(''model'', TStr), (''provider'', TStr), (''api_method'', TStr), (''available'', TBool),
      (''detail'', TStr)]"
definition models_fields :: "(string \<times> gotype) list" where
  "models_fields = [(''session_id'', TStr), (''models'', TSlice TStr), (''current'', TStr)]"
definition runtime_info_fields :: "(string \<times> gotype) list" where
  "runtime_info_fields =
     [(''session_id'', TStr), (''provider'', TStr), (''model'', TStr), (''reasoning_effort'', TStr),
      (''routes'', TSlice (TStruct model_route_info_fields))]"
definition credential_updated_fields :: "(string \<times> gotype) list" where
  "credential_updated_fields = [(''provider'', TStr), (''configured'', TBool)]"
definition file_content_fields :: "(string \<times> gotype) list" where
  "file_content_fields =
     [(''session_id'', TStr), (''path'', TStr), (''content'', TStr), (''size'', TUint 64),
      (''truncated'', TBool)]"
definition files_fields :: "(string \<times> gotype) list" where
  "files_fields = [(''session_id'', TStr), (''paths'', TSlice TStr)]"
definition text_match_fields :: "(string \<times> gotype) list" where
  "text_match_fields =
     [(''path'', TStr), (''line'', TUint 32), (''column'', TUint 32), (''preview'', TStr)]"
definition text_matches_fields :: "(string \<times> gotype) list" where
  "text_matches_fields =
     [(''session_id'', TStr), (''matches'', TSlice (TStruct text_match_fields))]"
definition file_status_fields :: "(string \<times> gotype) list" where
  "file_status_fields =
     [(''session_id'', TStr), (''path'', TStr), (''exists'', TBool), (''kind'', TStr),
      (''size'', TPtr (TUint 64)), (''modified_ms'', TPtr (TUint 64))]"
definition compacted_fields :: "(string \<times> gotype) list" where
  "compacted_fields = [(''session_id'', TStr), (''message'', TStr)]"
definition session_renamed_fields :: "(string \<times> gotype) list" where
  "session_renamed_fields =
     [(''session_id'', TStr), (''title'', TPtr TStr), (''display_title'', TStr)]"

datatype event_type =
    TextDelta | ReasoningDelta | ReasoningDone | ToolStart | ToolInputDelta | ToolExec | ToolDone
  | SidePaneImages | TokenUsage | TurnDone | BackgroundProgress | MessageAccepted
  | PermissionRequest | SessionStatus | ConnectionPhase | SessionForked | WakeRequested
  | ModelInfo | Models | RuntimeInfo | CredentialUpdated | FileContent | Files | TextMatches
  | FileStatus | Compacted | SessionRenamed

text \<open>The kind, the Go type and the fields of each event struct, in the order of the decoder's switch.\<close>

definition event_table :: "(string \<times> event_type) list" where
  "event_table =
     [(''text_delta'', TextDelta), (''reasoning_delta'', ReasoningDelta),
      (''reasoning_done'', ReasoningDone), (''tool_start'', ToolStart),
      (''tool_input_delta'', ToolInputDelta), (''tool_exec'', ToolExec), (''tool_done'', ToolDone),
      (''side_pane_images'', SidePaneImages), (''token_usage'', TokenUsage),
      (''turn_done'', TurnDone), (''background_progress'', BackgroundProgress),
      (''message_accepted'', MessageAccepted), (''permission_request'', PermissionRequest),
      (''session_status'', SessionStatus), (''connection_phase'', ConnectionPhase),
      (''session_forked'', SessionForked), (''wake_requested'', WakeRequested),
      (''model_info'', ModelInfo), (''models'', Models), (''runtime_info'', RuntimeInfo),
      (''credential_updated'', CredentialUpdated), (''file_content'', FileContent),
      (''files'', Files), (''text_matches'', TextMatches), (''file_status'', FileStatus),
      (''compacted'', Compacted), (''session_renamed'', SessionRenamed)]"

fun event_fields :: "event_type \<Rightarrow> (string \<times> gotype) list" where
  "event_fields TextDelta = text_delta_fields"
| "event_fields ReasoningDelta = reasoning_delta_fields"
| "event_fields ReasoningDone = reasoning_done_fields"
| "event_fields ToolStart = tool_start_fields"
| "event_fields ToolInputDelta = tool_input_delta_fields"
| "event_fields ToolExec = tool_exec_fields"
| "event_fields ToolDone = tool_done_fields"
| "event_fields SidePaneImages = side_pane_images_fields"
| "event_fields TokenUsage = token_usage_fields"
| "event_fields TurnDone = turn_done_fields"
| "event_fields BackgroundProgress = background_progress_fields"
| "event_fields MessageAccepted = message_accepted_fields"
| "event_fields PermissionRequest = permission_request_fields"
| "event_fields SessionStatus = session_status_fields"
| "event_fields ConnectionPhase = connection_phase_fields"
| "event_fields SessionForked = session_forked_fields"
| "event_fields WakeRequested = wake_requested_fields"
| "event_fields ModelInfo = model_info_fields"
| "event_fields Models = models_fields"
| "event_fields RuntimeInfo = runtime_info_fields"
| "event_fields CredentialUpdated = credential_updated_fields"
| "event_fields FileContent = file_content_fields"
| "event_fields Files = files_fields"
| "event_fields TextMatches = text_matches_fields"
| "event_fields FileStatus = file_status_fields"
| "event_fields Compacted = compacted_fields"
| "event_fields SessionRenamed = session_renamed_fields"

datatype typed_event =
    Typed event_type "goval list"
  | TypedUnknown string string

fun go_type_name :: "event_type \<Rightarrow> string" where
  "go_type_name TextDelta = ''TextDelta''"
| "go_type_name ReasoningDelta = ''ReasoningDelta''"
| "go_type_name ReasoningDone = ''ReasoningDone''"
| "go_type_name ToolStart = ''ToolStart''"
| "go_type_name ToolInputDelta = ''ToolInputDelta''"
| "go_type_name ToolExec = ''ToolExec''"
| "go_type_name ToolDone = ''ToolDone''"
| "go_type_name SidePaneImages = ''SidePaneImages''"
| "go_type_name TokenUsage = ''TokenUsage''"
| "go_type_name TurnDone = ''TurnDone''"
| "go_type_name BackgroundProgress = ''BackgroundProgress''"
| "go_type_name MessageAccepted = ''MessageAccepted''"
| "go_type_name PermissionRequest = ''PermissionRequest''"
| "go_type_name SessionStatus = ''SessionStatus''"
| "go_type_name ConnectionPhase = ''ConnectionPhase''"
| "go_type_name SessionForked = ''SessionForked''"
| "go_type_name WakeRequested = ''WakeRequested''"
| "go_type_name ModelInfo = ''ModelInfo''"
| "go_type_name Models = ''Models''"
| "go_type_name RuntimeInfo = ''RuntimeInfo''"
| "go_type_name CredentialUpdated = ''CredentialUpdated''"
| "go_type_name FileContent = ''FileContent''"
| "go_type_name Files = ''Files''"
| "go_type_name TextMatches = ''TextMatches''"
| "go_type_name FileStatus = ''FileStatus''"
| "go_type_name Compacted = ''Compacted''"
| "go_type_name SessionRenamed = ''SessionRenamed''"

section \<open>Compatibility errors\<close>

definition max_compat_identifier_bytes :: nat where "max_compat_identifier_bytes = 96"
definition max_compat_diagnostic_bytes :: nat where "max_compat_diagnostic_bytes = 256"

fun back_up :: "string \<Rightarrow> nat \<Rightarrow> nat" where
  "back_up s 0 = 0"
| "back_up s (Suc e) = (if is_cont (s ! Suc e) then back_up s e else Suc e)"

definition truncate_utf8 :: "string \<Rightarrow> nat \<Rightarrow> string" where
  "truncate_utf8 value max_bytes =
     (if length value \<le> max_bytes then value else take (back_up value max_bytes) value)"

definition ident_rune :: "nat \<Rightarrow> bool" where
  "ident_rune r = (97 \<le> r \<and> r \<le> 122 \<or> 65 \<le> r \<and> r \<le> 90 \<or> 48 \<le> r \<and> r \<le> 57
     \<or> r = 95 \<or> r = 45 \<or> r = 46)"

definition sanitize_identifier :: "string \<Rightarrow> string \<Rightarrow> string" where
  "sanitize_identifier raw fallback =
     (let built = map (\<lambda>r. if ident_rune r then char_of r else CHR ''_'') (runes raw);
          value = (if list_all (\<lambda>c. c = CHR ''_'') built then fallback else built)
      in truncate_utf8 value max_compat_identifier_bytes)"

definition new_compat_error :: "string \<Rightarrow> string \<Rightarrow> gerr" where
  "new_compat_error kind ty =
     CompatErr (sanitize_identifier kind ''unknown_kind'') (sanitize_identifier ty ''unknown_type'')"

definition bounded_compat_message :: "string \<Rightarrow> string \<Rightarrow> string" where
  "bounded_compat_message kind ty =
     truncate_utf8 (''unsupported_typed_event: kind='' @ sanitize_identifier kind ''unknown_kind''
       @ '' type='' @ sanitize_identifier ty ''unknown_type'') max_compat_diagnostic_bytes"

section \<open>Decoding\<close>

record event =
  Frame :: server_frame
  Kind :: string
  EFields :: string

definition typed_event_type :: "typed_event option \<Rightarrow> string" where
  "typed_event_type v =
     (case v of None \<Rightarrow> ''unknown_type''
      | Some (Typed t _) \<Rightarrow> ''*jcode.'' @ go_type_name t
      | Some (TypedUnknown _ _) \<Rightarrow> ''jcode.UnknownEvent'')"

definition zero_event :: "event_type \<Rightarrow> typed_event" where
  "zero_event t = Typed t (map (\<lambda>(_, ty). zero_go ty) (event_fields t))"

definition decode_typed_event :: "event \<Rightarrow> gerr + typed_event" where
  "decode_typed_event e =
     (case map_of event_table (Kind e) of
        None \<Rightarrow> Inr (TypedUnknown (Kind e) (EFields e))
      | Some t \<Rightarrow>
          let failed = new_compat_error (Kind e) (typed_event_type (Some (zero_event t))) in
          if EFields e = [] \<or> EFields e = ''null'' \<or> hd (EFields e) \<noteq> CHR ''{'' then Inl failed
          else (case decode_struct (event_fields t) (EFields e) of
                  None \<Rightarrow> Inl failed
                | Some vs \<Rightarrow> Inr (Typed t vs)))"

datatype semantic_class =
    ContentProgress | AdvisoryLifecycle | Terminal | Permission | ToolEffect

definition semantic_class_of :: "typed_event option \<Rightarrow> semantic_class option" where
  "semantic_class_of v =
     (case v of
        Some (Typed t _) \<Rightarrow>
          if t \<in> {TextDelta, ReasoningDelta, ToolStart, ToolInputDelta, ToolDone, SidePaneImages,
                  TokenUsage} then Some ContentProgress
          else if t \<in> {ReasoningDone, BackgroundProgress, MessageAccepted, SessionStatus,
                  ConnectionPhase, ModelInfo} then Some AdvisoryLifecycle
          else if t = TurnDone then Some Terminal
          else if t = PermissionRequest then Some Permission
          else if t = ToolExec then Some ToolEffect
          else None
      | _ \<Rightarrow> None)"

text \<open>The event a client hands to its subscribers for a decoded frame.\<close>

definition event_of_frame :: "server_frame \<Rightarrow> event" where
  "event_of_frame f =
     \<lparr>Frame = f, Kind = event_kind (EvVal (Event f)),
      EFields = (case fields_json (Event f) of Some b \<Rightarrow> b | None \<Rightarrow> [])\<rparr>"

section \<open>Compatibility errors are bounded and free of payload\<close>

definition ident_char :: "char \<Rightarrow> bool" where
  "ident_char c = ident_rune (byte c)"

lemma ident_rune_less: "ident_rune r \<Longrightarrow> r < 128"
  by (auto simp: ident_rune_def)

lemma ident_char_of: "ident_rune r \<Longrightarrow> ident_char (char_of r)"
  using ident_rune_less [of r] by (simp add: ident_char_def)

lemma ident_underscore: "ident_char (CHR ''_'')"
  by (simp add: ident_char_def ident_rune_def)

lemma back_up_le: "back_up s n \<le> n"
  by (induction n) auto

lemma truncate_length: "length (truncate_utf8 s n) \<le> n"
  using back_up_le [of s n] by (auto simp: truncate_utf8_def)

lemma truncate_set: "set (truncate_utf8 s n) \<subseteq> set s"
  by (simp add: truncate_utf8_def set_take_subset)

lemma ident_not_cont: "ident_char c \<Longrightarrow> \<not> is_cont c"
  by (auto simp: ident_char_def ident_rune_def is_cont_def)

lemma truncate_ident:
  assumes "list_all ident_char s" shows "truncate_utf8 s n = take n s"
proof (cases "length s \<le> n")
  case False
  then have "list_all ident_char s" "n < length s" using assms by simp_all
  then have "back_up s n = n"
    by (cases n) (auto simp: list_all_length ident_not_cont)
  with False show ?thesis by (simp add: truncate_utf8_def)
qed (simp add: truncate_utf8_def)

lemma sanitize_ident:
  assumes "list_all ident_char fb" "fb \<noteq> []"
  shows "list_all ident_char (sanitize_identifier raw fb) \<and> sanitize_identifier raw fb \<noteq> []
    \<and> length (sanitize_identifier raw fb) \<le> 96"
proof -
  let ?b = "map (\<lambda>r. if ident_rune r then char_of r else CHR ''_'') (runes raw)"
  define v where "v = (if list_all (\<lambda>c. c = CHR ''_'') ?b then fb else ?b)"
  have "list_all ident_char ?b"
    by (auto simp: list_all_iff ident_char_of ident_underscore)
  then have v: "list_all ident_char v" "v \<noteq> []" using assms by (auto simp: v_def)
  have "sanitize_identifier raw fb = take 96 v"
    unfolding sanitize_identifier_def Let_def v_def [symmetric] max_compat_identifier_bytes_def
    using v(1) by (rule truncate_ident)
  with v show ?thesis by (auto simp: list_all_iff dest: in_set_takeD)
qed

lemma fallback_ident: "list_all ident_char ''unknown_kind''" "list_all ident_char ''unknown_type''"
  by (simp_all add: ident_char_def ident_rune_def)

lemmas sanitize_kind = sanitize_ident [OF fallback_ident(1), simplified]
  and sanitize_type = sanitize_ident [OF fallback_ident(2), simplified]

lemma runes_ascii: "list_all (\<lambda>c. byte c < 128) s \<Longrightarrow> runes s = map byte s"
  by (induction s) (simp_all add: decode_rune_def)

lemma ident_ascii: "list_all ident_char s \<Longrightarrow> list_all (\<lambda>c. byte c < 128) s"
  by (auto simp: list_all_iff ident_char_def ident_rune_less)

lemma sanitize_id:
  assumes "list_all ident_char s" "length s \<le> 96" "\<not> list_all (\<lambda>c. c = CHR ''_'') s"
  shows "sanitize_identifier s fb = s"
proof -
  have "map (\<lambda>r. if ident_rune r then char_of r else CHR ''_'') (runes s) = s"
    unfolding runes_ascii [OF ident_ascii [OF assms(1)]]
    using assms(1) by (induction s) (simp_all add: ident_char_def)
  with assms show ?thesis
    by (simp add: sanitize_identifier_def truncate_ident max_compat_identifier_bytes_def)
qed

text \<open>The text of a compatibility error is its fixed prefix and the two sanitised
  identifiers, at most 228 bytes of plain characters whatever the server sent, so the bound of
  256 bytes never cuts it.\<close>

theorem compat_message_bounded:
  "length (bounded_compat_message k t) \<le> 228 \<and>
   bounded_compat_message k t = ''unsupported_typed_event: kind='' @ sanitize_identifier k ''unknown_kind''
     @ '' type='' @ sanitize_identifier t ''unknown_type'' \<and>
   list_all (\<lambda>c. ident_char c \<or> c \<in> {CHR '' '', CHR '':'', CHR ''=''}) (bounded_compat_message k t)"
proof -
  let ?m = "''unsupported_typed_event: kind='' @ sanitize_identifier k ''unknown_kind''
     @ '' type='' @ sanitize_identifier t ''unknown_type''"
  have l: "length ?m \<le> 228" using sanitize_kind [of k] sanitize_type [of t] by simp
  then have m: "bounded_compat_message k t = ?m"
    by (simp add: bounded_compat_message_def truncate_utf8_def max_compat_diagnostic_bytes_def)
  have "list_all (\<lambda>c. ident_char c \<or> c \<in> {CHR '' '', CHR '':'', CHR ''=''}) ?m"
    using sanitize_kind [of k] sanitize_type [of t]
    by (auto simp: list_all_iff ident_char_def ident_rune_def)
  with l m show ?thesis by simp
qed

lemma table_kind_ok: 
  "map_of event_table k = Some t \<Longrightarrow>
     list_all ident_char k \<and> length k \<le> 96 \<and> \<not> list_all (\<lambda>c. c = CHR ''_'') k"
  unfolding event_table_def
  by (simp split: if_splits) (auto simp: ident_char_def ident_rune_def)


section \<open>Encoding typed values\<close>

text \<open>How a peer writes a Go value of a given type, and the values that type has.\<close>

fun enc_go :: "gotype \<Rightarrow> goval \<Rightarrow> json"
and enc_fields :: "(string \<times> gotype) list \<Rightarrow> goval list \<Rightarrow> (string \<times> json) list" where
  "enc_go TStr v = JStr (go_str v)"
| "enc_go (TInt n) v = JNum (int_text (go_int v))"
| "enc_go (TUint n) v = JNum (nat_text (nat (go_int v)))"
| "enc_go TFloat v = (case v of VFloat l \<Rightarrow> JNum l | _ \<Rightarrow> JNull)"
| "enc_go TBool v = (case v of VBool b \<Rightarrow> JBool b | _ \<Rightarrow> JNull)"
| "enc_go (TSlice t) v = (case v of VList vs \<Rightarrow> JArr (map (enc_go t) vs) | _ \<Rightarrow> JNull)"
| "enc_go (TPtr t) v = (if v = VNil then JNull else enc_go t v)"
| "enc_go (TStruct fs) v = JObj (enc_fields fs (fields_of v))"
| "enc_fields ((n, t) # fs) (v # vs) = (n, enc_go t v) # enc_fields fs vs"
| "enc_fields _ _ = []"

fun has_type :: "gotype \<Rightarrow> goval \<Rightarrow> bool"
and have_types :: "(string \<times> gotype) list \<Rightarrow> goval list \<Rightarrow> bool" where
  "has_type TStr v = (\<exists>s. v = VStr s \<and> valid_utf8 s)"
| "has_type (TInt n) v = (\<exists>i. v = VInt i \<and> - (2 ^ (n - 1)) \<le> i \<and> i < 2 ^ (n - 1))"
| "has_type (TUint n) v = (\<exists>i. v = VInt i \<and> 0 \<le> i \<and> i < 2 ^ n)"
| "has_type TFloat v = (\<exists>l. v = VFloat l \<and> parse_num l = Some (l, []) \<and> float_in_range l)"
| "has_type TBool v = (\<exists>b. v = VBool b)"
| "has_type (TSlice t) v = (v = VNil \<or> (\<exists>vs. v = VList vs \<and> list_all (has_type t) vs))"
| "has_type (TPtr t) v = (v = VNil \<or> has_type t v)"
| "has_type (TStruct fs) v = (\<exists>vs. v = VStruct vs \<and> have_types fs vs)"
| "have_types ((n, t) # fs) (v # vs) =
     (valid_utf8 n \<and> n \<notin> fst ` set fs \<and> has_type t v \<and> have_types fs vs)"
| "have_types [] [] = True"
| "have_types _ _ = False"

lemma have_types_length: "have_types fs vs \<Longrightarrow> length vs = length fs"
  by (induction fs vs rule: list_induct2') auto

lemma have_types_distinct: "have_types fs vs \<Longrightarrow> distinct (map fst fs)"
  by (induction fs vs rule: list_induct2') fastforce+

lemma have_types_nth: "have_types fs vs \<Longrightarrow> i < length fs \<Longrightarrow> has_type (snd (fs ! i)) (vs ! i)"
  by (induction fs vs arbitrary: i rule: list_induct2') (auto simp: nth_Cons split: nat.split)

lemma fst_enc_fields: "length vs = length fs \<Longrightarrow> map fst (enc_fields fs vs) = map fst fs"
  by (induction fs vs rule: list_induct2') auto

lemma enc_fields_nth:
  "length vs = length fs \<Longrightarrow> i < length fs \<Longrightarrow>
   enc_fields fs vs ! i = (fst (fs ! i), enc_go (snd (fs ! i)) (vs ! i))"
  by (induction fs vs arbitrary: i rule: list_induct2') (auto simp: nth_Cons split: nat.split)

lemma length_enc_fields: "length vs = length fs \<Longrightarrow> length (enc_fields fs vs) = length fs"
  using fst_enc_fields [of vs fs] by (metis length_map)

lemma index_of_nth:
  "distinct (map fst fs) \<Longrightarrow> i < length fs \<Longrightarrow> index_of (\<lambda>(n, _). n = fst (fs ! i)) fs = Some i"
proof (induction fs arbitrary: i)
  case (Cons f fs)
  then show ?case by (cases i; cases f) (auto simp: image_def dest: nth_mem)
qed simp

lemma decode_members_fields:
  assumes "distinct (map fst fs)" "length vals = length fs" "length vs = length fs"
    and "distinct (map fst ms)"
    and "\<And>k j. (k, j) \<in> set ms \<Longrightarrow> \<exists>i < length fs. k = fst (fs ! i) \<and>
        decode_go (snd (fs ! i)) (zero_go (snd (fs ! i))) j = Some (vs ! i)"
    and "\<And>i. i < length fs \<Longrightarrow>
        vals ! i = (if fst (fs ! i) \<in> fst ` set ms then zero_go (snd (fs ! i)) else vs ! i)"
  shows "decode_members fs vals ms = Some vs"
  using assms(2,4-6)
proof (induction ms arbitrary: vals)
  case Nil
  then show ?case using assms(3) by (auto intro: nth_equalityI)
next
  case (Cons m ms)
  obtain k j where m: "m = (k, j)" by fastforce
  obtain i where i: "i < length fs" "k = fst (fs ! i)"
    "decode_go (snd (fs ! i)) (zero_go (snd (fs ! i))) j = Some (vs ! i)"
    using Cons.prems(3) [of k j] m by auto
  have fi: "field_index fs k = Some i"
    using index_of_nth [OF assms(1) i(1)] i(2) by (simp add: field_index_def)
  have "vals ! i = zero_go (snd (fs ! i))" using Cons.prems(4) [OF i(1)] i(2) m by simp
  moreover have "decode_members fs (vals[i := vs ! i]) ms = Some vs"
  proof (rule Cons.IH)
    show "distinct (map fst ms)" "length (vals[i := vs ! i]) = length fs"
      using Cons.prems by simp_all
    show "\<exists>i<length fs. k = fst (fs ! i) \<and>
        decode_go (snd (fs ! i)) (zero_go (snd (fs ! i))) j = Some (vs ! i)" if "(k, j) \<in> set ms" for k j
      using Cons.prems(3) that by simp
    fix i' assume i': "i' < length fs"
    show "vals[i := vs ! i] ! i' =
        (if fst (fs ! i') \<in> fst ` set ms then zero_go (snd (fs ! i')) else vs ! i')"
    proof (cases "i' = i")
      case True
      with Cons.prems(1,2) i m show ?thesis by simp
    next
      case False
      then have "fst (fs ! i') \<noteq> k"
        using assms(1) i i' by (auto simp: distinct_conv_nth)
      with False Cons.prems(4) [OF i'] m show ?thesis by simp
    qed
  qed
  ultimately show ?case using i(3) fi m by simp
qed

lemma decode_elems_map:
  "(\<And>v. v \<in> set vs \<Longrightarrow> decode_go t (zero_go t) (enc_go t v) = Some v) \<Longrightarrow>
   decode_elems t [] (map (enc_go t) vs) = Some vs"
  by (induction vs) (auto simp: old_elem_def)

lemma enc_go_null: "has_type t v \<Longrightarrow> enc_go t v = JNull \<Longrightarrow> v = VNil"
  by (induction t) (auto split: if_splits)

lemma decode_enc_fields:
  assumes "have_types fs vs"
    and "\<And>i. i < length fs \<Longrightarrow>
      decode_go (snd (fs ! i)) (zero_go (snd (fs ! i))) (enc_go (snd (fs ! i)) (vs ! i)) = Some (vs ! i)"
    and "mset ms = mset (enc_fields fs vs)"
  shows "decode_members fs (map (\<lambda>(_, t). zero_go t) fs) ms = Some vs"
proof (rule decode_members_fields)
  have len: "length vs = length fs" by (rule have_types_length [OF assms(1)])
  then show "length vs = length fs" .
  show d: "distinct (map fst fs)" by (rule have_types_distinct [OF assms(1)])
  have "mset (map fst ms) = mset (map fst fs)"
    using assms(3) fst_enc_fields [OF len] by (metis mset_map)
  then show "distinct (map fst ms)" using d by (metis mset_eq_imp_distinct_iff)
  have st: "set ms = set (enc_fields fs vs)" using assms(3) by (metis set_mset_mset)
  then show "\<exists>i<length fs. k = fst (fs ! i) \<and>
        decode_go (snd (fs ! i)) (zero_go (snd (fs ! i))) j = Some (vs ! i)" if "(k, j) \<in> set ms" for k j
  proof -
    obtain i where i: "i < length fs" "enc_fields fs vs ! i = (k, j)"
      using \<open>(k, j) \<in> set ms\<close> unfolding st in_set_conv_nth length_enc_fields [OF len] by blast
    with assms(2) [OF i(1)] show ?thesis by (auto simp: enc_fields_nth [OF len i(1)])
  qed
  have "fst ` set ms = fst ` set fs"
    unfolding st using fst_enc_fields [OF len] by (metis list.set_map)
  then show "map (\<lambda>(_, t). zero_go t) fs ! i =
      (if fst (fs ! i) \<in> fst ` set ms then zero_go (snd (fs ! i)) else vs ! i)" if "i < length fs" for i
    using that by (simp add: case_prod_unfold)
qed simp

lemma decode_enc_go: "has_type t v \<Longrightarrow> decode_go t (zero_go t) (enc_go t v) = Some v"
proof (induction t arbitrary: v)
  case (TSlice t)
  then show ?case
    by (auto simp: decode_go_eqs list_of_def list_all_iff intro!: decode_elems_map)
next
  case (TPtr t)
  show ?case
  proof (cases "v = VNil")
    case False
    with TPtr have "enc_go t v \<noteq> JNull" "decode_go t (zero_go t) (enc_go t v) = Some v"
      using enc_go_null [of t v] by auto
    with False show ?thesis by (cases "enc_go t v") (simp_all add: decode_go_eqs)
  qed (simp add: decode_go_eqs)
next
  case (TStruct fs)
  then obtain vs where vs: "v = VStruct vs" "have_types fs vs" by auto
  have "decode_members fs (map (\<lambda>(_, t). zero_go t) fs) (enc_fields fs vs) = Some vs"
  proof (rule decode_enc_fields [OF vs(2) _ refl])
    fix i assume i: "i < length fs"
    show "decode_go (snd (fs ! i)) (zero_go (snd (fs ! i))) (enc_go (snd (fs ! i)) (vs ! i)) = Some (vs ! i)"
      by (rule TStruct.IH [of "fs ! i"]) (use i vs have_types_nth in \<open>auto simp: snds.simps\<close>)
  qed
  with vs(1) show ?case by (simp add: decode_go_eqs fields_of_def)
qed (auto simp: decode_go_eqs go_str_def go_int_def parse_int_text parse_uint_text)

fun gdepth :: "gotype \<Rightarrow> nat" where
  "gdepth (TSlice t) = Suc (gdepth t)"
| "gdepth (TPtr t) = gdepth t"
| "gdepth (TStruct fs) = Suc (foldr max (map (\<lambda>(_, t). gdepth t) fs) 0)"
| "gdepth _ = 0"

lemma set_enc_fields:
  assumes "have_types fs vs" "(k, j) \<in> set (enc_fields fs vs)"
  shows "\<exists>t v. (k, t) \<in> set fs \<and> j = enc_go t v \<and> has_type t v \<and> valid_utf8 k"
  using assms by (induction fs vs rule: list_induct2') (auto, blast+)

lemma enc_go_wf: "has_type t v \<Longrightarrow> wf_shape (enc_go t v) \<and> jdepth (enc_go t v) \<le> gdepth t"
proof (induction t arbitrary: v)
  case (TSlice t)
  then show ?case by (fastforce simp: list_all_iff foldr_max_le)
next
  case (TStruct fs)
  then obtain vs where vs: "v = VStruct vs" "have_types fs vs" by auto
  let ?d = "foldr max (map (\<lambda>(_, t). gdepth t) fs) 0"
  have d: "gdepth t \<le> ?d" if "(k, t) \<in> set fs" for k t
    using that foldr_max_le [of "map (\<lambda>(_, t). gdepth t) fs" ?d] by fastforce
  have "valid_utf8 k \<and> wf_shape j \<and> jdepth j \<le> ?d" if kj: "(k, j) \<in> set (enc_fields fs vs)" for k j
  proof -
    obtain t w where t: "(k, t) \<in> set fs" "j = enc_go t w" "has_type t w" "valid_utf8 k"
      using set_enc_fields [OF vs(2) kj] by blast
    then have "wf_shape j \<and> jdepth j \<le> gdepth t"
      using TStruct.IH [of "(k, t)" t w] by simp
    with t d show ?thesis by fastforce
  qed
  then show ?case using vs(1)
    by (auto simp: fields_of_def list_all_iff foldr_max_le)
qed (auto simp: go_str_def split: if_splits)

text \<open>The members of an event as a peer encodes it.\<close>

definition event_members :: "event_type \<Rightarrow> goval list \<Rightarrow> (string \<times> json option) list" where
  "event_members t vs = map (\<lambda>(k, j). (k, Some j)) (enc_fields (event_fields t) vs)"

definition kind_of :: "event_type \<Rightarrow> string" where
  "kind_of t = the (map_of (map (\<lambda>(k, t). (t, k)) event_table) t)"

lemma kind_table: "list_all (\<lambda>(k, t). map_of event_table k = Some t \<and> kind_of t = k \<and> is_known_event k
    \<and> k \<notin> {''hello_ok'', ''error'', ''ok''}) event_table"
  by code_simp

lemma kind_in_table: "\<exists>k. (k, t) \<in> set event_table"
  by (cases t) (auto simp: event_table_def)

lemma kind_of_facts:
  "map_of event_table (kind_of t) = Some t \<and> is_known_event (kind_of t) \<and> kind_of t \<notin> {''hello_ok'', ''error'', ''ok''}"
proof -
  obtain k where "(k, t) \<in> set event_table" using kind_in_table by blast
  with kind_table show ?thesis by (auto simp: list_all_iff)
qed

lemma kind_of_table: "map_of event_table (kind_of t) = Some t"
  using kind_of_facts by blast

lemma kind_of_known: "is_known_event (kind_of t) \<and> kind_of t \<notin> {''hello_ok'', ''error'', ''ok''}"
  using kind_of_facts by blast

lemmas event_field_defs = text_delta_fields_def reasoning_delta_fields_def
    reasoning_done_fields_def tool_start_fields_def tool_input_delta_fields_def tool_exec_fields_def
    tool_done_fields_def side_pane_images_fields_def token_usage_fields_def turn_done_fields_def
    permission_request_fields_def background_progress_fields_def message_accepted_fields_def
    session_status_fields_def connection_phase_fields_def session_forked_fields_def
    wake_requested_fields_def model_info_fields_def models_fields_def runtime_info_fields_def
    credential_updated_fields_def file_content_fields_def files_fields_def text_matches_fields_def
    file_status_fields_def compacted_fields_def session_renamed_fields_def
    session_info_fields_def image_source_fields_def image_anchor_fields_def
    rendered_image_fields_def model_route_info_fields_def text_match_fields_def

lemma event_fields_reserved: "fst ` set (event_fields t) \<inter> set reserved_keys = {}"
  by (cases t) (simp_all add: reserved_keys_def event_field_defs)

lemma event_fields_depth: "(k, u) \<in> set (event_fields t) \<Longrightarrow> gdepth u < max_depth"
proof -
  have "gdepth (TStruct (event_fields t)) \<le> 4" by (cases t) (simp_all add: event_field_defs)
  then have "\<forall>x \<in> set (map (\<lambda>(_, t). gdepth t) (event_fields t)). x \<le> 3"
    unfolding foldr_max_le [symmetric] by simp
  moreover assume "(k, u) \<in> set (event_fields t)"
  ultimately show ?thesis by (fastforce simp: max_depth_def)
qed

lemma mset_jput: "k \<notin> fst ` set m \<Longrightarrow> mset (jput k v m) = add_mset (k, v) (mset m)"
  by (induction k v m rule: jput.induct) auto

lemma mset_fold_jput:
  "distinct (map fst ms) \<Longrightarrow> fst ` set ms \<inter> fst ` set m = {} \<Longrightarrow>
   mset (fold (\<lambda>(k, v). jput k v) ms m) = mset ms + mset m"
proof (induction ms arbitrary: m)
  case (Cons kv ms)
  then show ?case by (cases kv) (auto simp: mset_jput fst_jput)
qed simp

lemma event_members_payload:
  assumes "have_types (event_fields t) vs"
  shows "fields_ok (event_members t vs)"
    and "mset (frame_payload (event_members t vs)) = mset (enc_fields (event_fields t) vs)"
    and "wf_json (JObj (frame_payload (event_members t vs)))"
proof -
  let ?e = "enc_fields (event_fields t) vs"
  have len: "length vs = length (event_fields t)" by (rule have_types_length [OF assms])
  have "valid_utf8 k \<and> wf_shape j \<and> jdepth j < max_depth" if kj: "(k, j) \<in> set ?e" for k j
  proof -
    obtain u w where t: "(k, u) \<in> set (event_fields t)" "j = enc_go u w" "has_type u w" "valid_utf8 k"
      using set_enc_fields [OF assms kj] by blast
    with event_fields_depth [OF t(1)] enc_go_wf [OF t(3)] show ?thesis by simp
  qed
  note wf = this
  then show "fields_ok (event_members t vs)"
    by (auto simp: fields_ok_def event_members_def list_all_iff)
  have keys: "fst ` set ?e = fst ` set (event_fields t)" and d: "distinct (map fst ?e)"
    using fst_enc_fields [OF len] have_types_distinct [OF assms] by (metis list.set_map, simp)
  have "filter (\<lambda>(k, _). k \<notin> set reserved_keys) (event_members t vs) = event_members t vs"
  proof (rule filter_True, rule ballI)
    fix x assume "x \<in> set (event_members t vs)"
    then have "fst x \<in> fst ` set ?e" by (force simp: event_members_def)
    with keys event_fields_reserved [of t] show "case x of (k, _) \<Rightarrow> k \<notin> set reserved_keys"
      by (cases x) auto
  qed
  then have "frame_payload (event_members t vs) = jmap_of ?e"
    by (simp add: frame_payload_def event_members_def comp_def case_prod_unfold)
  moreover have "mset (jmap_of ?e) = mset ?e"
    unfolding jmap_of_def using d by (simp add: mset_fold_jput)
  ultimately show ms: "mset (frame_payload (event_members t vs)) = mset ?e" by simp
  show "wf_json (JObj (frame_payload (event_members t vs)))"
    unfolding wf_JObj_iff set_mset_mset [symmetric, of "frame_payload _"] ms
    using wf by auto
qed





lemma sanitize_go_type:
  "sanitize_identifier (''*jcode.'' @ go_type_name t) ''unknown_type'' = ''_jcode.'' @ go_type_name t"
proof -
  have n: "list_all ident_char (go_type_name t)" "length (go_type_name t) \<le> 80"
    by (cases t; simp add: ident_char_def ident_rune_def)+
  let ?s = "''*jcode.'' @ go_type_name t"
  have "list_all (\<lambda>c. byte c < 128) ?s"
    using ident_ascii [OF n(1)] by simp
  then have "map (\<lambda>r. if ident_rune r then char_of r else CHR ''_'') (runes ?s) =
      ''_jcode.'' @ map (\<lambda>r. if ident_rune r then char_of r else CHR ''_'') (map byte (go_type_name t))"
    unfolding runes_ascii [OF \<open>list_all (\<lambda>c. byte c < 128) ?s\<close>]
    by (simp add: ident_rune_def char_of_eq_iff del: list.map_comp map_map)
  also have "map (\<lambda>r. if ident_rune r then char_of r else CHR ''_'') (map byte (go_type_name t)) = go_type_name t"
    using n(1) by (induction "go_type_name t") (auto simp: ident_char_def list_all_iff intro!: map_idI)
  finally show ?thesis
    using n by (simp add: sanitize_identifier_def Let_def truncate_ident max_compat_identifier_bytes_def
        ident_char_def ident_rune_def)
qed

text \<open>C38: decoding fails only on a kind that has a struct, and then with an error made of the
  kind and the name of the struct alone, which matches the protocol failure sentinel: nothing of
  the payload can reach it.  A kind without a struct always decodes, keeping its bytes.\<close>

theorem typed_decode_error:
  "case decode_typed_event e of
     Inl err \<Rightarrow> \<exists>t. map_of event_table (Kind e) = Some t \<and>
        err = CompatErr (Kind e) (''_jcode.'' @ go_type_name t) \<and> err_is err ErrProtocolFailure
   | Inr (TypedUnknown k b) \<Rightarrow> map_of event_table (Kind e) = None \<and> k = Kind e \<and> b = EFields e
   | Inr (Typed t vs) \<Rightarrow> map_of event_table (Kind e) = Some t \<and>
        decode_struct (event_fields t) (EFields e) = Some vs \<and> length vs = length (event_fields t)"
proof (cases "map_of event_table (Kind e)")
  case None
  then show ?thesis by (simp add: decode_typed_event_def)
next
  case (Some t)
  have "new_compat_error (Kind e) (typed_event_type (Some (zero_event t))) =
      CompatErr (Kind e) (''_jcode.'' @ go_type_name t)"
    using table_kind_ok [OF Some] sanitize_go_type [of t]
    by (simp add: new_compat_error_def typed_event_type_def zero_event_def sanitize_id)
  with Some show ?thesis
    by (auto simp: decode_typed_event_def Let_def dest: decode_struct_length split: option.split)
qed

lemma class_table: "list_all (\<lambda>(k, t).
    (semantic_class_of (Some (Typed t [])) = Some Terminal \<longleftrightarrow> k = ''turn_done'') \<and>
    (semantic_class_of (Some (Typed t [])) = None \<longleftrightarrow>
       k \<in> {''session_forked'', ''wake_requested'', ''models'', ''runtime_info'',
         ''credential_updated'', ''file_content'', ''files'', ''text_matches'', ''file_status'',
         ''compacted'', ''session_renamed''})) event_table"
  by code_simp

lemmas class_facts = bspec [OF class_table [unfolded list_all_iff], unfolded prod.case]

text \<open>The event that ends a turn is recognised by its kind alone: a decoded event has the terminal class
  exactly when its kind is \<^verbatim>\<open>turn_done\<close>, and the reply-only events and unknown events have none.\<close>

theorem semantic_class_of_decoded:
  assumes "decode_typed_event e = Inr v"
  shows "(semantic_class_of (Some v) = Some Terminal \<longleftrightarrow> Kind e = ''turn_done'') \<and>
    (semantic_class_of (Some v) = None \<longleftrightarrow>
       Kind e \<notin> fst ` set event_table \<or>
       Kind e \<in> {''session_forked'', ''wake_requested'', ''models'', ''runtime_info'',
         ''credential_updated'', ''file_content'', ''files'', ''text_matches'', ''file_status'',
         ''compacted'', ''session_renamed''})"
proof (cases "map_of event_table (Kind e)")
  case None
  then have v: "v = TypedUnknown (Kind e) (EFields e)" using assms by (simp add: decode_typed_event_def)
  from None have "Kind e \<notin> fst ` set event_table" by (simp add: map_of_eq_None_iff)
  moreover have "''turn_done'' \<in> fst ` set event_table" by (simp add: event_table_def)
  ultimately have "Kind e \<noteq> ''turn_done''" by metis
  with \<open>Kind e \<notin> fst ` set event_table\<close> show ?thesis by (simp add: semantic_class_of_def v)
next
  case (Some t)
  then obtain vs where v: "v = Typed t vs"
    using assms by (auto simp: decode_typed_event_def Let_def split: if_splits option.splits)
  have m: "(Kind e, t) \<in> set event_table" using Some by (rule map_of_SomeD)
  then have i: "Kind e \<in> fst ` set event_table" by force
  have s: "semantic_class_of (Some v) = semantic_class_of (Some (Typed t []))"
    by (simp add: semantic_class_of_def v)
  show ?thesis using class_facts [OF m] i unfolding s prod.case by (simp only: not_not simp_thms)
qed

theorem semantic_class_of_decoded_witness:
  "\<exists>v. decode_typed_event \<lparr>Frame = \<lparr>SV = 1, ReplyTo = None, Event = OK\<rparr>, Kind = ''mystery'', EFields = ''{}''\<rparr>
     = Inr v \<and> semantic_class_of (Some v) = None"
proof -
  have d: "decode_typed_event \<lparr>Frame = \<lparr>SV = 1, ReplyTo = None, Event = OK\<rparr>, Kind = ''mystery'', EFields = ''{}''\<rparr>
     = Inr (TypedUnknown ''mystery'' ''{}'')"
    by (simp add: decode_typed_event_def event_table_def)
  from semantic_class_of_decoded [OF d] d show ?thesis by (simp add: event_table_def)
qed

end
