(* ===== verification/Transport.thy ===== *)
theory Transport imports Framing begin

text \<open>
  \<^verbatim>\<open>transport/transport.go\<close>: the wrapper that serialises writes and closes once, the
  in-memory pipe and the scripted server over it.

  A wrapped transport is known by the calls that reach it: the bytes written and the number
  of times it has been closed.  What the transport answers to a call is a parameter.
\<close>

section \<open>Safe\<close>

record safe =
  s_once :: bool
  s_err :: "gerr option"
  s_written :: string
  s_closes :: nat

definition new_safe :: safe where
  "new_safe = \<lparr>s_once = False, s_err = None, s_written = [], s_closes = 0\<rparr>"

text \<open>A write under the lock, answered by \<open>failed\<close>.\<close>

definition safe_write :: "gerr option \<Rightarrow> string \<Rightarrow> safe \<Rightarrow> gerr option \<times> safe" where
  "safe_write failed p s =
     (failed, if failed = None then s\<lparr>s_written := s_written s @ p\<rparr> else s)"

text \<open>\<^verbatim>\<open>Close\<close>, where the wrapped transport would answer \<open>inner\<close>.\<close>

definition safe_close :: "gerr option \<Rightarrow> safe \<Rightarrow> gerr option \<times> safe" where
  "safe_close inner s =
     (let s' = (if s_once s then s
                else s\<lparr>s_once := True, s_err := inner, s_closes := Suc (s_closes s)\<rparr>)
      in (s_err s', s'))"

definition safe_result :: "safe \<Rightarrow> gerr option option" where
  "safe_result s = (if s_once s then Some (s_err s) else None)"

interpretation safe_close: write_once "\<lambda>e s. snd (safe_close e s)" safe_result
  by unfold_locales (auto simp: safe_close_def safe_result_def Let_def split: if_splits)

section \<open>Pipe and scripted server\<close>

record pipe =
  p_once :: bool
  p_reader_closed :: bool
  p_writer_closed :: bool

definition new_pipe :: pipe where
  "new_pipe = \<lparr>p_once = False, p_reader_closed = False, p_writer_closed = False\<rparr>"

text \<open>Unlike \<open>safe_close\<close>, a second close of a pipe reports no error; closing a pipe end never fails.\<close>

definition pipe_close :: "pipe \<Rightarrow> gerr option \<times> pipe" where
  "pipe_close p =
     (None, if p_once p then p
            else p\<lparr>p_once := True, p_reader_closed := True, p_writer_closed := True\<rparr>)"

record fake_server =
  f_side :: pipe
  f_done :: closes

definition new_fake_server :: "pipe \<Rightarrow> fake_server" where
  "new_fake_server side = \<lparr>f_side = side, f_done = 0\<rparr>"

text \<open>The bytes \<^verbatim>\<open>Send\<close> puts on the pipe.\<close>

definition fake_send_bytes :: "string \<Rightarrow> string" where
  "fake_send_bytes raw = (if raw = [] \<or> last raw \<noteq> newline then raw @ [newline] else raw)"

definition fake_send :: "'w writer \<Rightarrow> string \<Rightarrow> 'w \<Rightarrow> gerr option \<times> 'w" where
  "fake_send w raw st = w (fake_send_bytes raw) st"

definition fake_receive :: "reader \<Rightarrow> string \<times> gerr option \<times> reader" where
  "fake_receive r = read_bytes r"

definition fake_close :: "fake_server \<Rightarrow> gerr option \<times> fake_server" where
  "fake_close s =
     (let done' = (if ch_closed (f_done s) then f_done s else ch_close (f_done s));
          (err, side') = pipe_close (f_side s)
      in (err, \<lparr>f_side = side', f_done = done'\<rparr>))"

section \<open>Properties\<close>

text \<open>However often a safe transport is closed and whatever the wrapped transport would answer
  each time, the wrapped close runs exactly once and every close returns its answer.\<close>

theorem safe_close_once:
  assumes "s_closes s = 0" "\<not> s_once s"
  shows "s_closes (fold (\<lambda>e s. snd (safe_close e s)) (e # es) s) = 1 \<and>
    fst (safe_close e' (fold (\<lambda>e s. snd (safe_close e s)) (e # es) s)) = e"
proof -
  let ?t = "fold (\<lambda>e s. snd (safe_close e s)) (e # es) s"
  have "safe_result ?t = Some e"
    using assms by (intro safe_close.first_commit_wins) (simp add: safe_result_def)
  then have "fst (safe_close e' ?t) = e"
    by (auto simp: safe_result_def safe_close_def split: if_splits)
  moreover have "s_once t \<Longrightarrow> s_closes (fold (\<lambda>e s. snd (safe_close e s)) es t) = s_closes t" for t
    by (induction es) (simp_all add: safe_close_def)
  then have "s_closes ?t = 1" using assms by (simp add: safe_close_def Let_def)
  ultimately show ?thesis by simp
qed

theorem safe_close_once_witness:
  "s_closes (snd (safe_close None (snd (safe_close (Some (Sent Err_EOF)) new_safe)))) = 1"
  using safe_close_once [of new_safe "Some (Sent Err_EOF)" "[None]" None]
  by (simp add: new_safe_def)

lemma fake_send_read: 
  assumes "line_ok mx f"
  shows "read_frame mx (r\<lparr>pending := fake_send_bytes f @ rest\<rparr>) = (Inr f, r\<lparr>pending := rest\<rparr>)"
proof -
  have "newline \<notin> set f" "f \<noteq> []" using assms by (simp_all add: line_ok_def)
  then have "last f \<noteq> newline" using last_in_set [of f] by metis
  with read_frame_line [OF assms, of rest r] \<open>f \<noteq> []\<close> show ?thesis
    by (simp add: fake_send_bytes_def)
qed

end
