(* ===== verification/Subscription.thy ===== *)
theory Subscription imports Events Transport begin

text \<open>
  The event subscriptions of \<^verbatim>\<open>client.go\<close>: a bounded channel of events, a channel for the
  one error that ends the subscription, and a done channel.

  A buffered channel is its buffer and the number of times it was closed.  Sending on a
  closed channel and closing it again panic in Go.  Where a \<^verbatim>\<open>select\<close> has several ready
  cases Go picks one at random, so a receiving operation gives the list of its possible
  outcomes; the empty list is an operation that waits.
\<close>

record subscriber =
  ev_buf :: "event list"
  ev_cap :: nat
  ev_closed :: closes
  er_buf :: "gerr list"
  er_closed :: closes
  done_closed :: closes
  sub_once :: bool
  sub_err :: "gerr option"
  sub_turn :: bool

definition new_subscriber :: "nat \<Rightarrow> bool \<Rightarrow> subscriber" where
  "new_subscriber buffer turn =
     \<lparr>ev_buf = [], ev_cap = buffer, ev_closed = 0, er_buf = [], er_closed = 0, done_closed = 0,
      sub_once = False, sub_err = None, sub_turn = turn\<rparr>"

text \<open>A subscriber made after the client was closed.\<close>

definition closed_subscriber :: "gerr \<Rightarrow> subscriber \<Rightarrow> subscriber" where
  "closed_subscriber err s =
     s\<lparr>sub_err := Some err, ev_closed := ch_close (ev_closed s), er_closed := ch_close (er_closed s)\<rparr>"

text \<open>\<^verbatim>\<open>closeSubscriberLocked\<close> on the subscriber itself.\<close>

definition close_subscriber :: "gerr option \<Rightarrow> subscriber \<Rightarrow> subscriber" where
  "close_subscriber err s =
     (if sub_once s then s
      else s\<lparr>sub_once := True, sub_err := err,
             er_buf := er_buf s @ (case err of None \<Rightarrow> [] | Some e \<Rightarrow> [e]),
             done_closed := ch_close (done_closed s), ev_closed := ch_close (ev_closed s),
             er_closed := ch_close (er_closed s)\<rparr>)"

datatype delivery = Gone | Queued subscriber | Full | SendOnClosed

text \<open>The possible outcomes of the reader's \<^verbatim>\<open>select\<close> for one registered subscriber.\<close>

definition deliver :: "event \<Rightarrow> subscriber \<Rightarrow> delivery list" where
  "deliver e s =
     (let ready = (if ch_closed (done_closed s) then [Gone] else [])
                @ (if ch_closed (ev_closed s) then [SendOnClosed]
                   else if length (ev_buf s) < ev_cap s then [Queued (s\<lparr>ev_buf := ev_buf s @ [e]\<rparr>)]
                   else [])
      in if ready = [] then [Full] else ready)"

text \<open>
  \<^verbatim>\<open>subscriptionError\<close>, where \<open>fallback\<close> is what the client's state gives when the
  subscriber has no error of its own.
\<close>

definition subscription_error :: "subscriber \<Rightarrow> gerr \<Rightarrow> gerr" where
  "subscription_error s fallback = (case sub_err s of Some e \<Rightarrow> e | None \<Rightarrow> fallback)"

definition next_event ::
    "gerr option \<Rightarrow> gerr \<Rightarrow> subscriber \<Rightarrow> ((gerr + event) \<times> subscriber) list" where
  "next_event ctx_err fallback s =
     (case ev_buf s of
        e # es \<Rightarrow> [(Inr e, s\<lparr>ev_buf := es\<rparr>)]
      | [] \<Rightarrow> if ch_closed (ev_closed s) then [(Inl (subscription_error s fallback), s)] else [])
   @ (case er_buf s of
        e # es \<Rightarrow> [(Inl e, s\<lparr>er_buf := es\<rparr>)]
      | [] \<Rightarrow> if ch_closed (er_closed s) then [(Inl (subscription_error s fallback), s)] else [])
   @ (case ctx_err of None \<Rightarrow> [] | Some e \<Rightarrow> [(Inl e, s)])"

section \<open>The life of a subscriber\<close>

definition sub_open :: "subscriber \<Rightarrow> bool" where
  "sub_open s = (\<not> sub_once s \<and> ev_closed s = 0 \<and> er_closed s = 0 \<and> done_closed s = 0
     \<and> er_buf s = [] \<and> sub_err s = None \<and> length (ev_buf s) \<le> ev_cap s)"

definition sub_ended :: "subscriber \<Rightarrow> bool" where
  "sub_ended s = (sub_once s \<and> ev_closed s = 1 \<and> er_closed s = 1 \<and> done_closed s = 1
     \<and> length (ev_buf s) \<le> ev_cap s
     \<and> (\<forall>e \<in> set (er_buf s). sub_err s = Some e) \<and> length (er_buf s) \<le> 1)"

definition sub_stillborn :: "subscriber \<Rightarrow> bool" where
  "sub_stillborn s = (\<not> sub_once s \<and> ev_closed s = 1 \<and> er_closed s = 1 \<and> done_closed s = 0
     \<and> ev_buf s = [] \<and> er_buf s = [] \<and> sub_err s = Some (Sent ErrClosed))"

definition sub_ok :: "subscriber \<Rightarrow> bool" where
  "sub_ok s = (sub_open s \<or> sub_ended s \<or> sub_stillborn s)"

lemma new_subscriber_open: "sub_open (new_subscriber n t)"
  by (simp add: new_subscriber_def sub_open_def)

lemma stillborn_closed: "sub_stillborn (closed_subscriber (Sent ErrClosed) (new_subscriber n t))"
  by (simp add: closed_subscriber_def new_subscriber_def sub_stillborn_def)

lemma close_open: "sub_open s \<Longrightarrow> sub_ended (close_subscriber err s) \<and> sub_err (close_subscriber err s) = err"
  by (auto simp: sub_open_def sub_ended_def close_subscriber_def split: option.splits)

lemma close_ended: "sub_ended s \<Longrightarrow> close_subscriber err s = s"
  by (simp add: sub_ended_def close_subscriber_def)

lemma deliver_open:
  "sub_open s \<Longrightarrow> deliver e s =
     (if length (ev_buf s) < ev_cap s then [Queued (s\<lparr>ev_buf := ev_buf s @ [e]\<rparr>)] else [Full])"
  by (simp add: deliver_def sub_open_def)

lemma queued_open: "sub_open s \<Longrightarrow> Queued s' \<in> set (deliver e s) \<Longrightarrow> sub_open s'"
  by (auto simp: deliver_open sub_open_def split: if_splits)

lemma next_event_cases:
  assumes "(x, s') \<in> set (next_event ctx fb s)"
  obtains (event) e es where "ev_buf s = e # es" "x = Inr e" "s' = s\<lparr>ev_buf := es\<rparr>"
  | (failure) e es where "er_buf s = e # es" "x = Inl e" "s' = s\<lparr>er_buf := es\<rparr>"
  | (ended) "ch_closed (ev_closed s) \<or> ch_closed (er_closed s)" "x = Inl (subscription_error s fb)" "s' = s"
  | (expired) "\<exists>e. ctx = Some e \<and> x = Inl e" "s' = s"
proof -
  consider
    "(x, s') \<in> set (case ev_buf s of e # es \<Rightarrow> [(Inr e, s\<lparr>ev_buf := es\<rparr>)]
      | [] \<Rightarrow> if ch_closed (ev_closed s) then [(Inl (subscription_error s fb), s)] else [])"
  | "(x, s') \<in> set (case er_buf s of e # es \<Rightarrow> [(Inl e, s\<lparr>er_buf := es\<rparr>)]
      | [] \<Rightarrow> if ch_closed (er_closed s) then [(Inl (subscription_error s fb), s)] else [])"
  | "(x, s') \<in> set (case ctx of None \<Rightarrow> [] | Some e \<Rightarrow> [(Inl e, s)])"
    using assms unfolding next_event_def by auto
  then show thesis
  proof cases
    case 1
    then show thesis using event ended by (cases "ev_buf s") (auto split: if_splits)
  next
    case 2
    then show thesis using failure ended by (cases "er_buf s") (auto split: if_splits)
  next
    case 3
    then show thesis using expired by (cases ctx) auto
  qed
qed

lemma next_event_ok:
  assumes "sub_ok s" "(x, s') \<in> set (next_event ctx fb s)"
  shows "sub_ok s'" and "sub_open s \<Longrightarrow> sub_open s'"
  using assms(2,1)
  by (cases rule: next_event_cases,
      auto simp: sub_ok_def sub_open_def sub_ended_def sub_stillborn_def)+

text \<open>The error that ended a subscriber, if any, as a cell that is written once.\<close>

definition sub_outcome :: "subscriber \<Rightarrow> gerr option option" where
  "sub_outcome s = (if sub_once s then Some (sub_err s) else None)"

interpretation sub_end: write_once close_subscriber sub_outcome
  by unfold_locales (auto simp: close_subscriber_def sub_outcome_def split: if_splits)


section \<open>A subscription as a state machine\<close>

text \<open>
  The state is the subscriber, the events the reader queued on it and the events its owner
  has received.  The reader reaches the subscriber only while it is registered, that is,
  while it has not been ended.
\<close>

type_synonym sub_run = "subscriber \<times> event list \<times> event list"

inductive sub_step :: "sub_run \<Rightarrow> sub_run \<Rightarrow> bool" where
  queue: "\<not> sub_once s \<Longrightarrow> Queued s' \<in> set (deliver e s) \<Longrightarrow> sub_step (s, q, t) (s', q @ [e], t)"
| overflow: "\<not> sub_once s \<Longrightarrow> Full \<in> set (deliver e s) \<Longrightarrow>
    sub_step (s, q, t) (close_subscriber (Some (Sent ErrSubscriberOverflow)) s, q, t)"
| ends: "sub_step (s, q, t) (close_subscriber err s, q, t)"
| receive: "(Inr e, s') \<in> set (next_event ctx fb s) \<Longrightarrow> sub_step (s, q, t) (s', q, t @ [e])"
| failed: "(Inl e, s') \<in> set (next_event ctx fb s) \<Longrightarrow> sub_step (s, q, t) (s', q, t)"

inductive_cases sub_stepE [consumes 1, case_names queue overflow ends receive failed]: "sub_step (s, q, t) z"

definition sub_start :: "sub_run \<Rightarrow> bool" where
  "sub_start r = (\<exists>n turn. r = (new_subscriber n turn, [], []))"

definition sub_inv :: "sub_run \<Rightarrow> bool" where
  "sub_inv r = (case r of (s, q, t) \<Rightarrow> (sub_open s \<or> sub_ended s) \<and> q = t @ ev_buf s)"

lemma sub_inv_step:
  assumes "sub_step x y" "sub_inv x" shows "sub_inv y"
proof -
  obtain s q t where x: "x = (s, q, t)" by (metis prod_cases3)
  have live: "sub_open s \<or> sub_ended s" and q: "q = t @ ev_buf s"
    using assms(2) by (simp_all add: sub_inv_def x)
  have buf: "ev_buf (close_subscriber err s) = ev_buf s" for err
    by (simp add: close_subscriber_def)
  have cl: "sub_open (close_subscriber err s) \<or> sub_ended (close_subscriber err s)" for err
    using live close_open close_ended by metis
  show ?thesis
    using assms(1) unfolding x
  proof (cases rule: sub_stepE)
    case (queue s' e)
    then have "sub_open s" using live by (auto simp: sub_ended_def)
    then show ?thesis using queue q queued_open
      by (auto simp: sub_inv_def deliver_open split: if_splits)
  next
    case (receive e s')
    from receive(2) show ?thesis
    proof (cases rule: next_event_cases)
      case (event e' es)
      then show ?thesis using receive(1) live q
        by (auto simp: sub_inv_def sub_open_def sub_ended_def)
    qed simp_all
  next
    case (failed e s')
    from failed(2) show ?thesis
    proof (cases rule: next_event_cases)
      case (failure e' es)
      then show ?thesis using failed(1) live q
        by (auto simp: sub_inv_def sub_open_def sub_ended_def)
    qed (use failed(1) live q in \<open>auto simp: sub_inv_def\<close>)
  qed (use q buf cl in \<open>auto simp: sub_inv_def\<close>)
qed

interpretation sub_machine: invariant_machine sub_start sub_step sub_inv
proof
  show "sub_start s \<Longrightarrow> sub_inv s" for s
    using new_subscriber_open by (auto simp: sub_start_def sub_inv_def new_subscriber_def)
qed (rule sub_inv_step)

text \<open>C32: along every run of a subscription, what its owner received is what the reader queued, in order, up to
  the events still buffered, of which there are never more than the capacity; none of its
  channels is closed twice, and as long as it is registered the reader's send never hits a
  closed channel.\<close>

theorem subscription_fifo:
  assumes "sub_step\<^sup>*\<^sup>* (new_subscriber n turn, [], []) (s, q, t)"
  shows "q = t @ ev_buf s \<and> length (ev_buf s) \<le> ev_cap s \<and>
    ev_closed s \<le> 1 \<and> er_closed s \<le> 1 \<and> done_closed s \<le> 1 \<and>
    (\<not> sub_once s \<longrightarrow> SendOnClosed \<notin> set (deliver e s) \<and> Gone \<notin> set (deliver e s))"
proof -
  have "sub_start (new_subscriber n turn, [], [])" by (auto simp: sub_start_def)
  then have "sub_inv (s, q, t)" using assms by (rule sub_machine.inv_reach)
  then show ?thesis
    by (auto simp: sub_inv_def sub_open_def sub_ended_def deliver_def)
qed

theorem subscription_fifo_witness:
  "\<forall>e. \<exists>s. sub_step\<^sup>*\<^sup>* (new_subscriber 1 False, [], []) (s, [e], []) \<and> ev_buf s = [e]"
proof
  fix e
  let ?s = "(new_subscriber 1 False)\<lparr>ev_buf := [e]\<rparr>"
  have "sub_step (new_subscriber 1 False, [], []) (?s, [] @ [e], [])"
    by (rule sub_step.queue) (simp_all add: deliver_def new_subscriber_def)
  then have r: "sub_step\<^sup>*\<^sup>* (new_subscriber 1 False, [], []) (?s, [e], [])" by simp
  with subscription_fifo [OF r, of e]
  show "\<exists>s. sub_step\<^sup>*\<^sup>* (new_subscriber 1 False, [], []) (s, [e], []) \<and> ev_buf s = [e]" by auto
qed

text \<open>A subscription that ended with an error while events were still buffered gives its owner either the
  next event or the error, whichever Go picks; only a subscription closed by its owner first
  hands out every event.  Once an ended subscription is drained every further call reports the
  error that ended it.\<close>

theorem next_after_end:
  assumes "sub_open s"
  shows "next_event None fb (close_subscriber (Some err) s) =
      (case ev_buf s of
         e # es \<Rightarrow> [(Inr e, (close_subscriber (Some err) s)\<lparr>ev_buf := es\<rparr>)]
       | [] \<Rightarrow> [(Inl err, close_subscriber (Some err) s)])
      @ [(Inl err, (close_subscriber (Some err) s)\<lparr>er_buf := []\<rparr>)] \<and>
    set (map fst (next_event None fb ((close_subscriber (Some err) s)\<lparr>ev_buf := [], er_buf := []\<rparr>))) = {Inl err}"
  using assms
  by (auto simp: next_event_def close_subscriber_def sub_open_def subscription_error_def split: list.splits)

theorem next_after_end_witness:
  "\<forall>e fb. (Inl (Sent ErrDisconnected), (close_subscriber (Some (Sent ErrDisconnected))
      ((new_subscriber 1 True)\<lparr>ev_buf := [e]\<rparr>))\<lparr>er_buf := []\<rparr>)
   \<in> set (next_event None fb (close_subscriber (Some (Sent ErrDisconnected)) ((new_subscriber 1 True)\<lparr>ev_buf := [e]\<rparr>)))"
proof (intro allI)
  fix e fb
  have "sub_open ((new_subscriber 1 True)\<lparr>ev_buf := [e]\<rparr>)"
    by (simp add: new_subscriber_def sub_open_def)
  from next_after_end [OF this]
  show "(Inl (Sent ErrDisconnected), (close_subscriber (Some (Sent ErrDisconnected))
      ((new_subscriber 1 True)\<lparr>ev_buf := [e]\<rparr>))\<lparr>er_buf := []\<rparr>)
   \<in> set (next_event None fb (close_subscriber (Some (Sent ErrDisconnected)) ((new_subscriber 1 True)\<lparr>ev_buf := [e]\<rparr>)))"
    by simp
qed

end
