(* ===== verification/Client.thy ===== *)
theory Client imports Subscription "HOL-Library.AList" begin

text \<open>
  \<^verbatim>\<open>client.go\<close>: the client, its requests, its reader, its disconnection, its closing and its
  explicit reconnection, with every goroutine interleaving.

  Objects shared between goroutines (reply channels, subscribers, transports, exit monitors)
  live in heaps, lists indexed by a reference.  A goroutine is a list of actions, each of them
  one critical section, one atomic read or one channel operation of the source; an action that
  cannot proceed (a lock that is held, a channel that is not ready) has no step.  What the
  environment decides (bytes read, write errors, contexts that expire, a branch of a
  \<^verbatim>\<open>select\<close>) is the \<open>choice\<close> of a step.
\<close>

section \<open>Data\<close>

datatype cstate =
    StateConnecting | StateConnected | StateDisconnected | StateReconnecting
  | StateClosing | StateClosed

record observation =
  OKind :: string
  OState :: "cstate option"
  ORequest :: string
  OError :: string
  OAttempts :: int
  OEventKind :: string
  OEventType :: string
  ODisposition :: string
  OOutcome :: string

definition obs :: "string \<Rightarrow> observation" where
  "obs k = \<lparr>OKind = k, OState = None, ORequest = [], OError = [], OAttempts = 0,
     OEventKind = [], OEventType = [], ODisposition = [], OOutcome = []\<rparr>"

record options =
  ClientName :: string
  MaxFrameSize :: int
  EventBuffer :: int
  RequestBuffer :: int
  RequestTimeout :: int
  OSession :: string
  HasFactory :: bool
  MaxAttempts :: int
  Backoff :: int
  MaxBackoff :: int
  Resume :: bool

definition second :: int where "second = 1000000000"

definition with_defaults :: "options \<Rightarrow> options" where
  "with_defaults o1 =
     (let o2 = (if ClientName o1 = [] then o1\<lparr>ClientName := ''jcode-sdk-go''\<rparr> else o1);
          o3 = (if EventBuffer o2 \<le> 0 then o2\<lparr>EventBuffer := 128\<rparr> else o2);
          o4 = (if RequestBuffer o3 \<le> 0 then o3\<lparr>RequestBuffer := 1\<rparr> else o3);
          o5 = (if RequestTimeout o4 \<le> 0 then o4\<lparr>RequestTimeout := 30 * second\<rparr> else o4);
          o6 = (if MaxAttempts o5 \<le> 0 then o5\<lparr>MaxAttempts := 1\<rparr> else o5)
      in if MaxBackoff o6 \<le> 0 then o6\<lparr>MaxBackoff := 30 * second\<rparr> else o6)"

text \<open>A reply channel has room for one frame.\<close>

record rchan =
  r_buf :: "server_frame option"
  r_closed :: closes

definition fresh_rchan :: rchan where
  "fresh_rchan = \<lparr>r_buf = None, r_closed = 0\<rparr>"

text \<open>Operations that panic in Go: on a reply channel, on an event channel, on the client's closed channel.\<close>

datatype panic = ReplyPanic | EventPanic | ClosedPanic

datatype once = OnceNew | OnceRunning | OnceDone

text \<open>
  \<open>c_observed\<close>, \<open>c_shutdowns\<close> and \<open>c_handed\<close> record the calls of reply observers, the private
  instances shut down and those handed over by a detach; \<open>c_panics\<close> records every send on a
  closed channel and every second close of one.
\<close>

record client =
  c_options :: options
  c_state :: cstate
  c_transport :: nat
  c_transports :: "safe list"
  c_caps :: "string list"
  c_session :: string
  c_pending :: "(u64 \<times> nat \<times> nat option) list"
  c_replies :: "rchan list"
  c_observed :: "(nat \<times> server_frame) list"
  c_subs :: "(u64 \<times> nat) list"
  c_objs :: "subscriber list"
  c_next_id :: u64
  c_next_sub :: u64
  c_closed :: closes
  c_once :: once
  c_close_err :: "gerr option"
  c_instance :: "nat option"
  c_shutdowns :: "nat list"
  c_handed :: "nat list"
  c_monitor :: "nat option"
  c_monitors :: "closes list"
  c_reconnect_mu :: bool
  c_write_mu :: bool
  c_log :: "observation list"
  c_panics :: "panic list"

datatype ret =
    NoRet
  | RFrame "gerr + server_frame"
  | REvent "gerr + event"
  | RErr "gerr option"
  | RInstance "nat option"

datatype choice =
    Go
  | Fails gerr
  | Input "gerr + string"
  | ReplyReady
  | CtxDone gerr
  | ClosedSeen
  | Expired

text \<open>The actions of requests, of the reader, of a disconnection, of a close, of the other calls and of reconnecting.\<close>

datatype rq_act =
    RqRegister raw_request "nat option"
  | RqEncoder u64 nat raw_request
  | RqWrite nat u64 nat raw_request
  | RqRemove u64
  | RqWait u64 nat raw_request
  | NtEncoder raw_request
  | NtWrite nat u64 raw_request

datatype rd_act =
    RdRead nat
  | RdTake u64 server_frame nat
  | RdObserve nat server_frame
  | RdSend nat server_frame
  | RdDispatch event

datatype dc_act =
    DcEnter gerr bool
  | DcTransport gerr
  | SwapPending
  | CloseReply nat
  | DcSubs gerr bool

datatype cl_act =
    ClEnter gerr
  | ClState gerr
  | ClSignal gerr
  | ReadTransport
  | CloseTransport nat
  | ClSubs gerr
  | ClShutdown nat
  | ClDone
  | CloseErr

datatype us_act =
    Subscribe nat bool
  | Unsubscribe u64
  | NextEvent nat
  | SetSession string
  | SetInstance nat bool
  | Detach
  | WatchBridge nat
  | BridgeExited nat
  | GateCapability string raw_request

datatype rc_act =
    HsCheck
  | NcDone
  | RcEnter
  | RcLoop int "gerr option" int
  | RcTimer int "gerr option" int
  | RcFactory int int
  | RcInstall nat
  | RcHandshook int int nat
  | RcResume int int nat
  | RcResumed int int nat

datatype act =
    IfState cstate "act list" "act list"
  | IfClosed "act list" "act list"
  | SetState cstate
  | Emit observation
  | UnlockReconnect
  | Return ret
  | Spawn "act list"
  | Rq rq_act
  | Rd rd_act
  | Dc dc_act
  | Cl cl_act
  | Us us_act
  | Rc rc_act

section \<open>Operations on the client\<close>

definition panic :: "panic \<Rightarrow> client \<Rightarrow> client" where
  "panic p c = c\<lparr>c_panics := c_panics c @ [p]\<rparr>"

definition emit :: "observation \<Rightarrow> client \<Rightarrow> client" where
  "emit ob c = c\<lparr>c_log := c_log c @ [ob]\<rparr>"

definition set_state :: "cstate \<Rightarrow> client \<Rightarrow> client" where
  "set_state s c = emit ((obs ''state'')\<lparr>OState := Some s\<rparr>) (c\<lparr>c_state := s\<rparr>)"

definition error_kind :: "gerr \<Rightarrow> string" where
  "error_kind e =
     (if err_is e Err_EOF then ''eof''
      else if err_is e ErrFrameTooLarge then ''frame_too_large''
      else if err_is e ErrTransportClosed then ''transport_closed''
      else ''transport_error'')"

definition request_context_error :: "gerr \<Rightarrow> string" where
  "request_context_error e =
     (if err_is e Ctx_DeadlineExceeded then ''deadline_exceeded''
      else if err_is e Ctx_Canceled then ''canceled''
      else ''context_done'')"

definition max_frame :: "options \<Rightarrow> int" where
  "max_frame opt = (if 0 < MaxFrameSize opt then MaxFrameSize opt else default_max_frame_size)"

definition install_decoder :: "nat \<Rightarrow> client \<Rightarrow> client" where
  "install_decoder g c = c\<lparr>c_transport := g\<rparr>"

definition supports :: "string \<Rightarrow> client \<Rightarrow> bool" where
  "supports capability c = (capability \<in> set (c_caps c))"

definition capabilities :: "client \<Rightarrow> string list" where
  "capabilities c = sort (remdups (c_caps c))"

definition require_capability :: "string \<Rightarrow> client \<Rightarrow> gerr option" where
  "require_capability capability c =
     (if supports capability c then None else Some (WrapE capability (Sent ErrCapability)))"

subsection \<open>Requests\<close>

definition register_request :: "nat option \<Rightarrow> client \<Rightarrow> u64 \<times> nat \<times> client" where
  "register_request on_reply c =
     (let i = c_next_id c + 1; ref = length (c_replies c) in
      (i, ref, c\<lparr>c_next_id := i, c_replies := c_replies c @ [fresh_rchan],
                 c_pending := AList.update i (ref, on_reply) (c_pending c)\<rparr>))"

definition remove_pending :: "u64 \<Rightarrow> client \<Rightarrow> client" where
  "remove_pending i c = c\<lparr>c_pending := AList.delete i (c_pending c)\<rparr>"

text \<open>Writing through the encoder of transport \<open>g\<close>; a closed transport refuses every write.\<close>

definition transport_writer :: "nat \<Rightarrow> gerr option \<Rightarrow> client writer" where
  "transport_writer g failed p c =
     (let t = c_transports c ! g;
          answer = (if failed = None \<and> s_once t then Some (Sent ErrTransportClosed) else failed);
          (err, t') = safe_write answer p t
      in (err, c\<lparr>c_transports := (c_transports c)[g := t']\<rparr>))"

definition write_failure :: "choice \<Rightarrow> gerr option" where
  "write_failure ch = (case ch of Fails e \<Rightarrow> Some e | _ \<Rightarrow> None)"

definition write_frame :: "choice \<Rightarrow> nat \<Rightarrow> u64 \<Rightarrow> raw_request \<Rightarrow> client \<Rightarrow> gerr option \<times> client" where
  "write_frame ch g i req c =
     encoder_write (max_frame (c_options c)) (transport_writer g (write_failure ch))
       (client_frame_marshal \<lparr>CV = api_version_major, CID = i, Request = req\<rparr>) c"

definition take_pending :: "u64 \<Rightarrow> client \<Rightarrow> (nat \<times> nat option) option \<times> client" where
  "take_pending i c = (map_of (c_pending c) i, remove_pending i c)"

definition swap_pending :: "client \<Rightarrow> nat list \<times> client" where
  "swap_pending c = (map (\<lambda>(_, ref, _). ref) (c_pending c), c\<lparr>c_pending := []\<rparr>)"

definition close_reply :: "nat \<Rightarrow> client \<Rightarrow> client" where
  "close_reply ref c =
     (let ch = c_replies c ! ref in
      if ch_closed (r_closed ch) then panic ReplyPanic c
      else c\<lparr>c_replies := (c_replies c)[ref := ch\<lparr>r_closed := ch_close (r_closed ch)\<rparr>]\<rparr>)"

text \<open>\<^verbatim>\<open>pending.reply <- frame\<close>: \<open>None\<close> while the buffer is full.\<close>

definition send_reply :: "nat \<Rightarrow> server_frame \<Rightarrow> client \<Rightarrow> client option" where
  "send_reply ref f c =
     (let ch = c_replies c ! ref in
      if ch_closed (r_closed ch) then Some (panic ReplyPanic c)
      else if r_buf ch \<noteq> None then None
      else Some (c\<lparr>c_replies := (c_replies c)[ref := ch\<lparr>r_buf := Some f\<rparr>]\<rparr>))"

subsection \<open>Subscribers\<close>

definition subscribe_owned :: "nat \<Rightarrow> bool \<Rightarrow> client \<Rightarrow> client" where
  "subscribe_owned buffer turn c =
     (let s = new_subscriber buffer turn; i = c_next_sub c + 1; ref = length (c_objs c) in
      if ch_closed (c_closed c)
      then c\<lparr>c_next_sub := i, c_objs := c_objs c @ [closed_subscriber (Sent ErrClosed) s]\<rparr>
      else c\<lparr>c_next_sub := i, c_objs := c_objs c @ [s], c_subs := AList.update i ref (c_subs c)\<rparr>)"

definition close_subscriber_locked :: "u64 \<Rightarrow> nat \<Rightarrow> gerr option \<Rightarrow> client \<Rightarrow> client" where
  "close_subscriber_locked i ref err c =
     c\<lparr>c_subs := AList.delete i (c_subs c),
       c_objs := (c_objs c)[ref := close_subscriber err (c_objs c ! ref)]\<rparr>"

definition unsubscribe :: "u64 \<Rightarrow> client \<Rightarrow> client" where
  "unsubscribe i c =
     (case map_of (c_subs c) i of
        None \<Rightarrow> c
      | Some ref \<Rightarrow> close_subscriber_locked i ref None c)"

definition fail_subscribers :: "(subscriber \<Rightarrow> bool) \<Rightarrow> gerr \<Rightarrow> client \<Rightarrow> client" where
  "fail_subscribers p err c =
     fold (\<lambda>(i, ref) c. if p (c_objs c ! ref) then close_subscriber_locked i ref (Some err) c else c)
       (c_subs c) c"

definition fail_turn_subscribers :: "gerr \<Rightarrow> client \<Rightarrow> client" where
  "fail_turn_subscribers err = fail_subscribers sub_turn err"

text \<open>
  One subscriber's turn in the reader's loop.  Its \<^verbatim>\<open>select\<close> has a single ready case on every
  registered subscriber, as \<open>dispatch_ready\<close> shows; the first is taken here.
\<close>

definition dispatch_one :: "event \<Rightarrow> u64 \<times> nat \<Rightarrow> client \<Rightarrow> client" where
  "dispatch_one e x c =
     (case x of (i, ref) \<Rightarrow>
       (case hd (deliver e (c_objs c ! ref)) of
          Gone \<Rightarrow> c\<lparr>c_subs := AList.delete i (c_subs c)\<rparr>
        | Queued s \<Rightarrow> c\<lparr>c_objs := (c_objs c)[ref := s]\<rparr>
        | Full \<Rightarrow> close_subscriber_locked i ref (Some (Sent ErrSubscriberOverflow)) c
        | SendOnClosed \<Rightarrow> panic EventPanic c))"

definition dispatch_event :: "event \<Rightarrow> client \<Rightarrow> client" where
  "dispatch_event e c = fold (dispatch_one e) (c_subs c) c"

definition state_error :: "client \<Rightarrow> gerr" where
  "state_error c = Sent (if c_state c = StateClosed then ErrClosed else ErrDisconnected)"

subsection \<open>Private instances\<close>

definition cancel_monitor :: "client \<Rightarrow> client" where
  "cancel_monitor c =
     (case c_monitor c of None \<Rightarrow> c
      | Some m \<Rightarrow> c\<lparr>c_monitors := (c_monitors c)[m := (if c_monitors c ! m = 0 then 1 else c_monitors c ! m)],
                    c_monitor := None\<rparr>)"

definition set_instance :: "nat \<Rightarrow> bool \<Rightarrow> client \<Rightarrow> nat option \<times> client" where
  "set_instance inst watched c =
     (let c1 = cancel_monitor c; m = length (c_monitors c1) in
      if watched
      then (Some m, c1\<lparr>c_instance := Some inst, c_monitors := c_monitors c1 @ [0], c_monitor := Some m\<rparr>)
      else (None, c1\<lparr>c_instance := Some inst\<rparr>))"

definition detach_instance :: "client \<Rightarrow> nat option \<times> client" where
  "detach_instance c =
     (if c_instance c = None \<or> c_state c = StateClosing \<or> c_state c = StateClosed then (None, c)
      else (c_instance c,
            (cancel_monitor c)\<lparr>c_instance := None,
              c_handed := c_handed c @ (case c_instance c of None \<Rightarrow> [] | Some x \<Rightarrow> [x])\<rparr>))"

definition bridge_exited :: "nat \<Rightarrow> client \<Rightarrow> client" where
  "bridge_exited m c =
     (if c_monitor c \<noteq> Some m \<or> c_instance c = None \<or> c_state c = StateClosing \<or> c_state c = StateClosed
      then c
      else if ch_closed (c_monitors c ! m) then c
      else (fail_turn_subscribers (Sent ErrBridgeExited) c)\<lparr>c_monitor := None\<rparr>)"

subsection \<open>Handshake and resumption\<close>

definition hello_fields :: "options \<Rightarrow> json" where
  "hello_fields opt =
     JObj [(''min_version'', JNum ''1''), (''max_version'', JNum ''1''), (''client'', JStr (ClientName opt))]"

definition check_hello :: "gerr + server_frame \<Rightarrow> gerr + string list" where
  "check_hello r =
     (case r of
        Inl err \<Rightarrow> Inl err
      | Inr f \<Rightarrow>
          (case Event f of
             ErrorEv code msg _ \<Rightarrow> Inl (Plain (''hello failed: '' @ code @ '': '' @ msg))
           | HelloOK v _ caps \<Rightarrow>
               if is_compatible_version v then Inr caps
               else Inl (Plain (''unsupported server API version '' @ int_text v))
           | _ \<Rightarrow> Inl (Plain ''unexpected hello reply'')))"

definition check_resume :: "gerr + server_frame \<Rightarrow> gerr option" where
  "check_resume r =
     (case r of
        Inl err \<Rightarrow> Some (WrapE ''resume'' (Sent ErrResume))
      | Inr f \<Rightarrow>
          (case Event f of
             ErrorEv _ _ _ \<Rightarrow> Some (WrapE ''server rejected session'' (Sent ErrResume))
           | _ \<Rightarrow> None))"

definition next_backoff :: "int \<Rightarrow> int \<Rightarrow> int" where
  "next_backoff backoff max_backoff =
     (if backoff < max_backoff
      then (let b = goint (backoff * 2) in if max_backoff < b then max_backoff else b)
      else backoff)"

end
