(* ===== verification/Goroutines.thy ===== *)
theory Goroutines imports Client begin

text \<open>
  The goroutines of \<^verbatim>\<open>client.go\<close>: for every function the actions it performs, for every
  action its effect, and the step relation of a client with all its goroutines.
\<close>

section \<open>Functions as action sequences\<close>

definition return_error :: "gerr \<Rightarrow> act" where
  "return_error e = Return (RFrame (Inl e))"

text \<open>\<^verbatim>\<open>requestStateError\<close> reads the state a second time.\<close>

definition request_state_error :: "(gerr \<Rightarrow> ret) \<Rightarrow> act" where
  "request_state_error r =
     IfState StateClosed [Return (r (Sent ErrClosed))] [Return (r (Sent ErrDisconnected))]"

definition request_acts :: "bool \<Rightarrow> raw_request \<Rightarrow> nat option \<Rightarrow> act list" where
  "request_acts allow_connecting req on_reply =
     (let body = [IfClosed [return_error (Sent ErrClosed)] [Rq (RqRegister req on_reply)]] in
      if allow_connecting then body
      else [IfState StateConnected body [request_state_error (\<lambda>e. RFrame (Inl e))]])"

definition notify_acts :: "raw_request \<Rightarrow> act list" where
  "notify_acts req =
     [IfState StateConnected
        [IfClosed [Return (RErr (Some (Sent ErrClosed)))] [Rq (NtEncoder req)]]
        [request_state_error (\<lambda>e. RErr (Some e))]]"

definition disconnect_body :: "gerr \<Rightarrow> bool \<Rightarrow> act list" where
  "disconnect_body err terminal =
     [IfState StateDisconnected [] [SetState StateDisconnected],
      Dc (DcTransport err), Dc SwapPending, Dc (DcSubs err terminal), UnlockReconnect]"

definition disconnect_acts :: "gerr \<Rightarrow> bool \<Rightarrow> act list" where
  "disconnect_acts err terminal =
     [IfState StateClosed [UnlockReconnect]
        [IfState StateClosing [UnlockReconnect]
           (if terminal then disconnect_body err terminal
            else [IfState StateDisconnected [UnlockReconnect] (disconnect_body err terminal)])]]"

definition read_loop_acts :: "nat \<Rightarrow> act list" where
  "read_loop_acts g = [Rd (RdRead g)]"

text \<open>What the reader does with the result of \<^verbatim>\<open>ReadFrame\<close>.\<close>

definition reader_acts :: "nat \<Rightarrow> gerr + string \<Rightarrow> act list" where
  "reader_acts g input =
     (case input of
        Inl err \<Rightarrow>
          [IfState StateClosed []
             [IfState StateClosing []
                [Dc (DcEnter err (err_is err ErrMalformedFrame \<or> err_is err ErrFrameTooLarge))]]]
      | Inr data \<Rightarrow>
          (case decode_server_frame data of
             Inl err \<Rightarrow> [Dc (DcEnter err True)]
           | Inr frame \<Rightarrow>
               (case ReplyTo frame of
                  Some i \<Rightarrow> [Rd (RdTake i frame g)]
                | None \<Rightarrow> Rd (RdDispatch (event_of_frame frame)) # read_loop_acts g)))"

definition close_acts :: "gerr \<Rightarrow> act list" where
  "close_acts err = [Cl (ClEnter err), Cl CloseErr]"

definition handshake_acts :: "options \<Rightarrow> act list" where
  "handshake_acts opt =
     (case new_raw_request ''hello'' (Inr (hello_fields opt)) of
        Inl err \<Rightarrow> [return_error err]
      | Inr req \<Rightarrow> request_acts True req None) @ [Rc HsCheck]"

definition resume_acts :: "string \<Rightarrow> act list" where
  "resume_acts session =
     (case new_raw_request ''attach_session'' (Inr (JObj [(''session_id'', JStr session)])) of
        Inl err \<Rightarrow> [return_error err]
      | Inr req \<Rightarrow> request_acts True req None)"

section \<open>Effects of the actions\<close>

text \<open>
  A step gives the client, the value the goroutine's last call returned, and the actions that
  take the place of the action; there is no result where the action cannot proceed.
\<close>

type_synonym step_result = "(client \<times> ret \<times> act list) option"

definition request_obs :: "string \<Rightarrow> raw_request \<Rightarrow> string \<Rightarrow> observation" where
  "request_obs k req err = (obs k)\<lparr>ORequest := Req req, OError := err\<rparr>"

fun rq_step :: "choice \<Rightarrow> ret \<Rightarrow> rq_act \<Rightarrow> client \<Rightarrow> step_result" where
  "rq_step ch r (RqRegister req on_reply) c =
     (case register_request on_reply c of (i, ref, c') \<Rightarrow> Some (c', r, [Rq (RqEncoder i ref req)]))"
| "rq_step ch r (RqEncoder i ref req) c =
     (if c_write_mu c then None
      else Some (emit (request_obs ''request_write_start'' req []) (c\<lparr>c_write_mu := True\<rparr>), r,
                 [Rq (RqWrite (c_transport c) i ref req)]))"
| "rq_step ch r (RqWrite g i ref req) c =
     (case write_frame ch g i req c of
        (None, c') \<Rightarrow>
          Some (emit (request_obs ''request'' req [])
                  (emit (request_obs ''request_write_complete'' req []) (c'\<lparr>c_write_mu := False\<rparr>)),
                r, [Rq (RqWait i ref req)])
      | (Some err, c') \<Rightarrow>
          Some (emit (request_obs ''request'' req [])
                  (emit (request_obs ''request_write_error'' req (error_kind err)) (c'\<lparr>c_write_mu := False\<rparr>)),
                r, [Rq (RqRemove i), Dc (DcEnter err False), return_error err]))"
| "rq_step ch r (RqRemove i) c = Some (remove_pending i c, r, [])"
| "rq_step ch r (RqWait i ref req) c =
     (case ch of
        ReplyReady \<Rightarrow>
          (case r_buf (c_replies c ! ref) of
             Some f \<Rightarrow>
               Some (emit (request_obs ''request_reply'' req [])
                       (c\<lparr>c_replies := (c_replies c)[ref := (c_replies c ! ref)\<lparr>r_buf := None\<rparr>]\<rparr>),
                     RFrame (Inr f), [])
           | None \<Rightarrow>
               if ch_closed (r_closed (c_replies c ! ref))
               then Some (emit (request_obs ''request_error'' req ''disconnected'') c,
                          RFrame (Inl (Sent ErrDisconnected)), [])
               else None)
      | CtxDone e \<Rightarrow>
          Some (c, r, [Rq (RqRemove i),
                       Emit (request_obs ''request_timeout'' req (request_context_error e)), return_error e])
      | ClosedSeen \<Rightarrow>
          if ch_closed (c_closed c)
          then Some (c, r, [Rq (RqRemove i), Emit (request_obs ''request_error'' req ''closed''),
                            return_error (Sent ErrClosed)])
          else None
      | _ \<Rightarrow> None)"
| "rq_step ch r (NtEncoder req) c =
     (if c_write_mu c then None
      else (let i = c_next_id c + 1 in
            Some (c\<lparr>c_next_id := i, c_write_mu := True\<rparr>, r, [Rq (NtWrite (c_transport c) i req)])))"
| "rq_step ch r (NtWrite g i req) c =
     (case write_frame ch g i req c of (err, c') \<Rightarrow>
        Some (emit (request_obs ''request'' req []) (c'\<lparr>c_write_mu := False\<rparr>), r,
              (case err of None \<Rightarrow> [] | Some e \<Rightarrow> [Dc (DcEnter e False)]) @ [Return (RErr err)]))"

fun rd_step :: "choice \<Rightarrow> ret \<Rightarrow> rd_act \<Rightarrow> client \<Rightarrow> step_result" where
  "rd_step ch r (RdRead g) c =
     (case ch of Input input \<Rightarrow> Some (c, r, reader_acts g input) | _ \<Rightarrow> None)"
| "rd_step ch r (RdTake i f g) c =
     (case take_pending i c of
        (None, c') \<Rightarrow> Some (c, r, read_loop_acts g)
      | (Some (ref, on_reply), c') \<Rightarrow>
          Some (c', r, (case on_reply of None \<Rightarrow> [] | Some t \<Rightarrow> [Rd (RdObserve t f)])
                       @ Rd (RdSend ref f) # read_loop_acts g))"
| "rd_step ch r (RdObserve t f) c = Some (c\<lparr>c_observed := c_observed c @ [(t, f)]\<rparr>, r, [])"
| "rd_step ch r (RdSend ref f) c =
     (case send_reply ref f c of None \<Rightarrow> None | Some c' \<Rightarrow> Some (c', r, []))"
| "rd_step ch r (RdDispatch e) c = Some (dispatch_event e c, r, [])"

definition close_transport :: "nat \<Rightarrow> client \<Rightarrow> client" where
  "close_transport g c =
     c\<lparr>c_transports := (c_transports c)[g := snd (safe_close None (c_transports c ! g))]\<rparr>"

fun dc_step :: "choice \<Rightarrow> ret \<Rightarrow> dc_act \<Rightarrow> client \<Rightarrow> step_result" where
  "dc_step ch r (DcEnter err terminal) c =
     (if c_reconnect_mu c then None
      else Some (c\<lparr>c_reconnect_mu := True\<rparr>, r, disconnect_acts err terminal))"
| "dc_step ch r (DcTransport err) c =
     Some (close_transport (c_transport c) (emit ((obs ''disconnect'')\<lparr>OError := error_kind err\<rparr>) c), r, [])"
| "dc_step ch r SwapPending c =
     (case swap_pending c of (refs, c') \<Rightarrow> Some (c', r, map (\<lambda>ref. Dc (CloseReply ref)) refs))"
| "dc_step ch r (CloseReply ref) c = Some (close_reply ref c, r, [])"
| "dc_step ch r (DcSubs err terminal) c =
     Some (if terminal then fail_subscribers (\<lambda>_. True) err c
           else fail_turn_subscribers (Sent ErrDisconnected) c, r, [])"

fun cl_step :: "choice \<Rightarrow> ret \<Rightarrow> cl_act \<Rightarrow> client \<Rightarrow> step_result" where
  "cl_step ch r (ClEnter err) c =
     (case c_once c of
        OnceNew \<Rightarrow> Some (c\<lparr>c_once := OnceRunning\<rparr>, r, [Cl (ClState err)])
      | OnceRunning \<Rightarrow> None
      | OnceDone \<Rightarrow> Some (c, r, []))"
| "cl_step ch r (ClState err) c =
     Some ((cancel_monitor (c\<lparr>c_state := StateClosing\<rparr>))\<lparr>c_instance := None\<rparr>, r,
           [Emit ((obs ''state'')\<lparr>OState := Some StateClosing\<rparr>), Cl (ClSignal err), Cl ReadTransport,
            Dc SwapPending, Cl (ClSubs err), SetState StateClosed]
           @ (case c_instance c of None \<Rightarrow> [] | Some inst \<Rightarrow> [Cl (ClShutdown inst)]) @ [Cl ClDone])"
| "cl_step ch r (ClSignal err) c =
     Some (if ch_closed (c_closed c) then panic ClosedPanic (c\<lparr>c_close_err := Some err\<rparr>)
           else c\<lparr>c_close_err := Some err, c_closed := ch_close (c_closed c)\<rparr>, r, [])"
| "cl_step ch r ReadTransport c = Some (c, r, [Cl (CloseTransport (c_transport c))])"
| "cl_step ch r (CloseTransport g) c = Some (close_transport g c, r, [])"
| "cl_step ch r (ClSubs err) c = Some (fail_subscribers (\<lambda>_. True) err c, r, [])"
| "cl_step ch r (ClShutdown inst) c = Some (c\<lparr>c_shutdowns := c_shutdowns c @ [inst]\<rparr>, r, [])"
| "cl_step ch r ClDone c = Some (c\<lparr>c_once := OnceDone\<rparr>, r, [])"
| "cl_step ch r CloseErr c = Some (c, RErr (c_close_err c), [])"

text \<open>
  \<open>NextEvent\<close> takes the first outcome the subscription has for the context error of the
  choice; \<open>Expired\<close> takes the last, so that both sides of a race are steps.
\<close>

fun us_step :: "choice \<Rightarrow> ret \<Rightarrow> us_act \<Rightarrow> client \<Rightarrow> step_result" where
  "us_step ch r (Subscribe buffer turn) c = Some (subscribe_owned buffer turn c, r, [])"
| "us_step ch r (Unsubscribe i) c = Some (unsubscribe i c, r, [])"
| "us_step ch r (NextEvent ref) c =
     (let ctx = (case ch of CtxDone e \<Rightarrow> Some e | _ \<Rightarrow> None);
          outs = next_event ctx (state_error c) (c_objs c ! ref)
      in if length (c_objs c) \<le> ref \<or> outs = [] then None
         else (case (if ch = Go then hd outs else last outs) of (x, s) \<Rightarrow>
                 Some (c\<lparr>c_objs := (c_objs c)[ref := s]\<rparr>, REvent x, [])))"
| "us_step ch r (SetSession s) c = Some (c\<lparr>c_session := s\<rparr>, r, [])"
| "us_step ch r (SetInstance inst watched) c =
     (case set_instance inst watched c of (m, c') \<Rightarrow>
        Some (c', r, (case m of None \<Rightarrow> [] | Some m \<Rightarrow> [Spawn [Us (WatchBridge m)]])))"
| "us_step ch r Detach c = (case detach_instance c of (x, c') \<Rightarrow> Some (c', RInstance x, []))"
| "us_step ch r (WatchBridge m) c =
     (case ch of
        Go \<Rightarrow> Some (c, r, [Us (BridgeExited m)])
      | Expired \<Rightarrow> if ch_closed (c_monitors c ! m) then Some (c, r, []) else None
      | ClosedSeen \<Rightarrow> if ch_closed (c_closed c) then Some (c, r, []) else None
      | _ \<Rightarrow> None)"
| "us_step ch r (BridgeExited m) c = Some (bridge_exited m c, r, [])"
| "us_step ch r (GateCapability capability req) c =
     (case require_capability capability c of
        Some err \<Rightarrow> Some (c, RFrame (Inl err), [])
      | None \<Rightarrow> Some (c, r, request_acts False req None))"

text \<open>The end of a failed attempt to reconnect, and of the whole call.\<close>

definition attempt_failed :: "string \<Rightarrow> nat \<Rightarrow> int \<Rightarrow> gerr \<Rightarrow> int \<Rightarrow> act list" where
  "attempt_failed what g attempt err backoff =
     [Cl (CloseTransport g), SetState StateDisconnected,
      Emit ((obs what)\<lparr>OError := error_kind err, OAttempts := attempt\<rparr>),
      Rc (RcLoop (attempt + 1) (Some err) backoff)]"

definition reconnected_acts :: "int \<Rightarrow> act list" where
  "reconnected_acts attempt =
     [SetState StateConnected, Emit ((obs ''reconnected'')\<lparr>OAttempts := attempt\<rparr>),
      Return (RErr None), UnlockReconnect]"

definition ret_error :: "ret \<Rightarrow> gerr option" where
  "ret_error r = (case r of RErr e \<Rightarrow> e | RFrame (Inl e) \<Rightarrow> Some e | _ \<Rightarrow> None)"

definition ret_frame :: "ret \<Rightarrow> gerr + server_frame" where
  "ret_frame r = (case r of RFrame x \<Rightarrow> x | _ \<Rightarrow> Inl (Plain ''no reply''))"

fun rc_step :: "choice \<Rightarrow> ret \<Rightarrow> rc_act \<Rightarrow> client \<Rightarrow> step_result" where
  "rc_step ch r HsCheck c =
     (case check_hello (ret_frame r) of
        Inl err \<Rightarrow> Some (c, RErr (Some err), [])
      | Inr caps \<Rightarrow> Some (c\<lparr>c_caps := caps\<rparr>, RErr None, []))"
| "rc_step ch r NcDone c =
     (case ret_error r of
        Some err \<Rightarrow>
          Some (c, r, [Emit ((obs ''connect_error'')\<lparr>OError := ''handshake_failed''\<rparr>),
                       Cl (ClEnter (Sent ErrClosed)), Return (RErr (Some err))])
      | None \<Rightarrow> Some (c, r, [SetState StateConnected, Emit (obs ''connect_ready'')]))"
| "rc_step ch r RcEnter c =
     (if \<not> HasFactory (c_options c)
      then Some (c, RErr (Some (Plain ''reconnect factory is not configured'')), [])
      else if c_reconnect_mu c then None
      else Some (c\<lparr>c_reconnect_mu := True\<rparr>, r,
                 [IfState StateClosed [Return (RErr (Some (Sent ErrClosed))), UnlockReconnect]
                    [SetState StateReconnecting, Rc (RcLoop 1 None (Backoff (c_options c)))]]))"
| "rc_step ch r (RcLoop attempt last_err backoff) c =
     (if MaxAttempts (c_options c) < attempt
      then Some (c, RErr (Some (case last_err of None \<Rightarrow> Sent ErrDisconnected | Some e \<Rightarrow> e)),
                 [UnlockReconnect])
      else if 1 < attempt \<and> 0 < backoff
      then Some (c, r, [Rc (RcTimer attempt last_err backoff)])
      else Some (c, r, [Rc (RcFactory attempt backoff)]))"
| "rc_step ch r (RcTimer attempt last_err backoff) c =
     (case ch of
        Expired \<Rightarrow>
          Some (c, r, [Rc (RcFactory attempt (next_backoff backoff (MaxBackoff (c_options c))))])
      | CtxDone e \<Rightarrow>
          Some (c, r, [SetState StateDisconnected, Return (RErr (Some e)), UnlockReconnect])
      | _ \<Rightarrow> None)"
| "rc_step ch r (RcFactory attempt backoff) c =
     (case ch of
        Fails e \<Rightarrow>
          Some (c, r, [Emit ((obs ''reconnect_failed'')\<lparr>OError := error_kind e, OAttempts := attempt\<rparr>),
                       Rc (RcLoop (attempt + 1) (Some e) backoff)])
      | Go \<Rightarrow>
          (let g = length (c_transports c) in
           Some (c\<lparr>c_transports := c_transports c @ [new_safe]\<rparr>, r,
                 [Rc (RcInstall g), SetState StateConnecting, Spawn (read_loop_acts g)]
                 @ handshake_acts (c_options c) @ [Rc (RcHandshook attempt backoff g)]))
      | _ \<Rightarrow> None)"
| "rc_step ch r (RcInstall g) c = Some (install_decoder g c, r, [])"
| "rc_step ch r (RcHandshook attempt backoff g) c =
     (case ret_error r of
        Some err \<Rightarrow> Some (c, r, attempt_failed ''reconnect_failed'' g attempt err backoff)
      | None \<Rightarrow>
          if Resume (c_options c) \<and> c_session c \<noteq> []
          then Some (c, r, [Rc (RcResume attempt backoff g)])
          else Some (c, r, reconnected_acts attempt))"
| "rc_step ch r (RcResume attempt backoff g) c =
     (case require_capability ''attach_session'' c of
        Some _ \<Rightarrow>
          Some (c, r, attempt_failed ''resume_failed'' g attempt (WrapE ''resume'' (Sent ErrResume)) backoff)
      | None \<Rightarrow> Some (c, r, resume_acts (c_session c) @ [Rc (RcResumed attempt backoff g)]))"
| "rc_step ch r (RcResumed attempt backoff g) c =
     (case check_resume (ret_frame r) of
        Some err \<Rightarrow> Some (c, r, attempt_failed ''resume_failed'' g attempt err backoff)
      | None \<Rightarrow> Some (c, r, reconnected_acts attempt))"

text \<open>One action of a goroutine; the last component is the goroutines it starts.\<close>

fun run_act :: "choice \<Rightarrow> ret \<Rightarrow> act \<Rightarrow> client \<Rightarrow> (client \<times> ret \<times> act list \<times> act list list) option" where
  "run_act ch r (IfState s yes no) c = Some (c, r, if c_state c = s then yes else no, [])"
| "run_act ch r (IfClosed yes no) c = Some (c, r, if ch_closed (c_closed c) then yes else no, [])"
| "run_act ch r (SetState s) c = Some (set_state s c, r, [], [])"
| "run_act ch r (Emit ob) c = Some (emit ob c, r, [], [])"
| "run_act ch r UnlockReconnect c = Some (c\<lparr>c_reconnect_mu := False\<rparr>, r, [], [])"
| "run_act ch r (Return x) c = Some (c, x, [], [])"
| "run_act ch r (Spawn as) c = Some (c, r, [], [as])"
| "run_act ch r (Rq a) c = map_option (\<lambda>(c, r, as). (c, r, as, [])) (rq_step ch r a c)"
| "run_act ch r (Rd a) c = map_option (\<lambda>(c, r, as). (c, r, as, [])) (rd_step ch r a c)"
| "run_act ch r (Dc a) c = map_option (\<lambda>(c, r, as). (c, r, as, [])) (dc_step ch r a c)"
| "run_act ch r (Cl a) c = map_option (\<lambda>(c, r, as). (c, r, as, [])) (cl_step ch r a c)"
| "run_act ch r (Us a) c = map_option (\<lambda>(c, r, as). (c, r, as, [])) (us_step ch r a c)"
| "run_act ch r (Rc a) c = map_option (\<lambda>(c, r, as). (c, r, as, [])) (rc_step ch r a c)"

section \<open>The client with its goroutines\<close>

type_synonym goroutine = "ret \<times> act list"

record sys =
  cl :: client
  gos :: "goroutine list"

text \<open>Goroutine \<open>i\<close> performs its next action.\<close>

definition step_at :: "nat \<Rightarrow> choice \<Rightarrow> sys \<Rightarrow> sys option" where
  "step_at i ch s =
     (if length (gos s) \<le> i then None
      else case gos s ! i of
        (r, []) \<Rightarrow> None
      | (r, a # as) \<Rightarrow>
          (case run_act ch r a (cl s) of
             None \<Rightarrow> None
           | Some (c', r', new, spawned) \<Rightarrow>
               Some \<lparr>cl = c', gos = (gos s)[i := (r', new @ as)] @ map (\<lambda>x. (NoRet, x)) spawned\<rparr>))"

text \<open>The calls a user of the client makes, each from a goroutine of its own; the last is the SDK reporting
  an observation.\<close>

datatype call =
    CallRequest raw_request "nat option"
  | CallCapability string raw_request
  | CallNotify raw_request
  | CallSubscribe nat bool
  | CallUnsubscribe u64
  | CallNext nat
  | CallSetSession string
  | CallSetInstance nat bool
  | CallDetach
  | CallReconnect
  | CallClose
  | CallEmit observation

fun call_acts :: "call \<Rightarrow> act list" where
  "call_acts (CallRequest req on_reply) = request_acts False req on_reply"
| "call_acts (CallCapability capability req) = [Us (GateCapability capability req)]"
| "call_acts (CallNotify req) = notify_acts req"
| "call_acts (CallSubscribe n turn) = [Us (Subscribe n turn)]"
| "call_acts (CallUnsubscribe i) = [Us (Unsubscribe i)]"
| "call_acts (CallNext ref) = [Us (NextEvent ref)]"
| "call_acts (CallSetSession s) = [Us (SetSession s)]"
| "call_acts (CallSetInstance inst w) = [Us (SetInstance inst w)]"
| "call_acts CallDetach = [Us Detach]"
| "call_acts CallReconnect = [Rc RcEnter]"
| "call_acts CallClose = close_acts (Sent ErrClosed)"
| "call_acts (CallEmit ob) = [Emit ob]"

definition start_call :: "call \<Rightarrow> sys \<Rightarrow> sys" where
  "start_call k s = s\<lparr>gos := gos s @ [(NoRet, call_acts k)]\<rparr>"

inductive sys_step :: "sys \<Rightarrow> sys \<Rightarrow> bool" where
  act: "step_at i ch s = Some s' \<Longrightarrow> sys_step s s'"
| call: "sys_step s (start_call k s)"

text \<open>\<^verbatim>\<open>NewClient\<close>: the client, its reader, and the goroutine that performs the handshake.\<close>

definition new_client :: "options \<Rightarrow> client" where
  "new_client o1 =
     (let opt = with_defaults o1 in
      \<lparr>c_options = opt, c_state = StateConnecting, c_transport = 0, c_transports = [new_safe],
       c_caps = [], c_session = OSession opt, c_pending = [], c_replies = [], c_observed = [],
       c_subs = [], c_objs = [], c_next_id = 0, c_next_sub = 0, c_closed = 0, c_once = OnceNew,
       c_close_err = None, c_instance = None, c_shutdowns = [], c_handed = [], c_monitor = None,
       c_monitors = [], c_reconnect_mu = False, c_write_mu = False,
       c_log = [obs ''connect_start'', (obs ''state'')\<lparr>OState := Some StateConnecting\<rparr>],
       c_panics = []\<rparr>)"

definition new_client_sys :: "options \<Rightarrow> sys" where
  "new_client_sys opt =
     \<lparr>cl = new_client opt,
      gos = [(NoRet, handshake_acts (with_defaults opt) @ [Rc NcDone]), (NoRet, read_loop_acts 0)]\<rparr>"

text \<open>A schedule: calls, and which goroutine moves with which choice.\<close>

fun run_schedule :: "(call + nat \<times> choice) list \<Rightarrow> sys \<Rightarrow> sys option" where
  "run_schedule [] s = Some s"
| "run_schedule (Inl k # ks) s = run_schedule ks (start_call k s)"
| "run_schedule (Inr (i, ch) # ks) s =
     (case step_at i ch s of None \<Rightarrow> None | Some s' \<Rightarrow> run_schedule ks s')"

lemma run_schedule_steps: "run_schedule ks s = Some t \<Longrightarrow> sys_step\<^sup>*\<^sup>* s t"
proof (induction ks s rule: run_schedule.induct)
  case (2 k ks s)
  then show ?case by (auto intro: converse_rtranclp_into_rtranclp sys_step.call)
next
  case (3 i ch ks s)
  then show ?case by (auto intro: converse_rtranclp_into_rtranclp sys_step.act split: option.splits)
qed simp

end
