(* ===== verification/Turn.thy ===== *)
theory Turn imports Events begin

text \<open>
  \<^verbatim>\<open>turn.go\<close>: the turn object.  Each definition is one section the turn's mutex protects, or
  one operation on one of its channels; \<open>World\<close> puts them together into the turn's dispatcher,
  its lifecycle watcher, its cancel request and the calls of its owner.

  As everywhere, a channel that is only closed is the number of times it was closed.  The
  bounded event queue is its buffer, its capacity and that number; a send on the closed queue,
  which panics in Go, is counted in \<open>t_panics\<close>.  \<open>t_received\<close> and \<open>t_handed\<close> record the events
  the dispatcher has taken from its subscription and those \<^verbatim>\<open>Next\<close> has handed out.
\<close>

section \<open>Results\<close>

text \<open>\<^verbatim>\<open>TurnResultKind\<close>; the first constructor is the zero value of the Go type.\<close>

datatype turn_result_kind =
    TurnResultZero
  | TurnResultCompleted
  | TurnResultCanceled
  | TurnResultLifecycleCanceled
  | TurnResultLifecycleDeadlineExceeded
  | TurnResultProviderError
  | TurnResultProtocolError
  | TurnResultSubscriberOverflow
  | TurnResultBridgeExited
  | TurnResultTransportDisconnected
  | TurnResultClientClosed

fun result_kind_text :: "turn_result_kind \<Rightarrow> string" where
  "result_kind_text TurnResultZero = []"
| "result_kind_text TurnResultCompleted = ''completed''"
| "result_kind_text TurnResultCanceled = ''canceled''"
| "result_kind_text TurnResultLifecycleCanceled = ''lifecycle_canceled''"
| "result_kind_text TurnResultLifecycleDeadlineExceeded = ''lifecycle_deadline_exceeded''"
| "result_kind_text TurnResultProviderError = ''provider_error''"
| "result_kind_text TurnResultProtocolError = ''protocol_error''"
| "result_kind_text TurnResultSubscriberOverflow = ''subscriber_overflow''"
| "result_kind_text TurnResultBridgeExited = ''bridge_exited''"
| "result_kind_text TurnResultTransportDisconnected = ''transport_disconnected''"
| "result_kind_text TurnResultClientClosed = ''client_closed''"

record turn_result =
  ResKind :: turn_result_kind
  ResErr :: "gerr option"

datatype turn_state =
    TurnStarting | TurnAwaitingAcceptance | TurnAccepted | TurnCancelRequested | TurnTerminal

definition is_protocol_error :: "gerr \<Rightarrow> bool" where
  "is_protocol_error err =
     (err_is err ErrMalformedFrame \<or> err_is err ErrInvalidFrame \<or> err_is err ErrFrameTooLarge)"

definition protocol_turn_error :: "gerr \<Rightarrow> gerr option" where
  "protocol_turn_error err =
     (case err_as_compat err of
        Some (k, ty) \<Rightarrow> Some (CompatErr k ty)
      | None \<Rightarrow>
          join_all (Sent ErrProtocolFailure
            # map Sent (filter (err_is err) [ErrMalformedFrame, ErrInvalidFrame, ErrFrameTooLarge])))"

definition turn_result_from_subscription_error :: "gerr \<Rightarrow> turn_result" where
  "turn_result_from_subscription_error err =
     (if err_is err ErrBridgeExited
      then \<lparr>ResKind = TurnResultBridgeExited, ResErr = Some (Sent ErrBridgeExited)\<rparr>
      else if err_is err ErrClosed
      then \<lparr>ResKind = TurnResultClientClosed, ResErr = Some (Sent ErrClosed)\<rparr>
      else if err_is err ErrSubscriberOverflow
      then \<lparr>ResKind = TurnResultSubscriberOverflow, ResErr = Some (Sent ErrSubscriberOverflow)\<rparr>
      else if is_protocol_error err
      then \<lparr>ResKind = TurnResultProtocolError, ResErr = protocol_turn_error err\<rparr>
      else \<lparr>ResKind = TurnResultTransportDisconnected, ResErr = Some (Sent ErrDisconnected)\<rparr>)"

text \<open>The result of the lifecycle watcher, from the context's error and its cause.\<close>

definition lifecycle_result :: "gerr \<Rightarrow> gerr option \<Rightarrow> turn_result" where
  "lifecycle_result ctx_err cause =
     \<lparr>ResKind = (if err_is ctx_err Ctx_DeadlineExceeded then TurnResultLifecycleDeadlineExceeded
                 else TurnResultLifecycleCanceled),
      ResErr = Some (WrapE ''turn lifecycle ended'' (case cause of None \<Rightarrow> ctx_err | Some e \<Rightarrow> e))\<rparr>"

definition overflow_result :: turn_result where
  "overflow_result = \<lparr>ResKind = TurnResultSubscriberOverflow, ResErr = Some (Sent ErrSubscriberOverflow)\<rparr>"

definition turn_cancel_error_kind :: "gerr \<Rightarrow> string" where
  "turn_cancel_error_kind err =
     (if err_is err Ctx_DeadlineExceeded then ''request_timeout''
      else if err_is err Ctx_Canceled then ''request_canceled''
      else if err_is err ErrClosed then ''client_closed''
      else if err_is err ErrDisconnected then ''disconnected''
      else ''request_failed'')"

text \<open>The error of a cancel request, from what the request returned.\<close>

definition cancel_reply_error :: "gerr + server_frame \<Rightarrow> gerr option" where
  "cancel_reply_error r =
     (case r of
        Inl err \<Rightarrow> Some (WrapE ''cancel turn'' err)
      | Inr f \<Rightarrow>
          (case Event f of
             OK \<Rightarrow> None
           | ErrorEv code _ _ \<Rightarrow> Some (WrapE ''cancel turn'' (EventErr code [] []))
           | e \<Rightarrow> Some (Plain (''cancel turn: unexpected reply '' @ event_tag e))))"

section \<open>The turn\<close>

datatype start_once = NotStarted | Starting | Started

record turn =
  t_session :: string
  t_sub :: nat
  t_sub_id :: u64
  t_events :: "typed_event list"
  t_cap :: nat
  t_events_closed :: closes
  t_next_mu :: bool
  t_state :: turn_state
  t_acceptance_set :: bool
  t_acceptance_err :: "gerr option"
  t_accepted_done :: closes
  t_terminal :: bool
  t_result :: turn_result
  t_terminal_done :: closes
  t_cancel_once :: start_once
  t_cancel_requested :: bool
  t_cancel_err :: "gerr option"
  t_cancel_done :: closes
  t_advisory :: bool
  t_panics :: nat
  t_received :: "event list"
  t_handed :: "typed_event list"

definition new_turn :: "string \<Rightarrow> nat \<Rightarrow> u64 \<Rightarrow> nat \<Rightarrow> turn" where
  "new_turn session ref i event_buffer =
     \<lparr>t_session = session, t_sub = ref, t_sub_id = i, t_events = [], t_cap = event_buffer + 1,
      t_events_closed = 0, t_next_mu = False, t_state = TurnStarting, t_acceptance_set = False,
      t_acceptance_err = None, t_accepted_done = 0, t_terminal = False,
      t_result = \<lparr>ResKind = TurnResultZero, ResErr = None\<rparr>, t_terminal_done = 0,
      t_cancel_once = NotStarted, t_cancel_requested = False, t_cancel_err = None,
      t_cancel_done = 0, t_advisory = False, t_panics = 0,
      t_received = [], t_handed = []\<rparr>"

definition mark_write_complete :: "turn \<Rightarrow> turn" where
  "mark_write_complete t =
     (if t_state t = TurnStarting then t\<lparr>t_state := TurnAwaitingAcceptance\<rparr> else t)"

definition finish_acceptance :: "gerr option \<Rightarrow> turn \<Rightarrow> turn" where
  "finish_acceptance err t =
     (if t_acceptance_set t then t
      else t\<lparr>t_acceptance_set := True, t_acceptance_err := err,
             t_accepted_done := ch_close (t_accepted_done t)\<rparr>)"

definition finish_terminal_locked :: "turn_result \<Rightarrow> turn \<Rightarrow> turn" where
  "finish_terminal_locked result t =
     (if t_terminal t then t
      else (finish_acceptance (ResErr result) t)
             \<lparr>t_terminal := True, t_state := TurnTerminal, t_result := result,
              t_terminal_done := ch_close (t_terminal_done t)\<rparr>)"

text \<open>What the dispatcher does to the state when \<^verbatim>\<open>message_accepted\<close> arrives.\<close>

definition mark_accepted :: "turn \<Rightarrow> turn" where
  "mark_accepted t =
     (if \<not> t_terminal t \<and> t_state t \<noteq> TurnCancelRequested then t\<lparr>t_state := TurnAccepted\<rparr> else t)"

definition send_event :: "typed_event \<Rightarrow> turn \<Rightarrow> bool \<times> turn" where
  "send_event e t =
     (if ch_closed (t_events_closed t) then (False, t\<lparr>t_panics := t_panics t + 1\<rparr>)
      else if length (t_events t) < t_cap t then (True, t\<lparr>t_events := t_events t @ [e]\<rparr>)
      else (False, t))"

definition publish_event :: "typed_event \<Rightarrow> turn \<Rightarrow> bool \<times> turn" where
  "publish_event e t =
     (if t_terminal t then (False, t)
      else if t_cap t - 1 \<le> length (t_events t) then (False, t)
      else send_event e t)"

text \<open>\<^verbatim>\<open>finishTurnDone\<close> under the lock: the result to announce, if this call ended the turn.\<close>

definition finish_turn_done :: "typed_event \<Rightarrow> turn \<Rightarrow> turn_result option \<times> turn" where
  "finish_turn_done e t =
     (if t_terminal t then (None, t)
      else case send_event e t of
        (sent, t') \<Rightarrow>
          let result =
            (if \<not> sent then overflow_result
             else if t_cancel_requested t
             then \<lparr>ResKind = TurnResultCanceled, ResErr = Some (Sent ErrTurnCanceled)\<rparr>
             else \<lparr>ResKind = TurnResultCompleted, ResErr = None\<rparr>)
          in (Some result, finish_terminal_locked result t'))"

definition ignore_advisory :: "turn \<Rightarrow> bool \<times> turn" where
  "ignore_advisory t = (if t_advisory t then (False, t) else (True, t\<lparr>t_advisory := True\<rparr>))"

text \<open>The reply observer of the cancel request.\<close>

definition observe_cancel :: "server_frame \<Rightarrow> turn \<Rightarrow> turn" where
  "observe_cancel f t =
     (if Event f = OK \<and> \<not> t_terminal t
      then t\<lparr>t_cancel_requested := True, t_state := TurnCancelRequested\<rparr> else t)"

definition finish_cancel :: "gerr option \<Rightarrow> turn \<Rightarrow> turn" where
  "finish_cancel err t = t\<lparr>t_cancel_err := err, t_cancel_done := ch_close (t_cancel_done t)\<rparr>"

definition close_events :: "turn \<Rightarrow> turn" where
  "close_events t = t\<lparr>t_events_closed := ch_close (t_events_closed t)\<rparr>"

text \<open>Receiving from the event queue: nothing while it is empty and open.\<close>

definition receive_event :: "turn \<Rightarrow> (typed_event option \<times> turn) option" where
  "receive_event t =
     (case t_events t of
        e # es \<Rightarrow> Some (Some e, t\<lparr>t_events := es, t_handed := t_handed t @ [e]\<rparr>)
      | [] \<Rightarrow> if ch_closed (t_events_closed t) then Some (None, t) else None)"

text \<open>\<^verbatim>\<open>nextResult\<close> once the queue is closed.\<close>

definition next_closed :: "turn \<Rightarrow> gerr" where
  "next_closed t =
     (if t_terminal t then (case ResErr (t_result t) of Some e \<Rightarrow> e | None \<Rightarrow> Sent Err_EOF)
      else Sent Err_EOF)"

section \<open>Acceptance and result as cells that are written once\<close>

definition acceptance_result :: "turn \<Rightarrow> gerr option option" where
  "acceptance_result t = (if t_acceptance_set t then Some (t_acceptance_err t) else None)"

definition terminal_result :: "turn \<Rightarrow> turn_result option" where
  "terminal_result t = (if t_terminal t then Some (t_result t) else None)"

interpretation acceptance: write_once finish_acceptance acceptance_result
  by unfold_locales (auto simp: finish_acceptance_def acceptance_result_def split: if_splits)

interpretation terminal: write_once finish_terminal_locked terminal_result
  by unfold_locales (auto simp: finish_terminal_locked_def terminal_result_def split: if_splits)

end
