(* ===== verification/Session.thy ===== *)
theory Session imports Events begin

text \<open>
  The pure parts of \<^verbatim>\<open>session.go\<close>: the options of its calls and their validation, the requests
  it builds and how it reads the replies.  \<open>World\<close> performs the calls.

  A deadline is an RFC 3339 text, read as \<^verbatim>\<open>time.Parse\<close> reads it: hours may have one digit, a
  fraction may follow the seconds after a period or a comma, and an offset may name 24 hours
  or 60 minutes.  An instant is a number of nanoseconds since 1970.
\<close>

section \<open>RFC 3339 times\<close>

definition digit :: "char \<Rightarrow> int" where
  "digit c = int (byte c) - 48"

definition getnum :: "bool \<Rightarrow> string \<Rightarrow> (int \<times> string) option" where
  "getnum fixed s =
     (case s of
        [] \<Rightarrow> None
      | a # r \<Rightarrow>
          if \<not> is_digit a then None
          else (case r of
            b # q \<Rightarrow>
              if is_digit b then Some (10 * digit a + digit b, q)
              else if fixed then None else Some (digit a, r)
          | [] \<Rightarrow> if fixed then None else Some (digit a, [])))"

definition skip_char :: "char \<Rightarrow> string \<Rightarrow> string option" where
  "skip_char c s = (case s of [] \<Rightarrow> None | d # r \<Rightarrow> if d = c then Some r else None)"

definition parse_year :: "string \<Rightarrow> (int \<times> string) option" where
  "parse_year s =
     (if length s < 4 \<or> \<not> list_all is_digit (take 4 s) then None
      else Some (foldl (\<lambda>n c. 10 * n + digit c) 0 (take 4 s), drop 4 s))"

text \<open>A number in a range, after a separator.\<close>

definition field_num :: "char \<Rightarrow> bool \<Rightarrow> int \<Rightarrow> int \<Rightarrow> string \<Rightarrow> (int \<times> string) option" where
  "field_num sep fixed low high s =
     (case skip_char sep s of
        None \<Rightarrow> None
      | Some r \<Rightarrow>
          (case getnum fixed r of
             None \<Rightarrow> None
           | Some (n, q) \<Rightarrow> if n < low \<or> high < n then None else Some (n, q)))"

text \<open>Nanoseconds: at most nine digits count.\<close>

definition parse_fraction :: "string \<Rightarrow> int \<times> string" where
  "parse_fraction s =
     (case s of
        p # d # r \<Rightarrow>
          if (p = CHR ''.'' \<or> p = CHR '','') \<and> is_digit d
          then (let ds = take 9 (takeWhile is_digit (d # r)) in
                (foldl (\<lambda>n c. 10 * n + digit c) 0 ds * 10 ^ (9 - length ds),
                 dropWhile is_digit (d # r)))
          else (0, s)
      | _ \<Rightarrow> (0, s))"

text \<open>The offset from UTC in seconds; nothing may follow it.\<close>

definition parse_zone :: "string \<Rightarrow> int option" where
  "parse_zone s =
     (if s = ''Z'' then Some 0
      else if length s \<noteq> 6 \<or> s ! 3 \<noteq> CHR '':'' then None
      else case (getnum True (take 2 (drop 1 s)), getnum True (drop 4 s)) of
        (Some (h, _), Some (m, _)) \<Rightarrow>
          if 24 < h \<or> 60 < m then None
          else if s ! 0 = CHR ''+'' then Some (60 * (60 * h + m))
          else if s ! 0 = CHR ''-'' then Some (- (60 * (60 * h + m)))
          else None
      | _ \<Rightarrow> None)"

definition is_leap :: "int \<Rightarrow> bool" where
  "is_leap y = (y mod 4 = 0 \<and> (y mod 100 \<noteq> 0 \<or> y mod 400 = 0))"

definition month_lengths :: "int \<Rightarrow> int list" where
  "month_lengths y = [31, if is_leap y then 29 else 28, 31, 30, 31, 30, 31, 31, 30, 31, 30, 31]"

definition days_in :: "int \<Rightarrow> int \<Rightarrow> int" where
  "days_in m y = month_lengths y ! nat (m - 1)"

text \<open>Days between 1970-01-01 and a date of the years 0 to 9999.\<close>

definition civil_days :: "int \<Rightarrow> int \<Rightarrow> int \<Rightarrow> int" where
  "civil_days y m d =
     365 * y + (y + 3) div 4 - (y + 99) div 100 + (y + 399) div 400
     + sum_list (take (nat (m - 1)) (month_lengths y)) + (d - 1) - 719528"

definition instant :: "int \<Rightarrow> int \<Rightarrow> int \<Rightarrow> int \<Rightarrow> int \<Rightarrow> int \<Rightarrow> int \<Rightarrow> int \<Rightarrow> int" where
  "instant y m d hh mm ss ns zone =
     (86400 * civil_days y m d + 3600 * hh + 60 * mm + ss - zone) * 1000000000 + ns"

definition time_parse :: "string \<Rightarrow> int option" where
  "time_parse s0 =
     (case parse_year s0 of None \<Rightarrow> None | Some (y, s1) \<Rightarrow>
     (case field_num (CHR ''-'') True 1 12 s1 of None \<Rightarrow> None | Some (m, s2) \<Rightarrow>
     (case field_num (CHR ''-'') True 0 99 s2 of None \<Rightarrow> None | Some (d, s3) \<Rightarrow>
     (case field_num (CHR ''T'') False 0 23 s3 of None \<Rightarrow> None | Some (hh, s4) \<Rightarrow>
     (case field_num (CHR '':'') True 0 59 s4 of None \<Rightarrow> None | Some (mm, s5) \<Rightarrow>
     (case field_num (CHR '':'') True 0 59 s5 of None \<Rightarrow> None | Some (ss, s6) \<Rightarrow>
     (case parse_fraction s6 of (ns, s7) \<Rightarrow>
     (case parse_zone s7 of None \<Rightarrow> None | Some zone \<Rightarrow>
        if d < 1 \<or> days_in m y < d then None
        else Some (instant y m d hh mm ss ns zone)))))))))"

section \<open>Options\<close>

record create_options =
  WorkingDir :: string
  Profile :: string

record send_options =
  Images :: "(string \<times> string) list"
  NoReply :: bool
  MaxTurns :: int
  TokenBudget :: int
  Deadline :: string

definition is_space_rune :: "nat \<Rightarrow> bool" where
  "is_space_rune r =
     (r \<in> {9, 10, 11, 12, 13, 32, 133, 160, 5760, 8232, 8233, 8239, 8287, 12288}
      \<or> 8192 \<le> r \<and> r \<le> 8202)"

text \<open>\<^verbatim>\<open>strings.TrimSpace\<close> leaves nothing exactly when every rune is a space.\<close>

definition trims_to_nothing :: "string \<Rightarrow> bool" where
  "trims_to_nothing s = list_all is_space_rune (runes s)"

definition validate_create_session_options :: "create_options \<Rightarrow> gerr option" where
  "validate_create_session_options opt =
     (if Profile opt \<noteq> [] \<and> trims_to_nothing (Profile opt) then Some (OptionErr ''profile'') else None)"

definition validate_send_options :: "send_options \<Rightarrow> int \<Rightarrow> gerr option" where
  "validate_send_options opt submission =
     (if MaxTurns opt < 0 then Some (OptionErr ''max_turns'')
      else if TokenBudget opt < 0 then Some (OptionErr ''token_budget'')
      else if Deadline opt = [] then None
      else case time_parse (Deadline opt) of
        None \<Rightarrow> Some (OptionErr ''deadline'')
      | Some t \<Rightarrow> if t \<le> submission then Some (OptionErr ''deadline'') else None)"

section \<open>Requests\<close>

text \<open>A field with \<^verbatim>\<open>omitempty\<close>.\<close>

definition unless_empty :: "bool \<Rightarrow> string \<Rightarrow> json \<Rightarrow> (string \<times> json) list" where
  "unless_empty omit k v = (if omit then [] else [(k, v)])"

definition create_session_fields :: "create_options \<Rightarrow> json" where
  "create_session_fields opt =
     JObj (unless_empty (WorkingDir opt = []) ''working_dir'' (JStr (WorkingDir opt))
         @ unless_empty (Profile opt = []) ''profile'' (JStr (Profile opt)))"

definition session_id_fields :: "string \<Rightarrow> json" where
  "session_id_fields i = JObj [(''session_id'', JStr i)]"

definition send_message_fields :: "string \<Rightarrow> string \<Rightarrow> send_options \<Rightarrow> json" where
  "send_message_fields session content opt =
     JObj ([(''session_id'', JStr session), (''content'', JStr content)]
         @ unless_empty (Images opt = []) ''images''
             (JArr (map (\<lambda>(a, b). JArr [JStr a, JStr b]) (Images opt)))
         @ unless_empty (\<not> NoReply opt) ''no_reply'' (JBool True)
         @ unless_empty (MaxTurns opt = 0) ''max_turns'' (JNum (int_text (MaxTurns opt)))
         @ unless_empty (TokenBudget opt = 0) ''token_budget'' (JNum (int_text (TokenBudget opt)))
         @ unless_empty (Deadline opt = []) ''deadline'' (JStr (Deadline opt)))"

definition new_send_message_request :: "string \<Rightarrow> string \<Rightarrow> send_options \<Rightarrow> gerr + raw_request" where
  "new_send_message_request session content opt =
     new_raw_request ''send_message'' (Inr (send_message_fields session content opt))"

section \<open>Replies\<close>

record session =
  SInfo :: "goval list"
  SID :: string

definition event_error :: "pevent \<Rightarrow> gerr option" where
  "event_error e = (case e of ErrorEv code msg pc \<Rightarrow> Some (EventErr code msg pc) | _ \<Rightarrow> None)"

fun event_error_text :: "gerr \<Rightarrow> string" where
  "event_error_text (EventErr code msg pc) =
     (if code = [] then msg else if msg = [] then code else code @ '': '' @ msg)"
| "event_error_text _ = []"

definition session_reply_fields :: "(string \<times> gotype) list" where
  "session_reply_fields = [(''session'', TStruct session_info_fields)]"

definition session_of_info :: "goval \<Rightarrow> session" where
  "session_of_info v =
     (case v of
        VStruct vs \<Rightarrow> \<lparr>SInfo = vs, SID = go_str (vs ! 0)\<rparr>
      | _ \<Rightarrow> \<lparr>SInfo = [], SID = []\<rparr>)"

definition decode_session :: "(string \<times> gotype) list \<Rightarrow> string \<Rightarrow> gerr + session" where
  "decode_session flds data =
     (case decode_struct flds data of
        None \<Rightarrow> Inl (Plain ''json'')
      | Some vs \<Rightarrow> Inr (session_of_info (vs ! 0)))"

text \<open>\<^verbatim>\<open>CreateSession\<close> after its request: what it returns and the error code it reports, if any.\<close>

definition create_session_reply :: "gerr + server_frame \<Rightarrow> (gerr + session) \<times> string option" where
  "create_session_reply r =
     (case r of
        Inl err \<Rightarrow>
          (Inl err, Some (if err_is err Ctx_DeadlineExceeded then ''request_timeout''
                          else if err_is err Ctx_Canceled then ''request_canceled''
                          else ''request_failed''))
      | Inr f \<Rightarrow>
          (case event_error (Event f) of
             Some err \<Rightarrow> (Inl err, Some (ev_code (Event f)))
           | None \<Rightarrow>
               (case fields_json (Event f) of
                  None \<Rightarrow> (Inl (Plain (''unexpected create_session reply: '' @ event_tag (Event f))),
                            Some ''unexpected_reply'')
                | Some data \<Rightarrow>
                    (case decode_session session_reply_fields data of
                       Inl err \<Rightarrow> (Inl err, Some ''invalid_reply'')
                     | Inr s \<Rightarrow> (Inr s, None)))))"

definition attach_session_reply :: "gerr + server_frame \<Rightarrow> gerr + session" where
  "attach_session_reply r =
     (case r of
        Inl err \<Rightarrow> Inl err
      | Inr f \<Rightarrow>
          (case fields_json (Event f) of
             None \<Rightarrow> Inl (Plain (''unexpected attach_session reply: '' @ event_tag (Event f)))
           | Some data \<Rightarrow> decode_session session_reply_fields data))"

definition fork_session_reply :: "gerr + server_frame \<Rightarrow> gerr + session" where
  "fork_session_reply r =
     (case r of
        Inl err \<Rightarrow> Inl err
      | Inr f \<Rightarrow>
          (case event_error (Event f) of
             Some err \<Rightarrow> Inl err
           | None \<Rightarrow>
               (case fields_json (Event f) of
                  None \<Rightarrow> Inl (Plain (''unexpected fork_session reply: '' @ event_tag (Event f)))
                | Some data \<Rightarrow>
                    if event_tag (Event f) \<noteq> ''session_forked''
                    then Inl (Plain (''unexpected fork_session reply: '' @ event_tag (Event f)))
                    else decode_session session_forked_fields data)))"

text \<open>\<^verbatim>\<open>TypedEventStream.Next\<close> after the event arrived.\<close>

definition stream_event :: "gerr + event \<Rightarrow> gerr + typed_event" where
  "stream_event r =
     (case r of
        Inl err \<Rightarrow> Inl err
      | Inr e \<Rightarrow>
          (case event_error (Event (Frame e)) of
             Some err \<Rightarrow> Inl err
           | None \<Rightarrow> decode_typed_event e))"

end
