(* ===== verification/World.thy ===== *)
theory World imports Goroutines Turn Session begin

text \<open>
  The whole of the SDK's concurrent part: one client, the turns started on it and every
  goroutine, those of \<open>Goroutines\<close> together with the dispatcher, the lifecycle watcher and the
  cancel request of each turn and the calls of its owner (\<^verbatim>\<open>turn.go\<close>) and the calls of a
  session (\<^verbatim>\<open>session.go\<close>).

  \<open>C a\<close> is an action of the client, \<open>Bg a\<close> one performed under \<^verbatim>\<open>context.Background()\<close>, so that
  only the request timeout can expire it, \<open>T k a\<close> an action on turn \<open>k\<close> and \<open>S a\<close> an action of a
  session call.
\<close>

section \<open>Data\<close>

datatype turn_act =
    DispatchLoop bool
  | Received bool
  | Accept
  | MarkAccepted
  | IgnoreAdvisory string typed_event
  | Publish typed_event
  | FinishTurnDone typed_event
  | Finish turn_result
  | CloseEvents
  | WatchLifecycle
  | Observed server_frame
  | RunCancel
  | CancelReplied
  | FinishCancel "gerr option"
  | MarkWriteComplete
  | AcceptedCheck
  | AcceptedSelect
  | AcceptedRead
  | AcceptedRecheck gerr
  | NextLock
  | NextSelect
  | NextPoll gerr
  | NextClosed
  | NextUnlock
  | CancelOnce
  | CancelCheck
  | CancelOnceDone
  | CancelCtx
  | CancelSelect
  | CancelPoll gerr
  | CancelRead
  | WaitCheck
  | WaitSelect
  | WaitRead
  | WaitRecheck gerr

text \<open>What a call of a session or of a turn returns.\<close>

datatype tret =
    TNone
  | TErr "gerr option"
  | TEvent "gerr + typed_event"
  | TResult "gerr + turn_result"
  | TTurn "gerr + nat"
  | TSession "gerr + session"

datatype sess_act =
    Give tret
  | CreateCall create_options
  | CreateReplied
  | AttachCall string
  | AttachReplied
  | ForkCall string
  | ForkReplied
  | SendCall string string send_options int
  | SendSubscribe raw_request
  | SendNotified nat u64
  | SendReceived nat u64
  | SendResult
  | StreamReceived
  | StartCall string string send_options int
  | StartSubscribe string raw_request
  | StartWritten nat

datatype wact = C act | Bg act | T nat turn_act | S sess_act

text \<open>\<open>LifecycleEnd\<close> gives the error and the cause of a lifecycle context that ended.\<close>

datatype wchoice = Ch choice | LifecycleEnd gerr "gerr option"

type_synonym wval = "ret \<times> tret"

record world =
  wc :: client
  wturns :: "turn list"

section \<open>The turn's goroutines\<close>

definition announce :: "turn_result \<Rightarrow> turn \<Rightarrow> wact list" where
  "announce result t =
     [C (Emit ((obs ''turn_terminal'')\<lparr>OOutcome := result_kind_text (ResKind result)\<rparr>)),
      C (Us (Unsubscribe (t_sub_id t)))]"

text \<open>What the dispatcher does with an event other than an error of its subscription.\<close>

definition handle_event :: "nat \<Rightarrow> event \<Rightarrow> wact list" where
  "handle_event k e =
     (case Event (Frame e) of
        ErrorEv code _ pc \<Rightarrow>
          [T k (Finish \<lparr>ResKind = TurnResultProviderError,
                        ResErr = Some (WrapE ''turn failed'' (EventErr code [] pc))\<rparr>), T k CloseEvents]
      | _ \<Rightarrow>
          (case decode_typed_event e of
             Inl err \<Rightarrow>
               [T k (Finish \<lparr>ResKind = TurnResultProtocolError, ResErr = protocol_turn_error err\<rparr>),
                T k CloseEvents]
           | Inr typed \<Rightarrow>
               (case semantic_class_of (Some typed) of
                  None \<Rightarrow>
                    [T k (Finish \<lparr>ResKind = TurnResultProtocolError,
                            ResErr = Some (new_compat_error (Kind e) (typed_event_type (Some typed)))\<rparr>),
                     T k CloseEvents]
                | Some class \<Rightarrow>
                    if class = AdvisoryLifecycle
                    then [T k (IgnoreAdvisory (Kind e) typed), T k (DispatchLoop False)]
                    else if Kind e = ''turn_done'' then [T k (FinishTurnDone typed)]
                    else [T k (Publish typed)])))"

definition received_acts :: "nat \<Rightarrow> bool \<Rightarrow> event \<Rightarrow> wact list" where
  "received_acts k first e =
     (if Kind e = ''message_accepted'' then [T k Accept, T k MarkAccepted, T k (DispatchLoop first)]
      else (if first then [C (Emit (obs ''turn_first_event''))] else []) @ handle_event k e)"

definition advisory_obs :: "string \<Rightarrow> typed_event \<Rightarrow> observation" where
  "advisory_obs kind typed =
     (let k = sanitize_identifier kind ''unknown_kind'';
          ty = sanitize_identifier (typed_event_type (Some typed)) ''unknown_type'' in
      (obs ''turn_advisory_ignored'')
        \<lparr>OError := bounded_compat_message k ty, OEventKind := k, OEventType := ty,
         ODisposition := ''advisory_lifecycle''\<rparr>)"

definition cancel_obs :: "gerr option \<Rightarrow> observation" where
  "cancel_obs err =
     (case err of
        None \<Rightarrow> obs ''turn_cancel_request_complete''
      | Some e \<Rightarrow> (obs ''turn_cancel_request_error'')\<lparr>OError := turn_cancel_error_kind e\<rparr>)"

definition finish_cancel_acts :: "nat \<Rightarrow> gerr option \<Rightarrow> wact list" where
  "finish_cancel_acts k err = [C (Emit (cancel_obs err)), T k (FinishCancel err)]"

definition run_cancel_acts :: "nat \<Rightarrow> string \<Rightarrow> wact list" where
  "run_cancel_acts k session =
     C (Emit (obs ''turn_cancel_request_start''))
     # (case new_raw_request ''cancel'' (Inr (session_id_fields session)) of
          Inl err \<Rightarrow> finish_cancel_acts k (Some (WrapE ''encode turn cancellation'' err))
        | Inr req \<Rightarrow> map Bg (request_acts False req (Some k)) @ [T k CancelReplied])"

text \<open>
  A step of turn \<open>k\<close>: the turn, what the call returns, the actions that take the place of the
  action and the goroutines started.
\<close>

fun turn_step ::
    "nat \<Rightarrow> wchoice \<Rightarrow> wval \<Rightarrow> turn_act \<Rightarrow> turn \<Rightarrow> (turn \<times> tret \<times> wact list \<times> wact list list) option" where
  "turn_step k ch r (DispatchLoop first) t =
     Some (t, snd r, [Bg (Us (NextEvent (t_sub t))), T k (Received first)], [])"
| "turn_step k ch r (Received first) t =
     (case fst r of
        REvent (Inl err) \<Rightarrow>
          Some (t, snd r, [T k (Finish (turn_result_from_subscription_error err)), T k CloseEvents], [])
      | REvent (Inr e) \<Rightarrow>
          Some (t\<lparr>t_received := t_received t @ [e]\<rparr>, snd r, received_acts k first e, [])
      | _ \<Rightarrow> None)"
| "turn_step k ch r Accept t =
     Some (finish_acceptance None t, snd r,
           (if t_acceptance_set t then [] else [C (Emit (obs ''turn_prompt_accepted''))]), [])"
| "turn_step k ch r MarkAccepted t = Some (mark_accepted t, snd r, [], [])"
| "turn_step k ch r (IgnoreAdvisory kind typed) t =
     (case ignore_advisory t of (warn, t') \<Rightarrow>
        Some (t', snd r, (if warn then [C (Emit (advisory_obs kind typed))] else []), []))"
| "turn_step k ch r (Publish typed) t =
     (case publish_event typed t of (sent, t') \<Rightarrow>
        Some (t', snd r,
              (if sent then [T k (DispatchLoop False)]
               else [T k (Finish overflow_result), T k CloseEvents]), []))"
| "turn_step k ch r (FinishTurnDone typed) t =
     (case finish_turn_done typed t of (res, t') \<Rightarrow>
        Some (t', snd r, (case res of None \<Rightarrow> [] | Some x \<Rightarrow> announce x t) @ [T k CloseEvents], []))"
| "turn_step k ch r (Finish result) t =
     Some (finish_terminal_locked result t, snd r,
           (if t_terminal t then [] else announce result t), [])"
| "turn_step k ch r CloseEvents t = Some (close_events t, snd r, [], [])"
| "turn_step k ch r WatchLifecycle t =
     (case ch of
        LifecycleEnd err cause \<Rightarrow> Some (t, snd r, [T k (Finish (lifecycle_result err cause))], [])
      | Ch ClosedSeen \<Rightarrow> if ch_closed (t_terminal_done t) then Some (t, snd r, [], []) else None
      | _ \<Rightarrow> None)"
| "turn_step k ch r (Observed f) t = Some (observe_cancel f t, snd r, [], [])"
| "turn_step k ch r RunCancel t = Some (t, snd r, run_cancel_acts k (t_session t), [])"
| "turn_step k ch r CancelReplied t =
     Some (t, snd r, finish_cancel_acts k (cancel_reply_error (ret_frame (fst r))), [])"
| "turn_step k ch r (FinishCancel err) t = Some (finish_cancel err t, snd r, [], [])"
| "turn_step k ch r MarkWriteComplete t = Some (mark_write_complete t, snd r, [], [])"
| "turn_step k ch r AcceptedCheck t =
     (case acceptance_result t of
        Some err \<Rightarrow> Some (t, TErr err, [], [])
      | None \<Rightarrow> Some (t, snd r, [T k AcceptedSelect], []))"
| "turn_step k ch r AcceptedSelect t =
     (case ch of
        Ch ClosedSeen \<Rightarrow> if ch_closed (t_accepted_done t) then Some (t, snd r, [T k AcceptedRead], []) else None
      | Ch (CtxDone e) \<Rightarrow> Some (t, snd r, [T k (AcceptedRecheck e)], [])
      | _ \<Rightarrow> None)"
| "turn_step k ch r AcceptedRead t = Some (t, TErr (t_acceptance_err t), [], [])"
| "turn_step k ch r (AcceptedRecheck e) t =
     Some (t, TErr (case acceptance_result t of
                      Some err \<Rightarrow> err | None \<Rightarrow> Some (WrapE ''wait for turn acceptance'' e)), [], [])"
| "turn_step k ch r NextLock t =
     (if t_next_mu t then None
      else Some (t\<lparr>t_next_mu := True\<rparr>, snd r, [T k NextSelect], []))"
| "turn_step k ch r NextSelect t =
     (case ch of
        Ch (CtxDone e) \<Rightarrow> Some (t, snd r, [T k (NextPoll e)], [])
      | Ch Go \<Rightarrow>
          (case receive_event t of
             None \<Rightarrow> None
           | Some (Some e, t') \<Rightarrow> Some (t', TEvent (Inr e), [T k NextUnlock], [])
           | Some (None, t') \<Rightarrow> Some (t', snd r, [T k NextClosed], []))
      | _ \<Rightarrow> None)"
| "turn_step k ch r (NextPoll e) t =
     (case receive_event t of
        None \<Rightarrow> Some (t, TEvent (Inl (WrapE ''wait for turn event'' e)), [T k NextUnlock], [])
      | Some (Some x, t') \<Rightarrow> Some (t', TEvent (Inr x), [T k NextUnlock], [])
      | Some (None, t') \<Rightarrow> Some (t', snd r, [T k NextClosed], []))"
| "turn_step k ch r NextClosed t = Some (t, TEvent (Inl (next_closed t)), [T k NextUnlock], [])"
| "turn_step k ch r NextUnlock t = Some (t\<lparr>t_next_mu := False\<rparr>, snd r, [], [])"
| "turn_step k ch r CancelOnce t =
     (case t_cancel_once t of
        NotStarted \<Rightarrow>
          Some (t\<lparr>t_cancel_once := Starting\<rparr>, snd r, [T k CancelCheck, T k CancelOnceDone, T k CancelCtx], [])
      | Starting \<Rightarrow> None
      | Started \<Rightarrow> Some (t, snd r, [T k CancelCtx], []))"
| "turn_step k ch r CancelCheck t =
     (if t_terminal t then Some (t\<lparr>t_cancel_done := ch_close (t_cancel_done t)\<rparr>, snd r, [], [])
      else Some (t, snd r, [], [[T k RunCancel]]))"
| "turn_step k ch r CancelOnceDone t = Some (t\<lparr>t_cancel_once := Started\<rparr>, snd r, [], [])"
| "turn_step k ch r CancelCtx t =
     (case ch of
        Ch (CtxDone e) \<Rightarrow> Some (t, TErr (Some (WrapE ''wait for turn cancellation'' e)), [], [])
      | _ \<Rightarrow> Some (t, snd r, [T k CancelSelect], []))"
| "turn_step k ch r CancelSelect t =
     (case ch of
        Ch ClosedSeen \<Rightarrow> if ch_closed (t_cancel_done t) then Some (t, snd r, [T k CancelRead], []) else None
      | Ch (CtxDone e) \<Rightarrow> Some (t, snd r, [T k (CancelPoll e)], [])
      | _ \<Rightarrow> None)"
| "turn_step k ch r (CancelPoll e) t =
     (if ch_closed (t_cancel_done t) then Some (t, snd r, [T k CancelRead], [])
      else Some (t, TErr (Some (WrapE ''wait for turn cancellation'' e)), [], []))"
| "turn_step k ch r CancelRead t = Some (t, TErr (t_cancel_err t), [], [])"
| "turn_step k ch r WaitCheck t =
     (case terminal_result t of
        Some x \<Rightarrow> Some (t, TResult (Inr x), [], [])
      | None \<Rightarrow> Some (t, snd r, [T k WaitSelect], []))"
| "turn_step k ch r WaitSelect t =
     (case ch of
        Ch ClosedSeen \<Rightarrow> if ch_closed (t_terminal_done t) then Some (t, snd r, [T k WaitRead], []) else None
      | Ch (CtxDone e) \<Rightarrow> Some (t, snd r, [T k (WaitRecheck e)], [])
      | _ \<Rightarrow> None)"
| "turn_step k ch r WaitRead t = Some (t, TResult (Inr (t_result t)), [], [])"
| "turn_step k ch r (WaitRecheck e) t =
     Some (t, TResult (case terminal_result t of
                         Some x \<Rightarrow> Inr x | None \<Rightarrow> Inl (WrapE ''wait for turn completion'' e)), [], [])"

section \<open>The calls of a session\<close>

type_synonym wresult = "(world \<times> wval \<times> wact list \<times> wact list list) option"

definition session_obs :: "string \<Rightarrow> string \<Rightarrow> observation" where
  "session_obs k err = (obs k)\<lparr>ORequest := ''create_session'', OError := err\<rparr>"

text \<open>A request whose encoding may fail, then the action that reads its reply.\<close>

definition session_request :: "gerr + raw_request \<Rightarrow> (gerr \<Rightarrow> wact list) \<Rightarrow> sess_act \<Rightarrow> wact list" where
  "session_request enc fails reply =
     (case enc of
        Inl err \<Rightarrow> fails err
      | Inr req \<Rightarrow> map C (request_acts False req None) @ [S reply])"

definition ret_event :: "ret \<Rightarrow> gerr + event" where
  "ret_event r = (case r of REvent x \<Rightarrow> x | _ \<Rightarrow> Inl (Plain ''no event''))"

definition subscribe :: "nat \<Rightarrow> bool \<Rightarrow> world \<Rightarrow> nat \<times> u64 \<times> world" where
  "subscribe buffer turn w =
     (length (c_objs (wc w)), c_next_sub (wc w) + 1, w\<lparr>wc := subscribe_owned buffer turn (wc w)\<rparr>)"

fun sess_step :: "wchoice \<Rightarrow> wval \<Rightarrow> sess_act \<Rightarrow> world \<Rightarrow> wresult" where
  "sess_step ch r (Give x) w = Some (w, (fst r, x), [], [])"
| "sess_step ch r (CreateCall opt) w =
     (case validate_create_session_options opt of
        Some err \<Rightarrow> Some (w, (fst r, TSession (Inl err)), [], [])
      | None \<Rightarrow>
          Some (w, r, C (Emit (session_obs ''create_session_start'' []))
                # session_request (new_raw_request ''create_session'' (Inr (create_session_fields opt)))
                    (\<lambda>err. [C (Emit (session_obs ''create_session_error'' ''request_encode'')),
                            S (Give (TSession (Inl err)))])
                    CreateReplied, []))"
| "sess_step ch r CreateReplied w =
     (case create_session_reply (ret_frame (fst r)) of (res, code) \<Rightarrow>
        Some (w, (fst r, TSession res),
              [C (Emit (case code of
                          None \<Rightarrow> session_obs ''create_session_ok'' []
                        | Some err \<Rightarrow> session_obs ''create_session_error'' err))], []))"
| "sess_step ch r (AttachCall i) w =
     Some (w, r, session_request (new_raw_request ''attach_session'' (Inr (session_id_fields i)))
                   (\<lambda>err. [S (Give (TSession (Inl err)))]) AttachReplied, [])"
| "sess_step ch r AttachReplied w =
     Some (w, (fst r, TSession (attach_session_reply (ret_frame (fst r)))), [], [])"
| "sess_step ch r (ForkCall i) w =
     Some (w, r, session_request (new_raw_request ''fork_session'' (Inr (session_id_fields i)))
                   (\<lambda>err. [S (Give (TSession (Inl err)))]) ForkReplied, [])"
| "sess_step ch r ForkReplied w =
     Some (w, (fst r, TSession (fork_session_reply (ret_frame (fst r)))), [], [])"
| "sess_step ch r (SendCall session content opt now) w =
     (case validate_send_options opt now of
        Some err \<Rightarrow> Some (w, (fst r, TErr (Some err)), [], [])
      | None \<Rightarrow>
          (case new_send_message_request session content opt of
             Inl err \<Rightarrow> Some (w, (fst r, TErr (Some err)), [], [])
           | Inr req \<Rightarrow>
               Some (w, r, (if NoReply opt then map C (notify_acts req) @ [S SendResult]
                            else [S (SendSubscribe req)]), [])))"
| "sess_step ch r SendResult w = Some (w, (fst r, TErr (ret_error (fst r))), [], [])"
| "sess_step ch r (SendSubscribe req) w =
     (case subscribe (nat (EventBuffer (c_options (wc w)))) False w of (ref, i, w') \<Rightarrow>
        Some (w', r, map C (notify_acts req) @ [S (SendNotified ref i)], []))"
| "sess_step ch r (SendNotified ref i) w =
     (case ret_error (fst r) of
        Some err \<Rightarrow> Some (w, (fst r, TErr (Some err)), [C (Us (Unsubscribe i))], [])
      | None \<Rightarrow> Some (w, r, [C (Us (NextEvent ref)), S (SendReceived ref i)], []))"
| "sess_step ch r (SendReceived ref i) w =
     (case ret_event (fst r) of
        Inl err \<Rightarrow> Some (w, (fst r, TErr (Some err)), [C (Us (Unsubscribe i))], [])
      | Inr e \<Rightarrow>
          if Kind e = ''message_accepted''
          then Some (w, (fst r, TErr None), [C (Us (Unsubscribe i))], [])
          else (case (if Kind e = ''error'' then event_error (Event (Frame e)) else None) of
                  Some err \<Rightarrow> Some (w, (fst r, TErr (Some err)), [C (Us (Unsubscribe i))], [])
                | None \<Rightarrow> Some (w, r, [C (Us (NextEvent ref)), S (SendReceived ref i)], [])))"
| "sess_step ch r StreamReceived w =
     Some (w, (fst r, TEvent (stream_event (ret_event (fst r)))), [], [])"
| "sess_step ch r (StartCall session content opt now) w =
     (case validate_send_options opt now of
        Some err \<Rightarrow> Some (w, (fst r, TTurn (Inl err)), [], [])
      | None \<Rightarrow>
          if NoReply opt then Some (w, (fst r, TTurn (Inl (Sent ErrTurnNoReply))), [], [])
          else (case ch of
            LifecycleEnd err cause \<Rightarrow>
              Some (w, (fst r, TTurn (Inl (WrapE ''start turn lifecycle''
                          (case cause of None \<Rightarrow> err | Some e \<Rightarrow> e)))), [], [])
          | Ch _ \<Rightarrow>
              Some (w, r, C (Emit (obs ''turn_start''))
                    # (case new_send_message_request session content opt of
                         Inl err \<Rightarrow> [S (Give (TTurn (Inl (WrapE ''encode turn message'' err))))]
                       | Inr req \<Rightarrow> [S (StartSubscribe session req)]), [])))"
| "sess_step ch r (StartSubscribe session req) w =
     (case subscribe (nat (EventBuffer (c_options (wc w)) + 2)) True w of (ref, i, w') \<Rightarrow>
        let k = length (wturns w); buffer = nat (EventBuffer (c_options (wc w))) in
        Some (w'\<lparr>wturns := wturns w @ [new_turn session ref i buffer]\<rparr>, r,
              map C (notify_acts req) @ [S (StartWritten k)],
              [[T k (DispatchLoop True)], [T k WatchLifecycle]]))"
| "sess_step ch r (StartWritten k) w =
     (case ret_error (fst r) of
        Some err \<Rightarrow>
          (let res = turn_result_from_subscription_error err in
           Some (w, (fst r, TTurn (Inl (case ResErr res of
                       Some e \<Rightarrow> WrapE ''send turn message'' e | None \<Rightarrow> Plain ''send turn message''))),
                 [T k (Finish res)], []))
      | None \<Rightarrow> Some (w, (fst r, TTurn (Inr k)), [T k MarkWriteComplete], []))"

section \<open>The world\<close>

text \<open>Under the background context a wait for a reply ends by the request timeout only, and a wait for an event never.\<close>

definition background_ok :: "act \<Rightarrow> choice \<Rightarrow> bool" where
  "background_ok a ch =
     (case ch of
        CtxDone e \<Rightarrow>
          (case a of
             Rq (RqWait i ref req) \<Rightarrow> e = Sent Ctx_DeadlineExceeded
           | _ \<Rightarrow> False)
      | _ \<Rightarrow> True)"

text \<open>The observer of a request is the turn that sent it.\<close>

definition observer_acts :: "act \<Rightarrow> wact list" where
  "observer_acts a = (case a of Rd (RdObserve k f) \<Rightarrow> [T k (Observed f)] | _ \<Rightarrow> [])"

definition client_step :: "(act \<Rightarrow> wact) \<Rightarrow> choice \<Rightarrow> wval \<Rightarrow> act \<Rightarrow> world \<Rightarrow> wresult" where
  "client_step lift ch r a w =
     (case run_act ch (fst r) a (wc w) of
        None \<Rightarrow> None
      | Some (c', r', new, spawned) \<Rightarrow>
          Some (w\<lparr>wc := c'\<rparr>, (r', snd r), observer_acts a @ map lift new, map (map C) spawned))"

fun world_run :: "wchoice \<Rightarrow> wval \<Rightarrow> wact \<Rightarrow> world \<Rightarrow> wresult" where
  "world_run ch r (C a) w = (case ch of Ch x \<Rightarrow> client_step C x r a w | _ \<Rightarrow> None)"
| "world_run ch r (Bg a) w =
     (case ch of Ch x \<Rightarrow> if background_ok a x then client_step Bg x r a w else None | _ \<Rightarrow> None)"
| "world_run ch r (T k a) w =
     (if length (wturns w) \<le> k then None
      else case turn_step k ch r a (wturns w ! k) of
        None \<Rightarrow> None
      | Some (t, x, new, spawned) \<Rightarrow>
          Some (w\<lparr>wturns := (wturns w)[k := t]\<rparr>, (fst r, x), new, spawned))"
| "world_run ch r (S a) w = sess_step ch r a w"

datatype wcall =
    ClientCall call
  | CallCreate create_options
  | CallAttach string
  | CallFork string
  | CallSend string string send_options int
  | CallStartTurn string string send_options int
  | CallStreamNext nat
  | CallAccepted nat
  | CallTurnNext nat
  | CallCancel nat
  | CallWait nat

fun wcall_acts :: "wcall \<Rightarrow> wact list" where
  "wcall_acts (ClientCall k) = map C (call_acts k)"
| "wcall_acts (CallCreate opt) = [S (CreateCall opt)]"
| "wcall_acts (CallAttach i) = [S (AttachCall i)]"
| "wcall_acts (CallFork i) = [S (ForkCall i)]"
| "wcall_acts (CallSend i content opt now) = [S (SendCall i content opt now)]"
| "wcall_acts (CallStartTurn i content opt now) = [S (StartCall i content opt now)]"
| "wcall_acts (CallStreamNext ref) = [C (Us (NextEvent ref)), S StreamReceived]"
| "wcall_acts (CallAccepted k) = [T k AcceptedCheck]"
| "wcall_acts (CallTurnNext k) = [T k NextLock]"
| "wcall_acts (CallCancel k) = [T k CancelOnce]"
| "wcall_acts (CallWait k) = [T k WaitCheck]"

text \<open>A user cannot observe replies, and has a turn only once it was started.\<close>

fun wcall_ok :: "world \<Rightarrow> wcall \<Rightarrow> bool" where
  "wcall_ok w (ClientCall k) = (case k of CallRequest req ob \<Rightarrow> ob = None | CallEmit ob \<Rightarrow> False | _ \<Rightarrow> True)"
| "wcall_ok w (CallAccepted k) = (k < length (wturns w))"
| "wcall_ok w (CallTurnNext k) = (k < length (wturns w))"
| "wcall_ok w (CallCancel k) = (k < length (wturns w))"
| "wcall_ok w (CallWait k) = (k < length (wturns w))"
| "wcall_ok w _ = True"

type_synonym wsys = "world \<times> (wval, wact) thread list"

definition wcall_start :: "wcall \<Rightarrow> (wval, wact) thread" where
  "wcall_start k = ((NoRet, TNone), wcall_acts k)"

inductive world_step :: "wsys \<Rightarrow> wsys \<Rightarrow> bool" where
  act: "go_at world_run (NoRet, TNone) i ch w gs = Some (w', gs') \<Longrightarrow> world_step (w, gs) (w', gs')"
| call: "wcall_ok w k \<Longrightarrow> world_step (w, gs) (w, gs @ [wcall_start k])"

inductive_cases world_stepE [consumes 1, case_names act call]: "world_step (w, gs) x"

definition new_world :: "options \<Rightarrow> wsys" where
  "new_world opt =
     (\<lparr>wc = new_client opt, wturns = []\<rparr>,
      map (\<lambda>(r, as). ((r, TNone), map C as)) (gos (new_client_sys opt)))"

text \<open>A schedule of the world: calls, and which goroutine moves with which choice.\<close>

fun run_world :: "(wcall + nat \<times> wchoice) list \<Rightarrow> wsys \<Rightarrow> wsys option" where
  "run_world [] s = Some s"
| "run_world (Inl k # ks) s =
     (if wcall_ok (fst s) k then run_world ks (fst s, snd s @ [wcall_start k]) else None)"
| "run_world (Inr (i, ch) # ks) s =
     (case go_at world_run (NoRet, TNone) i ch (fst s) (snd s) of
        None \<Rightarrow> None
      | Some s' \<Rightarrow> run_world ks s')"

lemma run_world_steps: "run_world ks s = Some t \<Longrightarrow> world_step\<^sup>*\<^sup>* s t"
proof (induction ks s rule: run_world.induct)
  case (2 k ks s)
  then show ?case
    by (cases s) (auto split: if_splits intro: converse_rtranclp_into_rtranclp world_step.call)
next
  case (3 i ch ks s)
  then show ?case
    by (cases s) (auto split: option.splits intro: converse_rtranclp_into_rtranclp world_step.act)
qed simp

end
