(* ===== verification/ClientInvariants.thy ===== *)
theory ClientInvariants imports Goroutines "HOL-Library.Multiset" begin

text \<open>
  What holds in every reachable state of a client with all its goroutines.  Each invariant
  is a ledger: what a goroutine still owes is the sum of the weights of its remaining
  actions, and a condition on the client and on the total owed is kept by every action.
\<close>

section \<open>Ledgers\<close>

lemma step_at_go_at:
  "step_at i ch s = Some t \<Longrightarrow> go_at run_act NoRet i ch (cl s) (gos s) = Some (cl t, gos t)"
  by (auto simp: step_at_def go_at_def split: if_splits prod.splits list.splits option.splits)

locale ledger_acts = act_ledger run_act weight ok
  for weight :: "act \<Rightarrow> 'm::comm_monoid_add" and ok :: "client \<Rightarrow> 'm \<Rightarrow> bool"
begin

lemma step_at_ok: "step_at i ch s = Some t \<Longrightarrow> ok (cl s) (owed (gos s)) \<Longrightarrow> ok (cl t) (owed (gos t))"
  by (rule go_at_ok [OF step_at_go_at])

end

locale ledger = ledger_acts +
  assumes call_ok: "ok c m \<Longrightarrow> ok c (sum_list (map weight (call_acts k)) + m)"
begin

lemma step_ok:
  assumes "sys_step s t" "ok (cl s) (owed (gos s))" shows "ok (cl t) (owed (gos t))"
  using assms(1)
proof (cases rule: sys_step.cases)
  case (act i ch)
  then show ?thesis using assms(2) by (rule step_at_ok)
next
  case (call k)
  then show ?thesis using call_ok [of "cl s" "owed (gos s)" k] assms(2)
    by (simp add: start_call_def owed_append) (simp add: owed_def ac_simps)
qed

lemma steps_ok:
  "sys_step\<^sup>*\<^sup>* s t \<Longrightarrow> ok (cl s) (owed (gos s)) \<Longrightarrow> ok (cl t) (owed (gos t))"
  by (induction rule: rtranclp_induct) (auto intro: step_ok)

end

section \<open>Frame facts\<close>

lemma fold_keeps: "(\<And>x c. f (g x c) = f c) \<Longrightarrow> f (fold g xs c) = f c"
  by (induction xs arbitrary: c) simp_all

lemma close_subscriber_locked_keeps [simp]:
  "c_pending (close_subscriber_locked i ref e c) = c_pending c"
  "c_replies (close_subscriber_locked i ref e c) = c_replies c"
  "c_closed (close_subscriber_locked i ref e c) = c_closed c"
  "c_once (close_subscriber_locked i ref e c) = c_once c"
  "c_panics (close_subscriber_locked i ref e c) = c_panics c"
  "c_instance (close_subscriber_locked i ref e c) = c_instance c"
  "c_shutdowns (close_subscriber_locked i ref e c) = c_shutdowns c"
  "c_handed (close_subscriber_locked i ref e c) = c_handed c"
  "c_reconnect_mu (close_subscriber_locked i ref e c) = c_reconnect_mu c"
  "c_write_mu (close_subscriber_locked i ref e c) = c_write_mu c"
  "c_state (close_subscriber_locked i ref e c) = c_state c"
  by (simp_all add: close_subscriber_locked_def)

lemma fail_subscribers_keeps [simp]:
  "c_pending (fail_subscribers p e c) = c_pending c"
  "c_replies (fail_subscribers p e c) = c_replies c"
  "c_closed (fail_subscribers p e c) = c_closed c"
  "c_once (fail_subscribers p e c) = c_once c"
  "c_panics (fail_subscribers p e c) = c_panics c"
  "c_instance (fail_subscribers p e c) = c_instance c"
  "c_shutdowns (fail_subscribers p e c) = c_shutdowns c"
  "c_handed (fail_subscribers p e c) = c_handed c"
  "c_reconnect_mu (fail_subscribers p e c) = c_reconnect_mu c"
  "c_write_mu (fail_subscribers p e c) = c_write_mu c"
  "c_state (fail_subscribers p e c) = c_state c"
  unfolding fail_subscribers_def by (rule fold_keeps; simp split: prod.split)+

lemma unsubscribe_keeps [simp]:
  "c_pending (unsubscribe i c) = c_pending c" "c_replies (unsubscribe i c) = c_replies c"
  "c_closed (unsubscribe i c) = c_closed c" "c_once (unsubscribe i c) = c_once c"
  "c_panics (unsubscribe i c) = c_panics c" "c_instance (unsubscribe i c) = c_instance c"
  "c_shutdowns (unsubscribe i c) = c_shutdowns c" "c_handed (unsubscribe i c) = c_handed c"
  "c_reconnect_mu (unsubscribe i c) = c_reconnect_mu c" "c_write_mu (unsubscribe i c) = c_write_mu c"
  by (simp_all add: unsubscribe_def split: option.split)

lemma subscribe_keeps [simp]:
  "c_pending (subscribe_owned n t c) = c_pending c" "c_replies (subscribe_owned n t c) = c_replies c"
  "c_closed (subscribe_owned n t c) = c_closed c" "c_once (subscribe_owned n t c) = c_once c"
  "c_panics (subscribe_owned n t c) = c_panics c" "c_instance (subscribe_owned n t c) = c_instance c"
  "c_shutdowns (subscribe_owned n t c) = c_shutdowns c" "c_handed (subscribe_owned n t c) = c_handed c"
  "c_reconnect_mu (subscribe_owned n t c) = c_reconnect_mu c" "c_write_mu (subscribe_owned n t c) = c_write_mu c"
  by (simp_all add: subscribe_owned_def Let_def)

lemma dispatch_one_keeps [simp]:
  "c_pending (dispatch_one e x c) = c_pending c" "c_replies (dispatch_one e x c) = c_replies c"
  "c_closed (dispatch_one e x c) = c_closed c" "c_once (dispatch_one e x c) = c_once c"
  "c_instance (dispatch_one e x c) = c_instance c"
  "c_shutdowns (dispatch_one e x c) = c_shutdowns c" "c_handed (dispatch_one e x c) = c_handed c"
  "c_reconnect_mu (dispatch_one e x c) = c_reconnect_mu c" "c_write_mu (dispatch_one e x c) = c_write_mu c"
  "ReplyPanic \<in> set (c_panics (dispatch_one e x c)) \<longleftrightarrow> ReplyPanic \<in> set (c_panics c)"
  "ClosedPanic \<in> set (c_panics (dispatch_one e x c)) \<longleftrightarrow> ClosedPanic \<in> set (c_panics c)"
  by (simp_all add: dispatch_one_def panic_def split: prod.split delivery.split)

lemma dispatch_event_keeps [simp]:
  "c_pending (dispatch_event e c) = c_pending c" "c_replies (dispatch_event e c) = c_replies c"
  "c_closed (dispatch_event e c) = c_closed c" "c_once (dispatch_event e c) = c_once c"
  "c_instance (dispatch_event e c) = c_instance c"
  "c_shutdowns (dispatch_event e c) = c_shutdowns c" "c_handed (dispatch_event e c) = c_handed c"
  "c_reconnect_mu (dispatch_event e c) = c_reconnect_mu c" "c_write_mu (dispatch_event e c) = c_write_mu c"
  "ReplyPanic \<in> set (c_panics (dispatch_event e c)) \<longleftrightarrow> ReplyPanic \<in> set (c_panics c)"
  "ClosedPanic \<in> set (c_panics (dispatch_event e c)) \<longleftrightarrow> ClosedPanic \<in> set (c_panics c)"
  unfolding dispatch_event_def
  by (rule fold_keeps; simp)+ 

lemma emit_keeps [simp]:
  "c_pending (emit x c) = c_pending c" "c_replies (emit x c) = c_replies c"
  "c_closed (emit x c) = c_closed c" "c_once (emit x c) = c_once c"
  "c_instance (emit x c) = c_instance c" "c_panics (emit x c) = c_panics c"
  "c_shutdowns (emit x c) = c_shutdowns c" "c_handed (emit x c) = c_handed c"
  "c_subs (emit x c) = c_subs c" "c_objs (emit x c) = c_objs c"
  "c_reconnect_mu (emit x c) = c_reconnect_mu c" "c_write_mu (emit x c) = c_write_mu c"
  "c_state (emit x c) = c_state c"
  by (simp_all add: emit_def)

lemma set_state_keeps [simp]:
  "c_pending (set_state x c) = c_pending c" "c_replies (set_state x c) = c_replies c"
  "c_closed (set_state x c) = c_closed c" "c_once (set_state x c) = c_once c"
  "c_instance (set_state x c) = c_instance c" "c_panics (set_state x c) = c_panics c"
  "c_shutdowns (set_state x c) = c_shutdowns c" "c_handed (set_state x c) = c_handed c"
  "c_subs (set_state x c) = c_subs c" "c_objs (set_state x c) = c_objs c"
  "c_reconnect_mu (set_state x c) = c_reconnect_mu c" "c_write_mu (set_state x c) = c_write_mu c"
  by (simp_all add: set_state_def)

lemma cancel_monitor_keeps [simp]:
  "c_pending (cancel_monitor c) = c_pending c" "c_replies (cancel_monitor c) = c_replies c"
  "c_closed (cancel_monitor c) = c_closed c" "c_once (cancel_monitor c) = c_once c"
  "c_instance (cancel_monitor c) = c_instance c" "c_panics (cancel_monitor c) = c_panics c"
  "c_shutdowns (cancel_monitor c) = c_shutdowns c" "c_handed (cancel_monitor c) = c_handed c"
  "c_subs (cancel_monitor c) = c_subs c" "c_objs (cancel_monitor c) = c_objs c"
  "c_reconnect_mu (cancel_monitor c) = c_reconnect_mu c" "c_write_mu (cancel_monitor c) = c_write_mu c"
  by (simp_all add: cancel_monitor_def split: option.split)

lemma bridge_exited_keeps [simp]:
  "c_pending (bridge_exited m c) = c_pending c" "c_replies (bridge_exited m c) = c_replies c"
  "c_closed (bridge_exited m c) = c_closed c" "c_once (bridge_exited m c) = c_once c"
  "c_instance (bridge_exited m c) = c_instance c" "c_panics (bridge_exited m c) = c_panics c"
  "c_shutdowns (bridge_exited m c) = c_shutdowns c" "c_handed (bridge_exited m c) = c_handed c"
  "c_reconnect_mu (bridge_exited m c) = c_reconnect_mu c" "c_write_mu (bridge_exited m c) = c_write_mu c"
  by (simp_all add: bridge_exited_def fail_turn_subscribers_def)

lemma write_frame_shape: "write_frame ch g i req c = (err, c') \<Longrightarrow> \<exists>ts. c' = c\<lparr>c_transports := ts\<rparr>"
  by (auto simp: write_frame_def encoder_write_def transport_writer_def Let_def split: sum.splits prod.splits if_splits)
    (metis client.surjective client.update_convs(4))+

section \<open>Reply channels\<close>

text \<open>The reply channels that an action will send to or close.\<close>

fun refs_of :: "act \<Rightarrow> nat multiset" where
  "refs_of (IfState s yes no) = sum_list (map refs_of yes) + sum_list (map refs_of no)"
| "refs_of (IfClosed yes no) = sum_list (map refs_of yes) + sum_list (map refs_of no)"
| "refs_of (Spawn as) = sum_list (map refs_of as)"
| "refs_of (Rd (RdSend ref f)) = {#ref#}"
| "refs_of (Dc (CloseReply ref)) = {#ref#}"
| "refs_of _ = {#}"

definition pending_refs :: "client \<Rightarrow> nat multiset" where
  "pending_refs c = mset (map (\<lambda>(_, ref, _). ref) (c_pending c))"

text \<open>
  A channel that is registered, or that some goroutine will send to or close, is open and
  empty, and belongs to one of them only.
\<close>

definition replies_owned :: "client \<Rightarrow> nat multiset \<Rightarrow> bool" where
  "replies_owned c owners =
     ((\<forall>ref. count owners ref \<le> 1)
      \<and> (\<forall>ref \<in># owners. ref < length (c_replies c) \<and> c_replies c ! ref = fresh_rchan)
      \<and> (\<forall>ch \<in> set (c_replies c). r_closed ch \<le> 1)
      \<and> ReplyPanic \<notin> set (c_panics c))"

definition replies_ok :: "client \<Rightarrow> nat multiset \<Rightarrow> bool" where
  "replies_ok c m = replies_owned c (pending_refs c + m)"

lemma replies_owned_mono:
  assumes "replies_owned c m" "n \<subseteq># m" "c_replies d = c_replies c"
    "ReplyPanic \<in> set (c_panics d) \<Longrightarrow> ReplyPanic \<in> set (c_panics c)"
  shows "replies_owned d n"
  using assms mset_subset_eqD [OF assms(2)] mset_subset_eq_count [OF assms(2)]
  by (fastforce simp: replies_owned_def intro: order_trans)

lemma replies_owned_alloc:
  assumes "replies_owned c m" "n \<subseteq># add_mset (length (c_replies c)) m"
    "c_replies d = c_replies c @ [fresh_rchan]" "c_panics d = c_panics c"
  shows "replies_owned d n"
proof -
  let ?l = "length (c_replies c)"
  have "?l \<notin># m" using assms(1) by (auto simp: replies_owned_def)
  then have "count m ?l = 0" by (simp add: not_in_iff)
  have "count n ref \<le> 1" for ref
    using mset_subset_eq_count [OF assms(2), of ref] assms(1) \<open>count m ?l = 0\<close>
    by (cases "ref = ?l") (auto simp: replies_owned_def intro: order_trans)
  moreover have "ref < length (c_replies d) \<and> c_replies d ! ref = fresh_rchan" if "ref \<in># n" for ref
    using mset_subset_eqD [OF assms(2) that] assms(1,3)
    by (auto simp: replies_owned_def nth_append)
  moreover have "\<forall>ch \<in> set (c_replies d). r_closed ch \<le> 1"
    using assms(1,3) by (auto simp: replies_owned_def fresh_rchan_def)
  ultimately show ?thesis using assms(1,4) by (simp add: replies_owned_def)
qed

lemma replies_owned_use:
  assumes "replies_owned c m" "add_mset ref n \<subseteq># m"
    "c_replies d = (c_replies c)[ref := ch]" "r_closed ch \<le> 1" "c_panics d = c_panics c"
  shows "replies_owned d n"
proof -
  have s: "n \<subseteq># m" using assms(2) by (metis mset_subset_eq_insertD subset_mset.less_imp_le)
  have "count m ref \<le> 1" using assms(1) by (simp add: replies_owned_def)
  moreover have "count n ref + 1 \<le> count m ref" using mset_subset_eq_count [OF assms(2), of ref] by simp
  ultimately have "count n ref = 0" by simp
  then have "ref \<notin># n" by (simp add: not_in_iff)
  moreover have "\<forall>x \<in> set (c_replies d). r_closed x \<le> 1"
    using assms(1,3,4) set_update_subset_insert [of "c_replies c" ref ch]
    by (auto simp: replies_owned_def)
  moreover have "x \<in># m" if "x \<in># n" for x using that mset_subset_eqD [OF s] by blast
  moreover have "count n x \<le> 1" for x
    using mset_subset_eq_count [OF s, of x] assms(1) order_trans unfolding replies_owned_def by blast
  moreover have "c_replies d ! x = c_replies c ! x" if "x \<in># n" for x
    using that \<open>ref \<notin># n\<close> assms(3) by (metis nth_list_update_neq)
  ultimately show ?thesis
    using assms(1,3,5) unfolding replies_owned_def by (simp del: One_nat_def)
qed

lemma replies_owned_receive:
  assumes "replies_owned c m" "r_buf (c_replies c ! ref) = Some f"
    "c_replies d = (c_replies c)[ref := (c_replies c ! ref)\<lparr>r_buf := None\<rparr>]" "c_panics d = c_panics c"
  shows "replies_owned d m"
proof -
  have n: "ref \<notin># m" using assms(1,2) by (auto simp: replies_owned_def fresh_rchan_def)
  have "r_closed x \<le> 1" if "x \<in> set (c_replies d)" for x
  proof (cases "ref < length (c_replies c)")
    case True
    then have "r_closed (c_replies c ! ref) \<le> 1" using assms(1) by (auto simp: replies_owned_def)
    with that assms(1,3) set_update_subset_insert [of "c_replies c" ref] show ?thesis
      by (fastforce simp: replies_owned_def)
  next
    case False
    then have "c_replies d = c_replies c" using assms(3) by (simp add: list_update_beyond)
    with that assms(1) show ?thesis by (simp add: replies_owned_def)
  qed
  moreover have "c_replies d ! x = c_replies c ! x" if "x \<in># m" for x
    using that n assms(3) by (metis nth_list_update_neq)
  ultimately show ?thesis
    using assms(1,3,4) unfolding replies_owned_def by (simp del: One_nat_def)
qed

lemma mset_update_subset:
  "mset (map f (AList.update k v al)) \<subseteq># add_mset (f (k, v)) (mset (map f al))"
proof (induction al)
  case (Cons a al)
  then show ?case
    by (cases a) (auto intro: subset_mset.order_trans)
qed simp

lemma mset_delete_subset: "mset (map f (AList.delete k al)) \<subseteq># mset (map f al)"
  by (induction al) (auto simp: AList.delete_eq intro: subset_mset.order_trans)

lemma mset_delete_lookup:
  "map_of al k = Some v \<Longrightarrow> add_mset (f (k, v)) (mset (map f (AList.delete k al))) \<subseteq># mset (map f al)"
proof (induction al)
  case (Cons a al)
  then show ?case using mset_delete_subset [of f k al] by (cases a) auto
qed simp

lemma pending_refs_delete: "pending_refs (remove_pending i c) \<subseteq># pending_refs c"
proof -
  have "c_pending (remove_pending i c) = AList.delete i (c_pending c)" by (simp add: remove_pending_def)
  then show ?thesis unfolding pending_refs_def by (simp only: mset_delete_subset)
qed

lemma pending_refs_keep: "c_pending d = c_pending c \<Longrightarrow> pending_refs d = pending_refs c"
  by (simp add: pending_refs_def)

lemma replies_ok_keep:
  assumes "replies_ok c m" "c_pending d = c_pending c" "c_replies d = c_replies c" "n \<subseteq># m"
    "ReplyPanic \<in> set (c_panics d) \<Longrightarrow> ReplyPanic \<in> set (c_panics c)"
  shows "replies_ok d n"
  using assms(1) unfolding replies_ok_def
  by (rule replies_owned_mono) (use assms(2-5) in \<open>simp_all add: pending_refs_def\<close>)

lemma no_refs [simp]:
  "sum_list (map refs_of (request_acts a req t)) = {#}"
  "sum_list (map refs_of (notify_acts req)) = {#}"
  "sum_list (map refs_of (disconnect_acts e term)) = {#}"
  "sum_list (map refs_of (reader_acts g x)) = {#}"
  "sum_list (map refs_of (handshake_acts opt)) = {#}"
  "sum_list (map refs_of (resume_acts s)) = {#}"
  "sum_list (map refs_of (call_acts k)) = {#}"
  "sum_list (map refs_of (attempt_failed w g n e b)) = {#}"
  "sum_list (map refs_of (reconnected_acts n)) = {#}"
proof -
  show rq: "sum_list (map refs_of (request_acts a req t)) = {#}" for a req t
    by (simp add: request_acts_def request_state_error_def return_error_def Let_def)
  show nt: "sum_list (map refs_of (notify_acts req)) = {#}" for req
    by (simp add: notify_acts_def request_state_error_def)
  show "sum_list (map refs_of (disconnect_acts e term)) = {#}"
    by (simp add: disconnect_acts_def disconnect_body_def)
  show "sum_list (map refs_of (reader_acts g x)) = {#}"
    by (auto simp: reader_acts_def read_loop_acts_def split: sum.split option.split)
  show "sum_list (map refs_of (handshake_acts opt)) = {#}"
    by (auto simp: handshake_acts_def rq return_error_def split: sum.split)
  show "sum_list (map refs_of (resume_acts s)) = {#}"
    by (auto simp: resume_acts_def rq return_error_def split: sum.split)
  show "sum_list (map refs_of (call_acts k)) = {#}"
    by (cases k) (simp_all add: rq nt close_acts_def)
  show "sum_list (map refs_of (attempt_failed w g n e b)) = {#}"
    by (simp add: attempt_failed_def)
  show "sum_list (map refs_of (reconnected_acts n)) = {#}"
    by (simp add: reconnected_acts_def)
qed

lemma refs_close_replies: "sum_list (map refs_of (map (\<lambda>ref. Dc (CloseReply ref)) refs)) = mset refs"
  by (induction refs) auto

text \<open>An action that leaves pending requests and reply channels alone.\<close>

definition replies_same :: "client \<Rightarrow> client \<Rightarrow> bool" where
  "replies_same c d = (c_pending d = c_pending c \<and> c_replies d = c_replies c
     \<and> (ReplyPanic \<in> set (c_panics d) \<longrightarrow> ReplyPanic \<in> set (c_panics c)))"

lemma replies_same_ok:
  "replies_same c d \<Longrightarrow> replies_ok c m \<Longrightarrow> n \<subseteq># m \<Longrightarrow> replies_ok d n"
  by (rule replies_ok_keep [where c = c and m = m]) (simp_all add: replies_same_def)

lemma replies_same_write:
  assumes "write_frame ch g i req c = (err, d)" shows "replies_same c d"
  using write_frame_shape [OF assms] by (auto simp: replies_same_def)

lemma replies_same_done:
  "replies_same c d \<and> sum_list (map refs_of new) = {#} \<Longrightarrow> replies_ok c m \<Longrightarrow>
   replies_ok d (sum_list (map refs_of new) + m)"
  using replies_same_ok [of c d m m] by simp

lemma replies_rq:
  assumes "rq_step ch r a c = Some (c', r', new)" "replies_ok c m"
  shows "replies_ok c' (sum_list (map refs_of new) + m)"
proof (cases a)
  case (RqRegister req on_reply)
  have "pending_refs c' \<subseteq># add_mset (length (c_replies c)) (pending_refs c)"
    using assms(1) mset_update_subset [of "\<lambda>(_, ref, _). ref" "c_next_id c + 1" "(length (c_replies c), on_reply)" "c_pending c"]
    by (auto simp: RqRegister register_request_def Let_def pending_refs_def)
  then show ?thesis
    using assms unfolding replies_ok_def
    by (intro replies_owned_alloc [OF assms(2) [unfolded replies_ok_def]])
      (auto simp: RqRegister register_request_def Let_def)
next
  case (RqEncoder i ref req)
  with assms(1) have "replies_same c c' \<and> sum_list (map refs_of new) = {#}"
    by (auto simp: replies_same_def split: if_splits)
  then show ?thesis using assms(2) by (rule replies_same_done)
next
  case (RqWrite g i ref req)
  obtain err d where d: "write_frame ch g i req c = (err, d)" by fastforce
  with assms(1) have "replies_same c c' \<and> sum_list (map refs_of new) = {#}"
    using replies_same_write [OF d]
    by (auto simp: RqWrite replies_same_def return_error_def split: option.splits)
  then show ?thesis using assms(2) by (rule replies_same_done)
next
  case (NtWrite g i req)
  obtain err d where d: "write_frame ch g i req c = (err, d)" by fastforce
  with assms(1) have "replies_same c c' \<and> sum_list (map refs_of new) = {#}"
    using replies_same_write [OF d] by (auto simp: NtWrite replies_same_def split: option.splits)
  then show ?thesis using assms(2) by (rule replies_same_done)
next
  case (NtEncoder req)
  with assms(1) have "replies_same c c' \<and> sum_list (map refs_of new) = {#}"
    by (auto simp: replies_same_def Let_def split: if_splits)
  then show ?thesis using assms(2) by (rule replies_same_done)
next
  case (RqRemove i)
  have c': "c' = remove_pending i c" "new = []" using assms(1) by (simp_all add: RqRemove)
  have "replies_owned c' (pending_refs c' + m)"
    using assms(2) unfolding replies_ok_def c'(1)
    by (rule replies_owned_mono) (simp_all add: pending_refs_delete, simp_all add: remove_pending_def)
  then show ?thesis by (simp add: replies_ok_def c'(2))
next
  case (RqWait i ref req)
  show ?thesis
  proof (cases "ch = ReplyReady \<and> r_buf (c_replies c ! ref) \<noteq> None")
    case True
    then obtain f where f: "r_buf (c_replies c ! ref) = Some f" "ch = ReplyReady" by blast
    with assms(1) have "c_replies c' = (c_replies c)[ref := (c_replies c ! ref)\<lparr>r_buf := None\<rparr>]"
        "c_panics c' = c_panics c" "c_pending c' = c_pending c" "new = []"
      by (auto simp: RqWait)
    note c' = this
    have "replies_owned c' (pending_refs c + m)"
      by (rule replies_owned_receive [OF assms(2) [unfolded replies_ok_def] f(1) c'(1,2)])
    then show ?thesis by (simp add: replies_ok_def c'(4) pending_refs_keep [OF c'(3)])
  next
    case False
    with assms(1) have "replies_same c c' \<and> sum_list (map refs_of new) = {#}"
      by (cases ch) (auto simp: RqWait return_error_def replies_same_def split: option.splits if_splits)
    then show ?thesis using assms(2) by (rule replies_same_done)
  qed
qed


lemma replies_owned_close:
  assumes "replies_ok c (add_mset ref m)"
  shows "replies_ok (close_reply ref c) m"
proof -
  have o: "replies_owned c (add_mset ref (pending_refs c + m))"
    using assms by (simp add: replies_ok_def)
  then have f: "c_replies c ! ref = fresh_rchan" by (simp add: replies_owned_def)
  let ?d = "c\<lparr>c_replies := (c_replies c)[ref := fresh_rchan\<lparr>r_closed := 1\<rparr>]\<rparr>"
  have "replies_owned ?d (pending_refs c + m)"
    by (rule replies_owned_use [OF o, where ref = ref and ch = "fresh_rchan\<lparr>r_closed := 1\<rparr>"])
      (simp_all add: fresh_rchan_def)
  moreover have "pending_refs ?d = pending_refs c" by (rule pending_refs_keep) simp
  moreover have "close_reply ref c = ?d"
    by (simp add: close_reply_def f Let_def) (simp add: fresh_rchan_def)
  ultimately show ?thesis by (simp add: replies_ok_def)
qed

lemma replies_owned_send:
  assumes "replies_ok c (add_mset ref m)"
  shows "\<exists>d. send_reply ref f c = Some d \<and> replies_ok d m"
proof -
  have o: "replies_owned c (add_mset ref (pending_refs c + m))"
    using assms by (simp add: replies_ok_def)
  then have f: "c_replies c ! ref = fresh_rchan" by (simp add: replies_owned_def)
  let ?d = "c\<lparr>c_replies := (c_replies c)[ref := fresh_rchan\<lparr>r_buf := Some f\<rparr>]\<rparr>"
  have "replies_owned ?d (pending_refs c + m)"
    by (rule replies_owned_use [OF o, where ref = ref and ch = "fresh_rchan\<lparr>r_buf := Some f\<rparr>"])
      (simp_all add: fresh_rchan_def)
  moreover have "pending_refs ?d = pending_refs c" by (rule pending_refs_keep) simp
  moreover have "send_reply ref f c = Some ?d"
    by (simp add: send_reply_def f) (simp add: fresh_rchan_def)
  ultimately show ?thesis by (simp add: replies_ok_def)
qed

lemma replies_rd:
  assumes "rd_step ch r a c = Some (c', r', new)" "replies_ok c (refs_of (Rd a) + m)"
  shows "replies_ok c' (sum_list (map refs_of new) + m)"
proof (cases a)
  case (RdTake i f g)
  show ?thesis
  proof (cases "map_of (c_pending c) i")
    case None
    with assms show ?thesis by (auto simp: RdTake take_pending_def read_loop_acts_def)
  next
    case (Some x)
    obtain ref on_reply where x: "x = (ref, on_reply)" by fastforce
    have "add_mset ref (pending_refs (remove_pending i c)) \<subseteq># pending_refs c"
      using mset_delete_lookup [OF Some, of "\<lambda>(_, ref, _). ref"]
      by (simp add: pending_refs_def remove_pending_def x)
    then have "replies_owned (remove_pending i c) (add_mset ref (pending_refs (remove_pending i c)) + m)"
      using assms(2) unfolding replies_ok_def
      by (rule_tac replies_owned_mono) (auto simp: RdTake remove_pending_def)
    with assms(1) Some x show ?thesis
      by (auto simp: RdTake take_pending_def read_loop_acts_def replies_ok_def split: option.splits)
  qed
next
  case (RdSend ref f)
  with assms replies_owned_send [of c ref m f] show ?thesis by (auto split: option.splits)
next
  case (RdRead g)
  with assms(1) have "replies_same c c' \<and> sum_list (map refs_of new) = {#}"
    by (auto simp: replies_same_def split: choice.splits)
  then show ?thesis using assms(2) RdRead by (intro replies_same_done) simp_all
next
  case (RdObserve t f)
  with assms(1) have "replies_same c c' \<and> sum_list (map refs_of new) = {#}"
    by (auto simp: replies_same_def)
  then show ?thesis using assms(2) RdObserve by (intro replies_same_done) simp_all
next
  case (RdDispatch e)
  with assms(1) have "replies_same c c' \<and> sum_list (map refs_of new) = {#}"
    by (auto simp: replies_same_def)
  then show ?thesis using assms(2) RdDispatch by (intro replies_same_done) simp_all
qed

lemma replies_dc:
  assumes "dc_step ch r a c = Some (c', r', new)" "replies_ok c (refs_of (Dc a) + m)"
  shows "replies_ok c' (sum_list (map refs_of new) + m)"
proof (cases a)
  case SwapPending
  have "replies_owned (c\<lparr>c_pending := []\<rparr>) (pending_refs c + m)"
    using assms(2) unfolding replies_ok_def SwapPending by (rule replies_owned_mono) simp_all
  with assms(1) show ?thesis
    by (auto simp: SwapPending swap_pending_def replies_ok_def refs_close_replies pending_refs_def comp_def)
next
  case (CloseReply ref)
  with assms replies_owned_close [of c ref m] show ?thesis by simp
next
  case (DcEnter e t)
  with assms(1) have "replies_same c c' \<and> sum_list (map refs_of new) = {#}"
    by (auto simp: replies_same_def split: if_splits)
  then show ?thesis using assms(2) DcEnter by (intro replies_same_done) simp_all
next
  case (DcTransport e)
  with assms(1) have "replies_same c c' \<and> sum_list (map refs_of new) = {#}"
    by (auto simp: replies_same_def close_transport_def)
  then show ?thesis using assms(2) DcTransport by (intro replies_same_done) simp_all
next
  case (DcSubs e t)
  with assms(1) have "replies_same c c' \<and> sum_list (map refs_of new) = {#}"
    by (auto simp: replies_same_def fail_turn_subscribers_def split: if_splits)
  then show ?thesis using assms(2) DcSubs by (intro replies_same_done) simp_all
qed

lemma replies_cl:
  assumes "cl_step ch r a c = Some (c', r', new)" "replies_ok c m"
  shows "replies_ok c' (sum_list (map refs_of new) + m)"
proof -
  have "replies_same c c' \<and> sum_list (map refs_of new) = {#}"
    using assms(1)
    by (cases a) (auto simp: replies_same_def close_transport_def panic_def split: if_splits option.splits once.splits)
  then show ?thesis using assms(2) by (rule replies_same_done)
qed

lemma replies_us:
  assumes "us_step ch r a c = Some (c', r', new)" "replies_ok c m"
  shows "replies_ok c' (sum_list (map refs_of new) + m)"
proof -
  have "replies_same c c' \<and> sum_list (map refs_of new) = {#}"
    using assms(1)
    by (cases a) (auto simp: replies_same_def Let_def set_instance_def detach_instance_def
        split: if_splits option.splits choice.splits prod.splits)
  then show ?thesis using assms(2) by (rule replies_same_done)
qed

lemma replies_rc:
  assumes "rc_step ch r a c = Some (c', r', new)" "replies_ok c m"
  shows "replies_ok c' (sum_list (map refs_of new) + m)"
proof -
  have "replies_same c c' \<and> sum_list (map refs_of new) = {#}"
    using assms(1)
    by (cases a) (auto simp: replies_same_def Let_def install_decoder_def read_loop_acts_def
        split: if_splits option.splits choice.splits sum.splits)
  then show ?thesis using assms(2) by (rule replies_same_done)
qed

lemma replies_run:
  assumes "run_act ch r a c = Some (c', r', new, sp)" "replies_ok c (refs_of a + m)"
  shows "replies_ok c' (sum_list (map refs_of new) + sum_list (map refs_of (concat sp)) + m)"
proof (cases a)
  case (IfState s yes no)
  with assms show ?thesis by (auto intro: replies_same_ok [OF _ assms(2)] simp: replies_same_def)
next
  case (IfClosed yes no)
  with assms show ?thesis by (auto intro: replies_same_ok [OF _ assms(2)] simp: replies_same_def)
next
  case (SetState s)
  with assms show ?thesis by (auto intro: replies_same_ok [OF _ assms(2)] simp: replies_same_def)
next
  case (Emit x)
  with assms show ?thesis by (auto intro: replies_same_ok [OF _ assms(2)] simp: replies_same_def)
next
  case UnlockReconnect
  with assms show ?thesis by (auto intro: replies_same_ok [OF _ assms(2)] simp: replies_same_def)
next
  case (Rq x)
  with assms replies_rq [of ch r x c c' r' new m] show ?thesis by auto
next
  case (Rd x)
  with assms replies_rd [of ch r x c c' r' new m] show ?thesis by auto
next
  case (Dc x)
  with assms replies_dc [of ch r x c c' r' new m] show ?thesis by auto
next
  case (Cl x)
  with assms replies_cl [of ch r x c c' r' new m] show ?thesis by auto
next
  case (Us x)
  with assms replies_us [of ch r x c c' r' new m] show ?thesis by auto
next
  case (Rc x)
  with assms replies_rc [of ch r x c c' r' new m] show ?thesis by auto
qed (use assms in auto)

interpretation reply_ledger: ledger refs_of replies_ok
  by unfold_locales (blast intro: replies_run, simp)


section \<open>Subscribers\<close>

text \<open>
  Every registered subscriber is open and registered once; every subscriber ever made is
  open, ended or was made after the close.
\<close>

definition subs_wf :: "client \<Rightarrow> bool" where
  "subs_wf c =
     (distinct (map fst (c_subs c)) \<and> distinct (map snd (c_subs c))
      \<and> (\<forall>(i, ref) \<in> set (c_subs c). ref < length (c_objs c) \<and> sub_open (c_objs c ! ref))
      \<and> (\<forall>s \<in> set (c_objs c). sub_ok s)
      \<and> EventPanic \<notin> set (c_panics c))"

lemma subs_wf_keep:
  "subs_wf c \<Longrightarrow> c_subs d = c_subs c \<Longrightarrow> c_objs d = c_objs c \<Longrightarrow>
   (EventPanic \<in> set (c_panics d) \<Longrightarrow> EventPanic \<in> set (c_panics c)) \<Longrightarrow> subs_wf d"
  by (auto simp: subs_wf_def)

lemma set_delete_pairs: "set (AList.delete k al) = {x \<in> set al. fst x \<noteq> k}"
  by (auto simp: AList.delete_eq)

lemma distinct_delete_snd: "distinct (map snd al) \<Longrightarrow> distinct (map snd (AList.delete k al))"
  by (induction al) (auto simp: AList.delete_eq)

lemma set_update_pairs:
  "distinct (map fst al) \<Longrightarrow> set (AList.update k v al) = insert (k, v) {x \<in> set al. fst x \<noteq> k}"
  by (induction al) (auto, force+)

lemma distinct_update_snd:
  "distinct (map snd al) \<Longrightarrow> v \<notin> snd ` set al \<Longrightarrow> distinct (map snd (AList.update k v al))"
proof (induction al)
  case (Cons a al)
  have "snd ` set (AList.update k v al) \<subseteq> insert v (snd ` set al)"
    by (induction al) auto
  with Cons show ?case by (cases a) auto
qed simp

lemma subs_wf_replace:
  assumes "subs_wf c" "ref < length (c_objs c)" "sub_ok s" "sub_open (c_objs c ! ref) \<Longrightarrow> sub_open s"
    "c_subs d = c_subs c" "c_objs d = (c_objs c)[ref := s]" "c_panics d = c_panics c"
  shows "subs_wf d"
proof -
  have "set (c_objs d) \<subseteq> insert s (set (c_objs c))"
    unfolding assms(6) by (rule set_update_subset_insert)
  with assms show ?thesis
    by (auto simp: subs_wf_def nth_list_update)
qed

lemma subs_wf_end:
  assumes "subs_wf c" "(i, ref) \<in> set (c_subs c)"
  shows "subs_wf (close_subscriber_locked i ref err c)"
proof -
  let ?s = "close_subscriber err (c_objs c ! ref)"
  have o: "ref < length (c_objs c)" "sub_open (c_objs c ! ref)"
    using assms by (auto simp: subs_wf_def)
  have "set ((c_objs c)[ref := ?s]) \<subseteq> insert ?s (set (c_objs c))" by (rule set_update_subset_insert)
  moreover have "sub_ok ?s" using close_open [OF o(2)] by (simp add: sub_ok_def)
  ultimately have "\<forall>s \<in> set ((c_objs c)[ref := ?s]). sub_ok s" using assms(1) by (auto simp: subs_wf_def)
  moreover have "j < length (c_objs c) \<and> sub_open ((c_objs c)[ref := ?s] ! j)"
    if "(k, j) \<in> set (AList.delete i (c_subs c))" for k j
  proof -
    have kj: "(k, j) \<in> set (c_subs c)" "k \<noteq> i" using that by (auto simp: set_delete_pairs)
    then have "j \<noteq> ref"
      using assms unfolding subs_wf_def distinct_map inj_on_def by fastforce
    with kj assms(1) show ?thesis by (auto simp: subs_wf_def)
  qed
  ultimately show ?thesis
    using assms(1) nth_list_update_neq
    by (auto simp: subs_wf_def close_subscriber_locked_def distinct_delete distinct_delete_snd)
qed

lemma subs_close_set: "c_subs (close_subscriber_locked i ref err c) = AList.delete i (c_subs c)"
  by (simp add: close_subscriber_locked_def)

text \<open>A loop over the registered subscribers, each round removing at most its own entry.\<close>

lemma subs_wf_loop:
  assumes "subs_wf c" "set xs \<subseteq> set (c_subs c)" "distinct (map fst xs)"
    and "\<And>x c. subs_wf c \<Longrightarrow> x \<in> set (c_subs c) \<Longrightarrow>
       subs_wf (g x c) \<and> {y \<in> set (c_subs c). fst y \<noteq> fst x} \<subseteq> set (c_subs (g x c))"
  shows "subs_wf (fold g xs c)"
  using assms(1-3)
proof (induction xs arbitrary: c)
  case (Cons x xs)
  have g: "subs_wf (g x c)" "{y \<in> set (c_subs c). fst y \<noteq> fst x} \<subseteq> set (c_subs (g x c))"
    using assms(4) [of c x] Cons.prems by auto
  have "set xs \<subseteq> set (c_subs (g x c))"
  proof
    fix y assume "y \<in> set xs"
    then have "fst y \<in> fst ` set xs" "y \<in> set (c_subs c)" using Cons.prems(2) by auto
    moreover have "fst x \<notin> fst ` set xs" using Cons.prems(3) by simp
    ultimately have "y \<in> set (c_subs c)" "fst y \<noteq> fst x" by metis+
    with g(2) show "y \<in> set (c_subs (g x c))" by blast
  qed
  with Cons.IH [OF g(1)] Cons.prems show ?case by simp
qed simp

lemma subs_wf_fail: "subs_wf c \<Longrightarrow> subs_wf (fail_subscribers p e c)"
  unfolding fail_subscribers_def
proof (rule subs_wf_loop)
  fix x and c :: client
  assume "subs_wf c" "x \<in> set (c_subs c)"
  then show "subs_wf ((case x of (i, ref) \<Rightarrow> \<lambda>c. if p (c_objs c ! ref)
        then close_subscriber_locked i ref (Some e) c else c) c) \<and>
      {y \<in> set (c_subs c). fst y \<noteq> fst x} \<subseteq> set (c_subs ((case x of (i, ref) \<Rightarrow> \<lambda>c. if p (c_objs c ! ref)
        then close_subscriber_locked i ref (Some e) c else c) c))"
    by (cases x) (auto simp: subs_wf_end subs_close_set set_delete_pairs)
qed (simp_all add: subs_wf_def)

lemma dispatch_ready:
  assumes "subs_wf c" "(i, ref) \<in> set (c_subs c)"
  shows "dispatch_one e (i, ref) c =
    (if length (ev_buf (c_objs c ! ref)) < ev_cap (c_objs c ! ref)
     then c\<lparr>c_objs := (c_objs c)[ref := (c_objs c ! ref)\<lparr>ev_buf := ev_buf (c_objs c ! ref) @ [e]\<rparr>]\<rparr>
     else close_subscriber_locked i ref (Some (Sent ErrSubscriberOverflow)) c)"
proof -
  have "sub_open (c_objs c ! ref)" using assms by (auto simp: subs_wf_def)
  then show ?thesis by (simp add: dispatch_one_def deliver_open)
qed

lemma subs_wf_dispatch: "subs_wf c \<Longrightarrow> subs_wf (dispatch_event e c)"
  unfolding dispatch_event_def
proof (rule subs_wf_loop)
  fix x and c :: client
  assume c: "subs_wf c" "x \<in> set (c_subs c)"
  obtain i ref where x: "x = (i, ref)" by fastforce
  then have o: "ref < length (c_objs c)" "sub_open (c_objs c ! ref)"
    using c by (auto simp: subs_wf_def)
  let ?s = "(c_objs c ! ref)\<lparr>ev_buf := ev_buf (c_objs c ! ref) @ [e]\<rparr>"
  have "subs_wf (dispatch_one e x c)"
  proof (cases "length (ev_buf (c_objs c ! ref)) < ev_cap (c_objs c ! ref)")
    case True
    then have "sub_open ?s" using o(2) by (simp add: sub_open_def)
    then show ?thesis
      using dispatch_ready [OF c(1), of i ref e] c(2) x True o
      by (auto intro!: subs_wf_replace [OF c(1) o(1), of ?s] simp: sub_ok_def)
  next
    case False
    then show ?thesis using dispatch_ready [OF c(1), of i ref e] c x by (simp add: subs_wf_end)
  qed
  moreover have "{y \<in> set (c_subs c). fst y \<noteq> fst x} \<subseteq> set (c_subs (dispatch_one e x c))"
    using dispatch_ready [OF c(1), of i ref e] c(2) x by (auto simp: subs_close_set set_delete_pairs)
  ultimately show "subs_wf (dispatch_one e x c) \<and> {y \<in> set (c_subs c). fst y \<noteq> fst x} \<subseteq> set (c_subs (dispatch_one e x c))"
    by blast
qed (simp_all add: subs_wf_def)

lemma subs_wf_subscribe: "subs_wf c \<Longrightarrow> subs_wf (subscribe_owned n t c)"
proof -
  assume wf: "subs_wf c"
  have new: "length (c_objs c) \<notin> snd ` set (c_subs c)"
    using wf by (fastforce simp: subs_wf_def)
  have "sub_ok (closed_subscriber (Sent ErrClosed) (new_subscriber n t))" "sub_ok (new_subscriber n t)"
    using stillborn_closed new_subscriber_open by (auto simp: sub_ok_def)
  then show ?thesis
    using wf new new_subscriber_open [of n t]
    by (auto simp: subscribe_owned_def Let_def subs_wf_def nth_append set_update_pairs
        distinct_update distinct_update_snd)
qed

lemma subs_wf_unsubscribe: "subs_wf c \<Longrightarrow> subs_wf (unsubscribe i c)"
  by (auto simp: unsubscribe_def intro: subs_wf_end dest: map_of_SomeD split: option.split)

lemma subs_wf_next:
  assumes "subs_wf c" "ref < length (c_objs c)" "(x, s) \<in> set (next_event ctx fb (c_objs c ! ref))"
  shows "subs_wf (c\<lparr>c_objs := (c_objs c)[ref := s]\<rparr>)"
proof (rule subs_wf_replace [OF assms(1,2)])
  have "sub_ok (c_objs c ! ref)" using assms(1,2) by (simp add: subs_wf_def)
  from next_event_ok [OF this assms(3)] show "sub_ok s" "sub_open (c_objs c ! ref) \<Longrightarrow> sub_open s" .
qed simp_all


definition subs_same :: "client \<Rightarrow> client \<Rightarrow> bool" where
  "subs_same c d = (c_subs d = c_subs c \<and> c_objs d = c_objs c
     \<and> (EventPanic \<in> set (c_panics d) \<longrightarrow> EventPanic \<in> set (c_panics c)))"

lemma subs_same_wf: "subs_same c d \<Longrightarrow> subs_wf c \<Longrightarrow> subs_wf d"
  by (rule subs_wf_keep [of c]) (simp_all add: subs_same_def)

lemma subs_rq: "rq_step ch r a c = Some (c', r', new) \<Longrightarrow> subs_same c c'"
proof (cases a)
  case (RqWrite g i ref req)
  assume s: "rq_step ch r a c = Some (c', r', new)"
  obtain err d where d: "write_frame ch g i req c = (err, d)" by fastforce
  from s write_frame_shape [OF d] show ?thesis
    by (auto simp: RqWrite d subs_same_def split: option.splits)
next
  case (NtWrite g i req)
  assume s: "rq_step ch r a c = Some (c', r', new)"
  obtain err d where d: "write_frame ch g i req c = (err, d)" by fastforce
  from s write_frame_shape [OF d] show ?thesis by (auto simp: NtWrite d subs_same_def)
next
  case (RqWait i ref req)
  assume s: "rq_step ch r a c = Some (c', r', new)"
  then show ?thesis
    by (cases ch) (auto simp: RqWait subs_same_def split: option.splits if_splits)
qed (auto simp: subs_same_def register_request_def remove_pending_def Let_def split: if_splits)

lemma subs_rd: "rd_step ch r a c = Some (c', r', new) \<Longrightarrow> subs_wf c \<Longrightarrow> subs_wf c'"
proof (cases a)
  case (RdDispatch e)
  assume "rd_step ch r a c = Some (c', r', new)" "subs_wf c"
  then show ?thesis by (auto simp: RdDispatch intro: subs_wf_dispatch)
qed (auto simp: subs_same_def take_pending_def remove_pending_def send_reply_def panic_def Let_def
      split: choice.splits option.splits if_splits prod.splits intro!: subs_same_wf [of c])

lemma subs_dc: "dc_step ch r a c = Some (c', r', new) \<Longrightarrow> subs_wf c \<Longrightarrow> subs_wf c'"
proof (cases a)
  case (DcSubs e t)
  assume "dc_step ch r a c = Some (c', r', new)" "subs_wf c"
  then show ?thesis by (auto simp: DcSubs fail_turn_subscribers_def intro: subs_wf_fail)
qed (auto simp: subs_same_def close_transport_def swap_pending_def close_reply_def panic_def Let_def
      split: if_splits intro!: subs_same_wf [of c])

lemma subs_cl: "cl_step ch r a c = Some (c', r', new) \<Longrightarrow> subs_wf c \<Longrightarrow> subs_wf c'"
proof (cases a)
  case (ClSubs e)
  assume "cl_step ch r a c = Some (c', r', new)" "subs_wf c"
  then show ?thesis by (auto simp: ClSubs intro: subs_wf_fail)
qed (auto simp: subs_same_def close_transport_def panic_def
      split: if_splits once.splits option.splits intro!: subs_same_wf [of c])

lemma subs_rc: "rc_step ch r a c = Some (c', r', new) \<Longrightarrow> subs_same c c'"
  by (cases a) (auto simp: subs_same_def Let_def install_decoder_def
      split: if_splits option.splits choice.splits sum.splits)

lemma subs_us: "us_step ch r a c = Some (c', r', new) \<Longrightarrow> subs_wf c \<Longrightarrow> subs_wf c'"
proof (cases a)
  case (NextEvent ref)
  assume s: "us_step ch r a c = Some (c', r', new)" and wf: "subs_wf c"
  define ctx where "ctx = (case ch of CtxDone e \<Rightarrow> Some e | _ \<Rightarrow> None)"
  define outs where "outs = next_event ctx (state_error c) (c_objs c ! ref)"
  obtain x t where xt: "(if ch = Go then hd outs else last outs) = (x, t)" by fastforce
  have "ref < length (c_objs c)" "outs \<noteq> []" "c' = c\<lparr>c_objs := (c_objs c)[ref := t]\<rparr>"
    using s xt unfolding NextEvent by (auto simp: ctx_def outs_def Let_def split: if_splits)
  moreover have "(x, t) \<in> set outs" using \<open>outs \<noteq> []\<close> xt by (metis hd_in_set last_in_set)
  ultimately show ?thesis using wf subs_wf_next unfolding outs_def by metis
next
  case (Subscribe n t)
  assume "us_step ch r a c = Some (c', r', new)" "subs_wf c"
  then show ?thesis by (auto simp: Subscribe intro: subs_wf_subscribe)
next
  case (Unsubscribe i)
  assume "us_step ch r a c = Some (c', r', new)" "subs_wf c"
  then show ?thesis by (auto simp: Unsubscribe intro: subs_wf_unsubscribe)
next
  case (BridgeExited m)
  assume s: "us_step ch r a c = Some (c', r', new)" and wf: "subs_wf c"
  have "subs_wf (fail_subscribers sub_turn (Sent ErrBridgeExited) c)" using wf by (rule subs_wf_fail)
  then have "subs_wf ((fail_subscribers sub_turn (Sent ErrBridgeExited) c)\<lparr>c_monitor := None\<rparr>)"
    by (rule subs_wf_keep) simp_all
  with s wf show ?thesis
    by (auto simp: BridgeExited bridge_exited_def fail_turn_subscribers_def split: if_splits)
qed (auto simp: subs_same_def set_instance_def detach_instance_def Let_def
      split: choice.splits option.splits if_splits prod.splits intro!: subs_same_wf [of c])

lemma subs_run:
  assumes "run_act ch r a c = Some (c', r', new, sp)" "subs_wf c" shows "subs_wf c'"
proof (cases a)
  case (Rq x)
  with assms(1) have "subs_same c c'" by (auto dest: subs_rq)
  then show ?thesis using assms(2) by (rule subs_same_wf)
next
  case (Rc x)
  with assms(1) have "subs_same c c'" by (auto dest: subs_rc)
  then show ?thesis using assms(2) by (rule subs_same_wf)
next
  case (Rd x)
  with assms show ?thesis by (auto dest: subs_rd)
next
  case (Dc x)
  with assms show ?thesis by (auto dest: subs_dc)
next
  case (Cl x)
  with assms show ?thesis by (auto dest: subs_cl)
next
  case (Us x)
  with assms show ?thesis by (auto dest: subs_us)
qed (use assms in \<open>auto intro!: subs_same_wf [OF _ assms(2)] simp: subs_same_def\<close>)

interpretation sub_ledger: ledger "\<lambda>_. 0 :: nat" "\<lambda>c _. subs_wf c"
  by unfold_locales (blast intro: subs_run, simp)


section \<open>Closing\<close>

declare sum_list_eq_0_iff [simp del]

fun close_weight :: "act \<Rightarrow> nat" where
  "close_weight (IfState s yes no) = sum_list (map close_weight yes) + sum_list (map close_weight no)"
| "close_weight (IfClosed yes no) = sum_list (map close_weight yes) + sum_list (map close_weight no)"
| "close_weight (Spawn as) = sum_list (map close_weight as)"
| "close_weight (Cl (ClState e)) = 1"
| "close_weight (Cl (ClSignal e)) = 1"
| "close_weight _ = 0"

text \<open>The closed channel is closed by the one goroutine that won the once, and the error is set with it.\<close>

definition close_ok :: "client \<Rightarrow> nat \<Rightarrow> bool" where
  "close_ok c m = (c_closed c + m \<le> 1 \<and> (c_once c = OnceNew \<longrightarrow> c_closed c + m = 0)
     \<and> (c_close_err c \<noteq> None \<longleftrightarrow> 0 < c_closed c) \<and> ClosedPanic \<notin> set (c_panics c))"

definition close_same :: "client \<Rightarrow> client \<Rightarrow> bool" where
  "close_same c d = (c_closed d = c_closed c \<and> c_once d = c_once c \<and> c_close_err d = c_close_err c
     \<and> (ClosedPanic \<in> set (c_panics d) \<longrightarrow> ClosedPanic \<in> set (c_panics c)))"

lemma close_same_ok: "close_same c d \<Longrightarrow> close_ok c m \<Longrightarrow> n \<le> m \<Longrightarrow> close_ok d n"
  by (auto simp: close_same_def close_ok_def)

lemma close_err_keeps [simp]:
  "c_close_err (fail_subscribers p e c) = c_close_err c"
  "c_close_err (dispatch_event ev c) = c_close_err c"
  "c_close_err (unsubscribe i c) = c_close_err c"
  "c_close_err (subscribe_owned n t c) = c_close_err c"
  "c_close_err (cancel_monitor c) = c_close_err c"
  "c_close_err (emit x c) = c_close_err c"
  "c_close_err (set_state s c) = c_close_err c"
  "c_close_err (bridge_exited m c) = c_close_err c"
proof -
  show f: "c_close_err (fail_subscribers p e c) = c_close_err c" for p e
    unfolding fail_subscribers_def
    by (rule fold_keeps; simp add: close_subscriber_locked_def split: prod.split)
  show "c_close_err (dispatch_event ev c) = c_close_err c"
    unfolding dispatch_event_def
    by (rule fold_keeps; simp add: dispatch_one_def close_subscriber_locked_def panic_def split: prod.split delivery.split)
  show "c_close_err (bridge_exited m c) = c_close_err c"
    by (simp add: bridge_exited_def fail_turn_subscribers_def f)
qed (simp_all add: unsubscribe_def close_subscriber_locked_def subscribe_owned_def Let_def
      cancel_monitor_def emit_def set_state_def split: option.split)

lemma close_free [simp]:
  "sum_list (map close_weight (request_acts a req t)) = 0"
  "sum_list (map close_weight (notify_acts req)) = 0"
  "sum_list (map close_weight (disconnect_acts e term)) = 0"
  "sum_list (map close_weight (reader_acts g x)) = 0"
  "sum_list (map close_weight (handshake_acts opt)) = 0"
  "sum_list (map close_weight (resume_acts s)) = 0"
  "sum_list (map close_weight (call_acts k)) = 0"
  "sum_list (map close_weight (attempt_failed w g n e b)) = 0"
  "sum_list (map close_weight (reconnected_acts n)) = 0"
  "sum_list (map close_weight (read_loop_acts g)) = 0"
  "sum_list (map close_weight (map (\<lambda>ref. Dc (CloseReply ref)) refs)) = 0"
proof -
  show rq: "sum_list (map close_weight (request_acts a req t)) = 0" for a req t
    by (simp add: request_acts_def request_state_error_def return_error_def Let_def)
  show nt: "sum_list (map close_weight (notify_acts req)) = 0" for req
    by (simp add: notify_acts_def request_state_error_def)
  show "sum_list (map close_weight (call_acts k)) = 0"
    by (cases k) (simp_all add: rq nt close_acts_def)
  show "sum_list (map close_weight (handshake_acts opt)) = 0"
    by (auto simp: handshake_acts_def rq return_error_def split: sum.split)
  show "sum_list (map close_weight (resume_acts s)) = 0"
    by (auto simp: resume_acts_def rq return_error_def split: sum.split)
  show "sum_list (map close_weight (map (\<lambda>ref. Dc (CloseReply ref)) refs)) = 0"
    by (induction refs) auto
qed (auto simp: disconnect_acts_def disconnect_body_def reader_acts_def read_loop_acts_def
      attempt_failed_def reconnected_acts_def split: sum.split option.split)

abbreviation (input) close_quiet :: "client \<Rightarrow> client \<Rightarrow> act list \<Rightarrow> bool" where
  "close_quiet c d new \<equiv> close_same c d \<and> sum_list (map close_weight new) = 0"

lemma close_rq: "rq_step ch r a c = Some (c', r', new) \<Longrightarrow> close_quiet c c' new"
proof (cases a)
  case (RqWrite g i ref req)
  assume s: "rq_step ch r a c = Some (c', r', new)"
  obtain err d where d: "write_frame ch g i req c = (err, d)" by fastforce
  from s write_frame_shape [OF d] show ?thesis
    by (auto simp: RqWrite d close_same_def return_error_def split: option.splits)
next
  case (NtWrite g i req)
  assume s: "rq_step ch r a c = Some (c', r', new)"
  obtain err d where d: "write_frame ch g i req c = (err, d)" by fastforce
  from s write_frame_shape [OF d] show ?thesis by (auto simp: NtWrite d close_same_def split: option.splits)
next
  case (RqWait i ref req)
  assume s: "rq_step ch r a c = Some (c', r', new)"
  then show ?thesis
    by (cases ch) (auto simp: RqWait close_same_def return_error_def split: option.splits if_splits)
qed (auto simp: close_same_def register_request_def remove_pending_def Let_def split: if_splits)

lemma close_rd: "rd_step ch r a c = Some (c', r', new) \<Longrightarrow> close_quiet c c' new"
  by (cases a) (auto simp: close_same_def take_pending_def remove_pending_def send_reply_def panic_def Let_def
      split: choice.splits option.splits if_splits prod.splits)

lemma close_dc: "dc_step ch r a c = Some (c', r', new) \<Longrightarrow> close_quiet c c' new"
  by (cases a) (auto simp: fail_turn_subscribers_def close_same_def close_transport_def swap_pending_def
      close_reply_def panic_def Let_def comp_def split: if_splits)

lemma close_us: "us_step ch r a c = Some (c', r', new) \<Longrightarrow> close_quiet c c' new"
  by (cases a) (auto simp: close_same_def set_instance_def detach_instance_def Let_def
      split: choice.splits option.splits if_splits prod.splits)

lemma close_rc: "rc_step ch r a c = Some (c', r', new) \<Longrightarrow> close_quiet c c' new"
  by (cases a) (auto simp: close_same_def Let_def install_decoder_def
      split: if_splits option.splits choice.splits sum.splits)

lemma close_cl:
  assumes "cl_step ch r a c = Some (c', r', new)" "close_ok c (close_weight (Cl a) + m)"
  shows "close_ok c' (sum_list (map close_weight new) + m)"
  using assms
  by (cases a) (auto simp: close_ok_def close_transport_def panic_def
      split: once.splits option.splits if_splits)

lemma close_run:
  assumes "run_act ch r a c = Some (c', r', new, sp)" "close_ok c (close_weight a + m)"
  shows "close_ok c' (sum_list (map close_weight new) + sum_list (map close_weight (concat sp)) + m)"
proof -
  have q: "close_quiet c c' new \<Longrightarrow> sp = [] \<Longrightarrow> ?thesis"
    using close_same_ok [OF _ assms(2), of c' m] by simp
  show ?thesis
  proof (cases a)
    case (Cl x)
    with assms close_cl [of ch r x c c' r' new m] show ?thesis by auto
  next
    case (Rq x)
    with assms(1) q show ?thesis by (auto dest: close_rq)
  next
    case (Rd x)
    with assms(1) q show ?thesis by (auto dest: close_rd)
  next
    case (Dc x)
    with assms(1) q show ?thesis by (auto dest: close_dc)
  next
    case (Us x)
    with assms(1) q show ?thesis by (auto dest: close_us)
  next
    case (Rc x)
    with assms(1) q show ?thesis by (auto dest: close_rc)
  qed (use assms in \<open>auto intro!: close_same_ok [OF _ assms(2)] simp: close_same_def\<close>)
qed

interpretation close_ledger: ledger close_weight close_ok
  by unfold_locales (blast intro: close_run, simp)


section \<open>Locks\<close>

text \<open>A goroutine inside the critical section of the reconnect lock, and of the write lock.\<close>

fun lock_weight :: "act \<Rightarrow> nat" where
  "lock_weight (IfState s yes no) = max (sum_list (map lock_weight yes)) (sum_list (map lock_weight no))"
| "lock_weight (IfClosed yes no) = max (sum_list (map lock_weight yes)) (sum_list (map lock_weight no))"
| "lock_weight (Spawn as) = sum_list (map lock_weight as)"
| "lock_weight UnlockReconnect = 1"
| "lock_weight (Rc (RcLoop n e b)) = 1"
| "lock_weight (Rc (RcTimer n e b)) = 1"
| "lock_weight (Rc (RcFactory n b)) = 1"
| "lock_weight (Rc (RcHandshook n b g)) = 1"
| "lock_weight (Rc (RcResume n b g)) = 1"
| "lock_weight (Rc (RcResumed n b g)) = 1"
| "lock_weight _ = 0"

fun write_weight :: "act \<Rightarrow> nat" where
  "write_weight (IfState s yes no) = max (sum_list (map write_weight yes)) (sum_list (map write_weight no))"
| "write_weight (IfClosed yes no) = max (sum_list (map write_weight yes)) (sum_list (map write_weight no))"
| "write_weight (Spawn as) = sum_list (map write_weight as)"
| "write_weight (Rq (RqWrite g i ref req)) = 1"
| "write_weight (Rq (NtWrite g i req)) = 1"
| "write_weight _ = 0"

definition lock_ok :: "client \<Rightarrow> nat \<Rightarrow> bool" where
  "lock_ok c m = (m \<le> of_bool (c_reconnect_mu c))"

definition write_ok :: "client \<Rightarrow> nat \<Rightarrow> bool" where
  "write_ok c m = (m \<le> of_bool (c_write_mu c))"

lemma lock_acts [simp]:
  "sum_list (map lock_weight (request_acts a req t)) = 0"
  "sum_list (map lock_weight (notify_acts req)) = 0"
  "sum_list (map lock_weight (disconnect_acts e term)) = 1"
  "sum_list (map lock_weight (reader_acts g x)) = 0"
  "sum_list (map lock_weight (handshake_acts opt)) = 0"
  "sum_list (map lock_weight (resume_acts s)) = 0"
  "sum_list (map lock_weight (call_acts k)) = 0"
  "sum_list (map lock_weight (attempt_failed w g n e b)) = 1"
  "sum_list (map lock_weight (reconnected_acts n)) = 1"
  "sum_list (map lock_weight (read_loop_acts g)) = 0"
proof -
  show rq: "sum_list (map lock_weight (request_acts a req t)) = 0" for a req t
    by (simp add: request_acts_def request_state_error_def return_error_def Let_def)
  show nt: "sum_list (map lock_weight (notify_acts req)) = 0" for req
    by (simp add: notify_acts_def request_state_error_def)
  show "sum_list (map lock_weight (call_acts k)) = 0"
    by (cases k) (simp_all add: rq nt close_acts_def)
  show "sum_list (map lock_weight (handshake_acts opt)) = 0"
    by (auto simp: handshake_acts_def rq return_error_def split: sum.split)
  show "sum_list (map lock_weight (resume_acts s)) = 0"
    by (auto simp: resume_acts_def rq return_error_def split: sum.split)
qed (auto simp: disconnect_acts_def disconnect_body_def reader_acts_def read_loop_acts_def
      attempt_failed_def reconnected_acts_def split: sum.split option.split)

lemma write_acts [simp]:
  "sum_list (map write_weight (request_acts a req t)) = 0"
  "sum_list (map write_weight (notify_acts req)) = 0"
  "sum_list (map write_weight (disconnect_acts e term)) = 0"
  "sum_list (map write_weight (reader_acts g x)) = 0"
  "sum_list (map write_weight (handshake_acts opt)) = 0"
  "sum_list (map write_weight (resume_acts s)) = 0"
  "sum_list (map write_weight (call_acts k)) = 0"
  "sum_list (map write_weight (attempt_failed w g n e b)) = 0"
  "sum_list (map write_weight (reconnected_acts n)) = 0"
  "sum_list (map write_weight (read_loop_acts g)) = 0"
proof -
  show rq: "sum_list (map write_weight (request_acts a req t)) = 0" for a req t
    by (simp add: request_acts_def request_state_error_def return_error_def Let_def)
  show nt: "sum_list (map write_weight (notify_acts req)) = 0" for req
    by (simp add: notify_acts_def request_state_error_def)
  show "sum_list (map write_weight (call_acts k)) = 0"
    by (cases k) (simp_all add: rq nt close_acts_def)
  show "sum_list (map write_weight (handshake_acts opt)) = 0"
    by (auto simp: handshake_acts_def rq return_error_def split: sum.split)
  show "sum_list (map write_weight (resume_acts s)) = 0"
    by (auto simp: resume_acts_def rq return_error_def split: sum.split)
qed (auto simp: disconnect_acts_def disconnect_body_def reader_acts_def read_loop_acts_def
      attempt_failed_def reconnected_acts_def split: sum.split option.split)

definition locks_same :: "client \<Rightarrow> client \<Rightarrow> bool" where
  "locks_same c d = (c_reconnect_mu d = c_reconnect_mu c \<and> c_write_mu d = c_write_mu c)"

lemma lock_rq:
  assumes "rq_step ch r a c = Some (c', r', new)"
  shows "c_reconnect_mu c' = c_reconnect_mu c \<and> sum_list (map lock_weight new) = 0 \<and>
    (write_ok c (write_weight (Rq a) + m) \<longrightarrow> write_ok c' (sum_list (map write_weight new) + m))"
proof (cases a)
  case (RqWrite g i ref req)
  obtain err d where d: "write_frame ch g i req c = (err, d)" by fastforce
  from assms write_frame_shape [OF d] show ?thesis
    by (auto simp: RqWrite d write_ok_def return_error_def split: option.splits)
next
  case (NtWrite g i req)
  obtain err d where d: "write_frame ch g i req c = (err, d)" by fastforce
  from assms write_frame_shape [OF d] show ?thesis by (auto simp: NtWrite d write_ok_def split: option.splits)
next
  case (RqWait i ref req)
  with assms show ?thesis
    by (cases ch) (auto simp: write_ok_def return_error_def split: option.splits if_splits)
qed (use assms in \<open>auto simp: write_ok_def register_request_def remove_pending_def Let_def split: if_splits\<close>)


lemma lock_rd:
  assumes "rd_step ch r a c = Some (c', r', new)"
  shows "locks_same c c' \<and> sum_list (map lock_weight new) = 0 \<and> sum_list (map write_weight new) = 0"
  using assms
  by (cases a) (auto simp: locks_same_def take_pending_def remove_pending_def send_reply_def panic_def Let_def
      split: choice.splits option.splits if_splits prod.splits)

lemma lock_cl:
  assumes "cl_step ch r a c = Some (c', r', new)"
  shows "locks_same c c' \<and> sum_list (map lock_weight new) = 0 \<and> sum_list (map write_weight new) = 0"
  using assms
  by (cases a) (auto simp: locks_same_def close_transport_def panic_def
      split: once.splits option.splits if_splits)

lemma lock_us:
  assumes "us_step ch r a c = Some (c', r', new)"
  shows "locks_same c c' \<and> sum_list (map lock_weight new) = 0 \<and> sum_list (map write_weight new) = 0"
  using assms
  by (cases a) (auto simp: locks_same_def set_instance_def detach_instance_def Let_def
      split: choice.splits option.splits if_splits prod.splits)

lemma lock_dc:
  assumes "dc_step ch r a c = Some (c', r', new)" "lock_ok c m"
  shows "c_write_mu c' = c_write_mu c \<and> sum_list (map write_weight new) = 0 \<and>
    lock_ok c' (sum_list (map lock_weight new) + m)"
  using assms
  by (cases a) (auto simp: lock_ok_def fail_turn_subscribers_def close_transport_def swap_pending_def
      close_reply_def panic_def Let_def comp_def split: if_splits)

lemma lock_rc:
  assumes "rc_step ch r a c = Some (c', r', new)" "lock_ok c (lock_weight (Rc a) + m)"
  shows "c_write_mu c' = c_write_mu c \<and> sum_list (map write_weight new) = 0 \<and>
    lock_ok c' (sum_list (map lock_weight new) + m)"
  using assms
  by (cases a) (auto simp: lock_ok_def Let_def install_decoder_def
      split: if_splits option.splits choice.splits sum.splits)

lemma lock_run:
  assumes "run_act ch r a c = Some (c', r', new, sp)" "lock_ok c (lock_weight a + m)"
  shows "lock_ok c' (sum_list (map lock_weight new) + sum_list (map lock_weight (concat sp)) + m)"
proof (cases a)
  case (Rq x)
  with assms lock_rq [of ch r x c c' r' new] show ?thesis by (auto simp: lock_ok_def)
next
  case (Rd x)
  with assms lock_rd [of ch r x c c' r' new] show ?thesis by (auto simp: lock_ok_def locks_same_def)
next
  case (Cl x)
  with assms lock_cl [of ch r x c c' r' new] show ?thesis by (auto simp: lock_ok_def locks_same_def)
next
  case (Us x)
  with assms lock_us [of ch r x c c' r' new] show ?thesis by (auto simp: lock_ok_def locks_same_def)
next
  case (Dc x)
  then have "lock_ok c m" using assms(2) by (simp add: lock_ok_def)
  with assms Dc lock_dc [of ch r x c c' r' new m] show ?thesis by auto
next
  case (Rc x)
  with assms lock_rc [of ch r x c c' r' new m] show ?thesis by auto
qed (use assms in \<open>auto simp: lock_ok_def of_bool_def split: if_splits\<close>)

lemma write_run:
  assumes "run_act ch r a c = Some (c', r', new, sp)" "write_ok c (write_weight a + m)"
  shows "write_ok c' (sum_list (map write_weight new) + sum_list (map write_weight (concat sp)) + m)"
proof (cases a)
  case (Rq x)
  with assms lock_rq [of ch r x c c' r' new m] show ?thesis by auto
next
  case (Rd x)
  with assms lock_rd [of ch r x c c' r' new] show ?thesis by (auto simp: write_ok_def locks_same_def)
next
  case (Cl x)
  with assms lock_cl [of ch r x c c' r' new] show ?thesis by (auto simp: write_ok_def locks_same_def)
next
  case (Us x)
  with assms lock_us [of ch r x c c' r' new] show ?thesis by (auto simp: write_ok_def locks_same_def)
next
  case (Dc x)
  have "c_write_mu c' = c_write_mu c \<and> sum_list (map write_weight new) = 0 \<and> sp = []"
    using assms(1) unfolding Dc
    by (cases x) (auto simp: fail_turn_subscribers_def close_transport_def swap_pending_def
      close_reply_def panic_def Let_def comp_def split: if_splits)
  with assms(2) Dc show ?thesis by (simp add: write_ok_def)
next
  case (Rc x)
  have "c_write_mu c' = c_write_mu c \<and> sum_list (map write_weight new) = 0 \<and> sp = []"
    using assms(1) unfolding Rc
    by (cases x) (auto simp: Let_def install_decoder_def split: if_splits option.splits choice.splits sum.splits)
  with assms(2) Rc show ?thesis by (simp add: write_ok_def)
qed (use assms in \<open>auto simp: write_ok_def\<close>)

interpretation lock_ledger: ledger lock_weight lock_ok
  by unfold_locales (blast intro: lock_run, simp)

interpretation write_ledger: ledger write_weight write_ok
  by unfold_locales (blast intro: write_run, simp)

section \<open>Private instances\<close>

fun instance_weight :: "act \<Rightarrow> nat multiset" where
  "instance_weight (IfState s yes no) = sum_list (map instance_weight yes) + sum_list (map instance_weight no)"
| "instance_weight (IfClosed yes no) = sum_list (map instance_weight yes) + sum_list (map instance_weight no)"
| "instance_weight (Spawn as) = sum_list (map instance_weight as)"
| "instance_weight (Cl (ClShutdown inst)) = {#inst#}"
| "instance_weight (Us (SetInstance inst w)) = {#inst#}"
| "instance_weight _ = {#}"

definition opt_mset :: "'a option \<Rightarrow> 'a multiset" where
  "opt_mset x = (case x of None \<Rightarrow> {#} | Some y \<Rightarrow> {#y#})"

text \<open>The instances the client holds, has shut down and has handed over.\<close>

definition instances :: "client \<Rightarrow> nat multiset" where
  "instances c = opt_mset (c_instance c) + mset (c_shutdowns c) + mset (c_handed c)"

definition instances_same :: "client \<Rightarrow> client \<Rightarrow> bool" where
  "instances_same c d = (c_instance d = c_instance c \<and> c_shutdowns d = c_shutdowns c \<and> c_handed d = c_handed c)"

lemma instances_sameD: "instances_same c d \<Longrightarrow> instances d = instances c"
  by (simp add: instances_same_def instances_def)

lemma instance_free [simp]:
  "sum_list (map instance_weight (request_acts a req t)) = {#}"
  "sum_list (map instance_weight (notify_acts req)) = {#}"
  "sum_list (map instance_weight (disconnect_acts e term)) = {#}"
  "sum_list (map instance_weight (reader_acts g x)) = {#}"
  "sum_list (map instance_weight (handshake_acts opt)) = {#}"
  "sum_list (map instance_weight (resume_acts s)) = {#}"
  "sum_list (map instance_weight (attempt_failed w g n e b)) = {#}"
  "sum_list (map instance_weight (reconnected_acts n)) = {#}"
  "sum_list (map instance_weight (read_loop_acts g)) = {#}"
proof -
  show rq: "sum_list (map instance_weight (request_acts a req t)) = {#}" for a req t
    by (simp add: request_acts_def request_state_error_def return_error_def Let_def)
  show nt: "sum_list (map instance_weight (notify_acts req)) = {#}" for req
    by (simp add: notify_acts_def request_state_error_def)
  show "sum_list (map instance_weight (handshake_acts opt)) = {#}"
    by (auto simp: handshake_acts_def rq return_error_def split: sum.split)
  show "sum_list (map instance_weight (resume_acts s)) = {#}"
    by (auto simp: resume_acts_def rq return_error_def split: sum.split)
qed (auto simp: disconnect_acts_def disconnect_body_def reader_acts_def read_loop_acts_def
      attempt_failed_def reconnected_acts_def split: sum.split option.split)

lemma instances_rq:
  assumes "rq_step ch r a c = Some (c', r', new)"
  shows "instances_same c c' \<and> sum_list (map instance_weight new) = {#}"
proof (cases a)
  case (RqWrite g i ref req)
  obtain err d where d: "write_frame ch g i req c = (err, d)" by fastforce
  from assms write_frame_shape [OF d] show ?thesis
    by (auto simp: RqWrite d instances_same_def return_error_def split: option.splits)
next
  case (NtWrite g i req)
  obtain err d where d: "write_frame ch g i req c = (err, d)" by fastforce
  from assms write_frame_shape [OF d] show ?thesis
    by (auto simp: NtWrite d instances_same_def split: option.splits)
next
  case (RqWait i ref req)
  with assms show ?thesis
    by (cases ch) (auto simp: instances_same_def return_error_def split: option.splits if_splits)
qed (use assms in \<open>auto simp: instances_same_def register_request_def remove_pending_def Let_def split: if_splits\<close>)

lemma instances_rd:
  assumes "rd_step ch r a c = Some (c', r', new)"
  shows "instances_same c c' \<and> sum_list (map instance_weight new) = {#}"
  using assms
  by (cases a) (auto simp: instances_same_def take_pending_def remove_pending_def send_reply_def panic_def Let_def
      split: choice.splits option.splits if_splits prod.splits)

lemma instances_dc:
  assumes "dc_step ch r a c = Some (c', r', new)"
  shows "instances_same c c' \<and> sum_list (map instance_weight new) = {#}"
  using assms
  by (cases a) (auto simp: instances_same_def fail_turn_subscribers_def close_transport_def swap_pending_def
      close_reply_def panic_def Let_def comp_def split: if_splits)

lemma instances_rc:
  assumes "rc_step ch r a c = Some (c', r', new)"
  shows "instances_same c c' \<and> sum_list (map instance_weight new) = {#}"
  using assms
  by (cases a) (auto simp: instances_same_def Let_def install_decoder_def
      split: if_splits option.splits choice.splits sum.splits)

lemma instances_cl:
  assumes "cl_step ch r a c = Some (c', r', new)"
  shows "instances c' + sum_list (map instance_weight new) = instances c + instance_weight (Cl a)"
  using assms
  by (cases a) (auto simp: instances_def opt_mset_def close_transport_def panic_def
      split: once.splits option.splits if_splits)

lemma instances_us:
  assumes "us_step ch r a c = Some (c', r', new)"
  shows "instances c' + sum_list (map instance_weight new) \<subseteq># instances c + instance_weight (Us a)"
  using assms
  by (cases a) (auto simp: instances_def opt_mset_def set_instance_def detach_instance_def Let_def
      split: choice.splits option.splits if_splits prod.splits)

lemma instances_run:
  assumes "run_act ch r a c = Some (c', r', new, sp)"
  shows "instances c' + (sum_list (map instance_weight new) + sum_list (map instance_weight (concat sp)))
     \<subseteq># instances c + instance_weight a"
proof (cases a)
  case (Rq x)
  with assms instances_rq [of ch r x c c' r' new] show ?thesis by (auto dest: instances_sameD)
next
  case (Rd x)
  with assms instances_rd [of ch r x c c' r' new] show ?thesis by (auto dest: instances_sameD)
next
  case (Dc x)
  with assms instances_dc [of ch r x c c' r' new] show ?thesis by (auto dest: instances_sameD)
next
  case (Rc x)
  with assms instances_rc [of ch r x c c' r' new] show ?thesis by (auto dest: instances_sameD)
next
  case (Cl x)
  with assms instances_cl [of ch r x c c' r' new] show ?thesis by auto
next
  case (Us x)
  with assms instances_us [of ch r x c c' r' new] show ?thesis by auto
qed (use assms in \<open>auto simp: instances_def\<close>)

interpretation instance_ledger: ledger_acts instance_weight "\<lambda>c m. instances c + m \<subseteq># G" for G :: "nat multiset"
proof
  fix ch r a c c' r' new sp m
  assume s: "run_act ch r a c = Some (c', r', new, sp)" and G: "instances c + (instance_weight a + m) \<subseteq># G"
  have "instances c' + (sum_list (map instance_weight new) + sum_list (map instance_weight (concat sp))) + m
      \<subseteq># instances c + instance_weight a + m"
    using instances_run [OF s] by (rule mset_subset_eq_mono_add_right_cancel [THEN iffD2])
  from subset_mset.order_trans [OF this] G
  show "instances c' + (sum_list (map instance_weight new) + sum_list (map instance_weight (concat sp)) + m)
      \<subseteq># G"
    by (simp add: add.assoc)
qed


end
