(* ===== verification/ClientSafety.thy ===== *)
theory ClientSafety imports ClientInvariants begin

text \<open>
  What the ledgers give for every reachable state of a client: no channel operation panics,
  replies never wait, the locks exclude each other and every private instance is given up
  at most once.
\<close>

section \<open>Safety of every reachable state\<close>

lemma initial_owed [simp]:
  "reply_ledger.owed (gos (new_client_sys opt)) = {#}"
  "close_ledger.owed (gos (new_client_sys opt)) = 0"
  "lock_ledger.owed (gos (new_client_sys opt)) = 0"
  "write_ledger.owed (gos (new_client_sys opt)) = 0"
  "instance_ledger.owed (gos (new_client_sys opt)) = {#}"
  by (simp_all add: new_client_sys_def reply_ledger.owed_def close_ledger.owed_def lock_ledger.owed_def
      write_ledger.owed_def instance_ledger.owed_def read_loop_acts_def)

lemma new_client_simps [simp]:
  "cl (new_client_sys opt) = new_client opt"
  "c_pending (new_client opt) = []" "c_replies (new_client opt) = []" "c_panics (new_client opt) = []"
  "c_subs (new_client opt) = []" "c_objs (new_client opt) = []" "c_closed (new_client opt) = 0"
  "c_close_err (new_client opt) = None" "c_instance (new_client opt) = None"
  "c_shutdowns (new_client opt) = []" "c_handed (new_client opt) = []"
  by (simp_all add: new_client_sys_def new_client_def Let_def)

lemma reach_replies:
  assumes "sys_step\<^sup>*\<^sup>* (new_client_sys opt) s"
  shows "replies_ok (cl s) (reply_ledger.owed (gos s))"
  by (rule reply_ledger.steps_ok [OF assms])
    (simp add: replies_ok_def replies_owned_def pending_refs_def)

lemma reach_subs:
  assumes "sys_step\<^sup>*\<^sup>* (new_client_sys opt) s" shows "subs_wf (cl s)"
  by (rule sub_ledger.steps_ok [OF assms]) (simp add: subs_wf_def)

lemma reach_close:
  assumes "sys_step\<^sup>*\<^sup>* (new_client_sys opt) s" shows "close_ok (cl s) (close_ledger.owed (gos s))"
  by (rule close_ledger.steps_ok [OF assms]) (simp add: close_ok_def)

lemma reach_lock:
  assumes "sys_step\<^sup>*\<^sup>* (new_client_sys opt) s" shows "lock_ok (cl s) (lock_ledger.owed (gos s))"
  by (rule lock_ledger.steps_ok [OF assms]) (simp add: lock_ok_def)

lemma reach_write:
  assumes "sys_step\<^sup>*\<^sup>* (new_client_sys opt) s" shows "write_ok (cl s) (write_ledger.owed (gos s))"
  by (rule write_ledger.steps_ok [OF assms]) (simp add: write_ok_def)

text \<open>The options of a Go zero value.\<close>

definition zero_options :: options where
  "zero_options = \<lparr>ClientName = [], MaxFrameSize = 0, EventBuffer = 0, RequestBuffer = 0,
     RequestTimeout = 0, OSession = [], HasFactory = False, MaxAttempts = 0, Backoff = 0,
     MaxBackoff = 0, Resume = False\<rparr>"

text \<open>No interleaving of a client's goroutines ever sends on a closed channel or closes a channel twice,
  be it a reply channel, an event channel or the client's own closed channel.\<close>

theorem client_never_panics:
  assumes "sys_step\<^sup>*\<^sup>* (new_client_sys opt) s"
  shows "c_panics (cl s) = []"
proof -
  have "p \<notin> set (c_panics (cl s))" for p
    using reach_replies [OF assms] reach_subs [OF assms] reach_close [OF assms]
    by (cases p) (auto simp: replies_ok_def replies_owned_def subs_wf_def close_ok_def)
  then show ?thesis by (metis list.set_intros(1) neq_Nil_conv)
qed

theorem client_never_panics_witness:
  "c_panics (cl (start_call CallClose (new_client_sys zero_options))) = []"
  by (rule client_never_panics) (auto intro: sys_step.call)

lemma distinct_if_count_le_1: "(\<And>x. count (mset xs) x \<le> 1) \<Longrightarrow> distinct xs"
proof (induction xs)
  case (Cons a xs)
  have "count (mset xs) a = 0" using Cons.prems [of a] by simp
  moreover have "count (mset xs) x \<le> 1" for x
    by (rule le_trans [OF _ Cons.prems [of x]]) simp
  ultimately show ?case using Cons.IH by (simp add: count_eq_zero_iff)
qed simp




text \<open>C29: a subscriber the client still has registered is open in every reachable state, so that the reader's
  send to it is either queued or an overflow and never meets a closed channel, and no channel
  of any subscriber is ever closed twice.\<close>

theorem registered_subscribers_open:
  assumes "sys_step\<^sup>*\<^sup>* (new_client_sys opt) s" "(i, ref) \<in> set (c_subs (cl s))"
  shows "ref < length (c_objs (cl s)) \<and> sub_open (c_objs (cl s) ! ref) \<and>
    deliver e (c_objs (cl s) ! ref) =
      (if length (ev_buf (c_objs (cl s) ! ref)) < ev_cap (c_objs (cl s) ! ref)
       then [Queued ((c_objs (cl s) ! ref)\<lparr>ev_buf := ev_buf (c_objs (cl s) ! ref) @ [e]\<rparr>)] else [Full]) \<and>
    (\<forall>x \<in> set (c_objs (cl s)). ev_closed x \<le> 1 \<and> er_closed x \<le> 1 \<and> done_closed x \<le> 1)"
proof -
  have wf: "subs_wf (cl s)" by (rule reach_subs [OF assms(1)])
  then have "ref < length (c_objs (cl s))" "sub_open (c_objs (cl s) ! ref)"
    using assms(2) by (auto simp: subs_wf_def)
  moreover have "\<forall>x \<in> set (c_objs (cl s)). ev_closed x \<le> 1 \<and> er_closed x \<le> 1 \<and> done_closed x \<le> 1"
    using wf by (fastforce simp: subs_wf_def sub_ok_def sub_open_def sub_ended_def sub_stillborn_def)
  ultimately show ?thesis by (simp add: deliver_open)
qed

theorem registered_subscribers_open_witness:
  "\<exists>s. sys_step\<^sup>*\<^sup>* (new_client_sys zero_options) s \<and> (1, 0) \<in> set (c_subs (cl s)) \<and> sub_open (c_objs (cl s) ! 0)"
proof -
  let ?s = "start_call (CallSubscribe 4 True) (new_client_sys zero_options)"
  define t where "t = ?s\<lparr>cl := subscribe_owned 4 True (cl ?s), gos := (gos ?s)[2 := (NoRet, [])]\<rparr>"
  have "step_at 2 Go ?s = Some t"
    by (simp add: step_at_def start_call_def new_client_sys_def t_def)
  then have r: "sys_step\<^sup>*\<^sup>* (new_client_sys zero_options) t"
    by (meson converse_rtranclp_into_rtranclp r_into_rtranclp sys_step.act sys_step.call)
  have m: "(1, 0) \<in> set (c_subs (cl t))"
    by (simp add: t_def start_call_def subscribe_owned_def Let_def new_client_sys_def new_client_def)
  from registered_subscribers_open [OF r m] r m show ?thesis by blast
qed

lemma closed_channel: 
  assumes "sys_step\<^sup>*\<^sup>* (new_client_sys opt) s"
  shows "c_closed (cl s) \<le> 1" "(c_close_err (cl s) \<noteq> None) = (0 < c_closed (cl s))"
  using reach_close [OF assms] by (auto simp: close_ok_def)

lemma weight_member:
  fixes f :: "'a \<Rightarrow> nat"
  shows "x \<in> set xs \<Longrightarrow> f x \<le> sum_list (map f xs)"
  by (induction xs) auto

lemma sum_two_le:
  fixes f :: "'a \<Rightarrow> nat"
  assumes "i < length xs" "j < length xs" "i \<noteq> j"
  shows "f (xs ! i) + f (xs ! j) \<le> sum_list (map f xs)"
proof -
  have "(\<Sum>k \<in> {i, j}. f (xs ! k)) \<le> (\<Sum>k < length xs. f (xs ! k))"
    using assms by (intro sum_mono2) auto
  with assms(3) show ?thesis by (simp add: sum_list_sum_nth atLeast0LessThan)
qed

text \<open>
  A goroutine is inside the section of the reconnect lock as long as it still has to release
  it, and writing as long as it still has to perform the write it took the encoder for.
\<close>

definition in_reconnect :: "goroutine \<Rightarrow> bool" where
  "in_reconnect g = (0 < sum_list (map lock_weight (snd g)))"

definition writing :: "goroutine \<Rightarrow> bool" where
  "writing g = (0 < sum_list (map write_weight (snd g)))"

lemma holder_unique:
  fixes f :: "'g \<Rightarrow> nat"
  assumes "sum_list (map f gs) \<le> of_bool held" "i < length gs" "0 < f (gs ! i)"
  shows "held" and "j < length gs \<Longrightarrow> 0 < f (gs ! j) \<Longrightarrow> i = j"
proof -
  have "f (gs ! i) \<le> sum_list (map f gs)" using assms(2) by (intro weight_member) simp
  with assms(1,3) show "held" by (cases held) auto
  show "i = j" if "j < length gs" "0 < f (gs ! j)"
  proof (rule ccontr)
    assume "i \<noteq> j"
    then have "f (gs ! i) + f (gs ! j) \<le> 1"
      using sum_two_le [OF assms(2) that(1), of f] assms(1) by (meson le_trans of_bool_less_eq_one)
    with assms(3) that(2) show False by linarith
  qed
qed

lemma reach_holders:
  assumes "sys_step\<^sup>*\<^sup>* (new_client_sys opt) s"
  shows "sum_list (map (\<lambda>g. sum_list (map lock_weight (snd g))) (gos s)) \<le> of_bool (c_reconnect_mu (cl s))"
    and "sum_list (map (\<lambda>g. sum_list (map write_weight (snd g))) (gos s)) \<le> of_bool (c_write_mu (cl s))"
  using reach_lock [OF assms] reach_write [OF assms]
  by (simp_all add: lock_ok_def lock_ledger.owed_def write_ok_def write_ledger.owed_def case_prod_unfold)

text \<open>C30: a disconnection and a reconnection exclude each other: at most one goroutine is inside the section
  the reconnect lock protects, and while one is the lock is held; likewise at most one
  goroutine is writing a frame.\<close>

theorem critical_sections_exclusive:
  assumes "sys_step\<^sup>*\<^sup>* (new_client_sys opt) s" "i < length (gos s)" "j < length (gos s)"
  shows "(in_reconnect (gos s ! i) \<longrightarrow> c_reconnect_mu (cl s) \<and> (in_reconnect (gos s ! j) \<longrightarrow> i = j)) \<and>
    (writing (gos s ! i) \<longrightarrow> c_write_mu (cl s) \<and> (writing (gos s ! j) \<longrightarrow> i = j))"
  using holder_unique [OF reach_holders(1) [OF assms(1)] assms(2)] assms(3)
    holder_unique [OF reach_holders(2) [OF assms(1)] assms(2)]
  unfolding in_reconnect_def writing_def by blast

theorem critical_sections_exclusive_witness:
  "\<exists>s. sys_step\<^sup>*\<^sup>* (new_client_sys (zero_options\<lparr>HasFactory := True\<rparr>)) s \<and>
     in_reconnect (gos s ! 2) \<and> c_reconnect_mu (cl s)"
proof -
  let ?n = "new_client_sys (zero_options\<lparr>HasFactory := True\<rparr>)"
  obtain s where s: "run_schedule [Inl CallReconnect, Inr (2, Go), Inr (2, Go)] ?n = Some s"
      "in_reconnect (gos s ! 2)" "2 < length (gos s)"
    by (simp add: start_call_def step_at_def new_client_sys_def new_client_def nth_append Let_def
        list_update_append with_defaults_def zero_options_def in_reconnect_def)
  from critical_sections_exclusive [OF run_schedule_steps [OF s(1)] s(3) s(3)] s run_schedule_steps [OF s(1)]
  show ?thesis by blast
qed

text \<open>The instances given to a client along a schedule.\<close>

fun given_instances :: "(call + nat \<times> choice) list \<Rightarrow> nat list" where
  "given_instances [] = []"
| "given_instances (Inl (CallSetInstance inst w) # ks) = inst # given_instances ks"
| "given_instances (_ # ks) = given_instances ks"

lemma instance_schedule:
  "run_schedule ks s = Some t \<Longrightarrow>
   instances (cl t) + instance_ledger.owed (gos t) \<subseteq>#
     instances (cl s) + instance_ledger.owed (gos s) + mset (given_instances ks)"
proof (induction ks s rule: run_schedule.induct)
  case (2 k ks s)
  have call: "sum_list (map instance_weight (call_acts k)) = mset (given_instances [Inl k])"
    by (cases k) (simp_all add: close_acts_def)
  have "mset (given_instances (Inl k # ks)) = mset (given_instances [Inl k]) + mset (given_instances ks)"
    by (cases k) simp_all
  with 2 call show ?case
    by (simp add: start_call_def instance_ledger.owed_append) (simp add: instance_ledger.owed_def ac_simps)
next
  case (3 i ch ks s)
  then obtain u where u: "step_at i ch s = Some u" "run_schedule ks u = Some t"
    by (auto split: option.splits)
  have "instances (cl u) + instance_ledger.owed (gos u) \<subseteq># instances (cl s) + instance_ledger.owed (gos s)"
    using instance_ledger.step_at_ok [OF u(1), of "instances (cl s) + instance_ledger.owed (gos s)"] by simp
  moreover have "instances (cl t) + instance_ledger.owed (gos t) \<subseteq>#
     instances (cl u) + instance_ledger.owed (gos u) + mset (given_instances ks)"
    using 3(1) u by simp
  ultimately show ?case
    by simp (meson subset_mset.add_right_mono subset_mset.order_trans)
qed simp

text \<open>C31: whatever the goroutines do, an instance given to the client once is shut down or handed over at
  most once in all, and never both; while the client still owns it, neither has happened.\<close>

theorem instance_given_up_once:
  assumes "run_schedule ks (new_client_sys opt) = Some s"
  shows "opt_mset (c_instance (cl s)) + mset (c_shutdowns (cl s)) + mset (c_handed (cl s))
    \<subseteq># mset (given_instances ks)"
proof -
  have "instances (cl s) + instance_ledger.owed (gos s) \<subseteq># mset (given_instances ks)"
    using instance_schedule [OF assms] by (simp add: instances_def opt_mset_def)
  then show ?thesis unfolding instances_def [symmetric] by (meson mset_subset_eq_add_left subset_mset.order_trans)
qed

theorem instance_given_up_once_witness:
  "\<exists>s. run_schedule [Inl (CallSetInstance 7 False), Inr (2, Go), Inl CallDetach, Inr (3, Go)] (new_client_sys zero_options) = Some s
     \<and> mset (c_handed (cl s)) \<subseteq># {#7#} \<and> c_handed (cl s) = [7]"
proof -
  let ?ks = "[Inl (CallSetInstance 7 False), Inr (2, Go), Inl CallDetach, Inr (3, Go)]"
  obtain s where s: "run_schedule ?ks (new_client_sys zero_options) = Some s" "c_handed (cl s) = [7]"
    by (simp add: start_call_def step_at_def new_client_sys_def set_instance_def
        cancel_monitor_def detach_instance_def nth_append Let_def list_update_append)
      (simp add: new_client_def Let_def)
  from instance_given_up_once [OF s(1)] s show ?thesis
    by (auto intro!: exI [of _ s] dest: subset_mset.order_trans [OF mset_subset_eq_add_right])
qed

end
