(* ===== verification/WorldInvariants.thy ===== *)
theory WorldInvariants imports World ClientSafety begin

text \<open>
  Every ledger of the client is kept by the whole world: the actions that turns and session
  calls add to their goroutines are those of calls of the client.  Then the ledgers of the
  turns themselves: which goroutine still has to close which channel of a turn.
\<close>

section \<open>The client inside the world\<close>

fun client_acts :: "wact list \<Rightarrow> act list" where
  "client_acts [] = []"
| "client_acts (C a # as) = a # client_acts as"
| "client_acts (Bg a # as) = a # client_acts as"
| "client_acts (T k a # as) = client_acts as"
| "client_acts (S a # as) = client_acts as"

lemma client_acts_append [simp]: "client_acts (as @ bs) = client_acts as @ client_acts bs"
  by (induction as rule: client_acts.induct) simp_all

lemma client_acts_lift [simp]: "client_acts (map C as) = as" "client_acts (map Bg as) = as"
  by (induction as) simp_all

definition calls_only :: "wact list \<Rightarrow> bool" where
  "calls_only as = (\<exists>ks. client_acts as = concat (map call_acts ks))"

lemma calls_only_none: "client_acts as = [] \<Longrightarrow> calls_only as"
  unfolding calls_only_def by (rule exI [of _ "[]"]) simp

lemma calls_only_call: "client_acts as = call_acts k @ client_acts bs \<Longrightarrow> calls_only bs \<Longrightarrow> calls_only as"
  unfolding calls_only_def by (elim exE, rule_tac x = "k # ks" in exI) simp

lemma calls_only_simps [simp]:
  "calls_only []"
  "calls_only (T k a # as) = calls_only as"
  "calls_only (S x # as) = calls_only as"
  "calls_only as \<Longrightarrow> calls_only (C (Emit ob) # as)"
  "calls_only as \<Longrightarrow> calls_only (C (Us (Unsubscribe i)) # as)"
  "calls_only as \<Longrightarrow> calls_only (C (Us (NextEvent ref)) # as)"
  "calls_only as \<Longrightarrow> calls_only (Bg (Us (NextEvent ref)) # as)"
  "calls_only as \<Longrightarrow> calls_only (map C (request_acts False req tok) @ as)"
  "calls_only as \<Longrightarrow> calls_only (map Bg (request_acts False req tok) @ as)"
  "calls_only as \<Longrightarrow> calls_only (map C (notify_acts req) @ as)"
proof -
  show "calls_only []" by (rule calls_only_none) simp
  show "calls_only (T k a # as) = calls_only as" "calls_only (S x # as) = calls_only as"
    by (simp_all add: calls_only_def)
  assume as: "calls_only as"
  show "calls_only (C (Emit ob) # as)"
    by (rule calls_only_call [of _ "CallEmit ob" as]) (simp_all add: as)
  show "calls_only (C (Us (Unsubscribe i)) # as)"
    by (rule calls_only_call [of _ "CallUnsubscribe i" as]) (simp_all add: as)
  show "calls_only (C (Us (NextEvent ref)) # as)" "calls_only (Bg (Us (NextEvent ref)) # as)"
    by (rule calls_only_call [of _ "CallNext ref" as]; simp add: as)+
  show "calls_only (map C (request_acts False req tok) @ as)" "calls_only (map Bg (request_acts False req tok) @ as)"
    by (rule calls_only_call [of _ "CallRequest req tok" as]; simp add: as)+
  show "calls_only (map C (notify_acts req) @ as)"
    by (rule calls_only_call [of _ "CallNotify req" as]) (simp_all add: as)
qed

lemma calls_only_handle: "calls_only (handle_event k e)"
  by (auto simp: handle_event_def split: pevent.splits sum.splits option.splits)

lemma turn_step_calls:
  assumes "turn_step k ch r a t = Some (t', x, new, spawned)"
  shows "calls_only (new @ concat spawned)"
  using assms
  by (cases a)
    (auto simp: received_acts_def calls_only_handle announce_def run_cancel_acts_def finish_cancel_acts_def
      split: if_splits option.splits prod.splits ret.splits sum.splits wchoice.splits choice.splits
        start_once.splits)

lemma calls_only_request: "(\<And>err. calls_only (fails err)) \<Longrightarrow> calls_only (session_request enc fails reply)"
  by (auto simp: session_request_def split: sum.splits)

lemma sess_step_calls:
  assumes "sess_step ch r a w = Some (w', r', new, spawned)"
  shows "calls_only (new @ concat spawned)" "wc w' = wc w \<or> (\<exists>n b. wc w' = subscribe_owned n b (wc w))"
proof -
  show "calls_only (new @ concat spawned)"
    using assms
    by (cases a)
      (auto simp: subscribe_def Let_def calls_only_request
        split: if_splits option.splits prod.splits sum.splits wchoice.splits)
  show "wc w' = wc w \<or> (\<exists>n b. wc w' = subscribe_owned n b (wc w))"
    using assms
    by (cases a; clarsimp simp: subscribe_def Let_def split: if_splits option.splits prod.splits sum.splits wchoice.splits)
      blast+
qed

fun client_weight :: "(act \<Rightarrow> 'm::comm_monoid_add) \<Rightarrow> wact \<Rightarrow> 'm" where
  "client_weight weight (C a) = weight a"
| "client_weight weight (Bg a) = weight a"
| "client_weight weight (T k a) = 0"
| "client_weight weight (S a) = 0"

lemma client_weight_acts:
  "sum_list (map (client_weight weight) as) = sum_list (map weight (client_acts as))"
  by (induction as rule: client_acts.induct) simp_all

lemma client_acts_observer [simp]: "client_acts (observer_acts a) = []"
  by (simp add: observer_acts_def split: act.splits rd_act.splits)

lemma client_acts_concat_lift: "client_acts (concat (map (map C) xs)) = concat xs"
  by (induction xs) simp_all

context ledger
begin

lemma calls_ok: "ok c m \<Longrightarrow> ok c (sum_list (map weight (concat (map call_acts ks))) + m)"
  by (induction ks) (auto simp: add.assoc dest: call_ok)

lemma subscribe_ok: "ok c m \<Longrightarrow> ok (subscribe_owned n b c) m"
  using act_ok [of Go NoRet "Us (Subscribe n b)" c _ _ _ _ m] call_ok [of c m "CallSubscribe n b"] by simp

lemma calls_only_ok:
  assumes "calls_only as" "ok c m"
  shows "ok c (sum_list (map (client_weight weight) as) + m)"
proof -
  obtain ks where ks: "client_acts as = concat (map call_acts ks)" using assms(1) by (auto simp: calls_only_def)
  from calls_ok [OF assms(2), of ks] show ?thesis by (simp add: client_weight_acts ks)
qed

lemma client_step_ok:
  assumes "client_step lift ch r a w = Some (w', r', new, spawned)" "lift = C \<or> lift = Bg"
    and "ok (wc w) (weight a + m)"
  shows "ok (wc w') (sum_list (map (client_weight weight) new)
    + sum_list (map (client_weight weight) (concat spawned)) + m)"
proof -
  obtain c' x acts sp where s: "run_act ch (fst r) a (wc w) = Some (c', x, acts, sp)"
    and eq: "w' = w\<lparr>wc := c'\<rparr>" "new = observer_acts a @ map lift acts" "spawned = map (map C) sp"
    using assms(1) by (auto simp: client_step_def split: option.splits)
  have "client_acts (map lift acts) = acts" using assms(2) by auto
  then show ?thesis
    using act_ok [OF s assms(3)]
    unfolding client_weight_acts eq by (simp add: client_acts_concat_lift)
qed

lemma world_act_ok:
  assumes "world_run ch r a w = Some (w', r', new, spawned)" "ok (wc w) (client_weight weight a + m)"
  shows "ok (wc w') (sum_list (map (client_weight weight) new)
    + sum_list (map (client_weight weight) (concat spawned)) + m)"
proof (cases a)
  case (C x)
  with assms show ?thesis by (auto split: wchoice.splits intro: client_step_ok)
next
  case (Bg x)
  with assms show ?thesis by (auto split: wchoice.splits if_splits intro: client_step_ok)
next
  case (T k x)
  with assms obtain t' y where "turn_step k ch r x (wturns w ! k) = Some (t', y, new, spawned)"
    and w: "wc w' = wc w" by (auto split: if_splits option.splits)
  from calls_only_ok [OF turn_step_calls [OF this(1)]] assms(2) T show ?thesis
    by (simp add: w)
next
  case (S x)
  with assms have s: "sess_step ch r x w = Some (w', r', new, spawned)" by simp
  have "ok (wc w') m" using sess_step_calls(2) [OF s] assms(2) S by (auto intro: subscribe_ok)
  with calls_only_ok [OF sess_step_calls(1) [OF s]] show ?thesis by simp
qed

end

sublocale ledger < world: act_ledger world_run "client_weight weight" "\<lambda>w. ok (wc w)"
  by unfold_locales (rule world_act_ok)

context ledger
begin

lemma world_step_ok:
  assumes "world_step s t" "ok (wc (fst s)) (world.owed (snd s))"
  shows "ok (wc (fst t)) (world.owed (snd t))"
  using assms(1)
proof (cases rule: world_step.cases)
  case (act i ch w gs w' gs')
  with assms(2) show ?thesis by (auto intro: world.go_at_ok)
next
  case (call w k gs)
  have "calls_only (wcall_acts k)"
    by (cases k) (auto intro: calls_only_call [of "map C (call_acts k)" k "[]" for k])
  moreover have "ok (wc w) (world.owed gs)" using assms(2) call by simp
  ultimately have "ok (wc w) (sum_list (map (client_weight weight) (wcall_acts k)) + world.owed gs)"
    by (rule calls_only_ok)
  moreover have "world.owed (gs @ [wcall_start k]) =
      sum_list (map (client_weight weight) (wcall_acts k)) + world.owed gs"
    by (simp add: wcall_start_def world.owed_def add.commute)
  ultimately show ?thesis using call by simp
qed

lemma world_steps_ok:
  "world_step\<^sup>*\<^sup>* s t \<Longrightarrow> ok (wc (fst s)) (world.owed (snd s)) \<Longrightarrow> ok (wc (fst t)) (world.owed (snd t))"
  by (induction rule: rtranclp_induct) (auto intro: world_step_ok)

lemma new_world_owed: "world.owed (snd (new_world opt)) = owed (gos (new_client_sys opt))"
proof -
  have "sum_list (map (client_weight weight) (map C as)) = sum_list (map weight as)" for as
    by (simp add: client_weight_acts del: map_map)
  then show ?thesis
    by (simp add: world.owed_def owed_def new_world_def new_client_sys_def case_prod_unfold)
qed

lemma world_reach_ok:
  assumes "world_step\<^sup>*\<^sup>* (new_world opt) s" "ok (new_client opt) (owed (gos (new_client_sys opt)))"
  shows "ok (wc (fst s)) (world.owed (snd s))"
  by (rule world_steps_ok [OF assms(1)]) (use assms(2) in \<open>simp add: new_world_owed, simp add: new_world_def\<close>)

end

end
