(* ===== verification/TurnLedgers.thy ===== *)
theory TurnLedgers imports WorldInvariants "HOL-Library.Sublist" begin

text \<open>
  The ledgers of turns: what each goroutine of the world still owes a turn.  A ledger weighs
  the actions on turns only; the locale \<open>turn_ledger\<close> says what has to be shown of the steps of a
  turn, of the client and of a start, and gives the invariant of the world.
\<close>

section \<open>The interface of a turn's ledger\<close>

fun turn_weight :: "(nat \<Rightarrow> turn_act \<Rightarrow> 'm::comm_monoid_add) \<Rightarrow> wact \<Rightarrow> 'm" where
  "turn_weight weight (T k a) = weight k a"
| "turn_weight weight (C a) = 0"
| "turn_weight weight (Bg a) = 0"
| "turn_weight weight (S a) = 0"

abbreviation turn_sum :: "(nat \<Rightarrow> turn_act \<Rightarrow> 'm::comm_monoid_add) \<Rightarrow> wact list \<Rightarrow> 'm" where
  "turn_sum weight as \<equiv> sum_list (map (turn_weight weight) as)"

lemma turn_weight_lift [simp]:
  "map (turn_weight weight \<circ> C) as = map (\<lambda>_. 0) as" "map (turn_weight weight \<circ> Bg) as = map (\<lambda>_. 0) as"
  by simp_all

lemma turn_sum_concat_C [simp]: "turn_sum weight (concat (map (map C) xs)) = 0"
  by (induction xs) simp_all

lemma turn_sum_request [simp]: "turn_sum weight (session_request enc fails reply) =
    (case enc of Inl err \<Rightarrow> turn_sum weight (fails err) | Inr req \<Rightarrow> 0)"
  by (simp add: session_request_def split: sum.splits)

locale turn_ledger =
  fixes weight :: "nat \<Rightarrow> turn_act \<Rightarrow> 'm::comm_monoid_add"
    and ok :: "world \<Rightarrow> 'm \<Rightarrow> bool"
  assumes turn_ok: "turn_step k ch r a (wturns w ! k) = Some (t, x, new, spawned) \<Longrightarrow> k < length (wturns w) \<Longrightarrow>
      ok w (weight k a + m) \<Longrightarrow>
      ok (w\<lparr>wturns := (wturns w)[k := t]\<rparr>) (turn_sum weight new + turn_sum weight (concat spawned) + m)"
    and client_ok: "run_act cc v b (wc w) = Some (c', v', new', spawned') \<Longrightarrow> ok w m \<Longrightarrow>
      ok (w\<lparr>wc := c'\<rparr>) (turn_sum weight (observer_acts b) + m)"
    and start_ok: "ok w m \<Longrightarrow>
      ok (w\<lparr>wturns := wturns w @ [new_turn session ref i buffer]\<rparr>)
        (weight (length (wturns w)) (DispatchLoop True) + (weight (length (wturns w)) WatchLifecycle + m))"
    and written_ok: "ok w m \<Longrightarrow> ok w (weight k (Finish (turn_result_from_subscription_error err)) + m)"
      "ok w m \<Longrightarrow> ok w (weight k MarkWriteComplete + m)"
    and call_ok: "ok w m \<Longrightarrow> k < length (wturns w) \<Longrightarrow> a \<in> {AcceptedCheck, NextLock, CancelOnce, WaitCheck} \<Longrightarrow>
      ok w (weight k a + m)"
begin

lemma subscribed: "ok w m \<Longrightarrow> ok (w\<lparr>wc := subscribe_owned n b (wc w)\<rparr>) m"
  using client_ok [of Go NoRet "Us (Subscribe n b)" w _ _ _ _ m] by (simp add: observer_acts_def)

lemma client_step_ok:
  assumes "client_step lift ch r a w = Some (w', r', new, spawned)" "lift = C \<or> lift = Bg" "ok w m"
  shows "ok w' (turn_sum weight new + turn_sum weight (concat spawned) + m)"
proof -
  obtain c' x acts sp where s: "run_act ch (fst r) a (wc w) = Some (c', x, acts, sp)"
    and eq: "w' = w\<lparr>wc := c'\<rparr>" "new = observer_acts a @ map lift acts" "spawned = map (map C) sp"
    using assms(1) by (auto simp: client_step_def split: option.splits)
  from client_ok [OF s assms(3)] assms(2) show ?thesis by (auto simp: eq)
qed

lemma sess_ok:
  assumes "sess_step ch r a w = Some (w', r', new, spawned)" "ok w m"
  shows "ok w' (turn_sum weight new + turn_sum weight (concat spawned) + m)"
proof (cases a)
  case (StartSubscribe session req)
  define n where "n = nat (EventBuffer (c_options (wc w)) + 2)"
  have w': "w' = (w\<lparr>wc := subscribe_owned n True (wc w)\<rparr>)
      \<lparr>wturns := wturns w @ [new_turn session (length (c_objs (wc w))) (c_next_sub (wc w) + 1)
                    (nat (EventBuffer (c_options (wc w))))]\<rparr>"
    and acts: "new = map C (notify_acts req) @ [S (StartWritten (length (wturns w)))]"
      "spawned = [[T (length (wturns w)) (DispatchLoop True)], [T (length (wturns w)) WatchLifecycle]]"
    using assms(1) StartSubscribe by (auto simp: subscribe_def Let_def n_def)
  show ?thesis using start_ok [OF subscribed [OF assms(2)], of n True]
    by (simp add: w' acts add.assoc)
next
  case (StartWritten k)
  with assms show ?thesis by (auto simp: Let_def intro: written_ok split: option.splits)
next
  case (SendSubscribe req)
  with assms show ?thesis by (auto simp: subscribe_def intro: subscribed)
qed (use assms in \<open>auto simp: new_send_message_request_def split: option.splits sum.splits prod.splits if_splits wchoice.splits\<close>)

sublocale world: act_ledger world_run "turn_weight weight" ok
proof
  fix ch r a w w' r' new spawned m
  assume s: "world_run ch r a w = Some (w', r', new, spawned)" and o: "ok w (turn_weight weight a + m)"
  show "ok w' (turn_sum weight new + turn_sum weight (concat spawned) + m)"
  proof (cases a)
    case (C x)
    with s o show ?thesis by (auto split: wchoice.splits intro: client_step_ok)
  next
    case (Bg x)
    with s o show ?thesis by (auto split: wchoice.splits if_splits intro: client_step_ok)
  next
    case (T k x)
    with s o show ?thesis by (auto split: if_splits option.splits intro: turn_ok)
  next
    case (S x)
    with s o show ?thesis by (auto intro: sess_ok)
  qed
qed

lemma world_step_ok:
  assumes "world_step s t" "ok (fst s) (world.owed (snd s))" shows "ok (fst t) (world.owed (snd t))"
  using assms(1)
proof (cases rule: world_step.cases)
  case (act i ch w gs w' gs')
  with assms(2) show ?thesis by (auto intro: world.go_at_ok)
next
  case (call w k gs)
  have o: "ok w (world.owed gs)" using assms(2) call by simp
  have "ok w (turn_sum weight (wcall_acts k) + world.owed gs)"
    using call(3) o by (cases k) (auto intro: call_ok)
  moreover have "world.owed (gs @ [wcall_start k]) = turn_sum weight (wcall_acts k) + world.owed gs"
    by (simp add: wcall_start_def world.owed_def add.commute)
  ultimately show ?thesis using call by simp
qed

lemma new_world_owed: "world.owed (snd (new_world opt)) = 0"
  by (simp add: new_world_def world.owed_def new_client_sys_def)

lemma reach_ok:
  assumes "world_step\<^sup>*\<^sup>* (new_world opt) s" "ok \<lparr>wc = new_client opt, wturns = []\<rparr> 0"
  shows "ok (fst s) (world.owed (snd s))"
  using assms(1)
proof (induction rule: rtranclp_induct)
  case base
  then show ?case using assms(2) new_world_owed [of opt] by (simp add: new_world_def)
next
  case (step y z)
  then show ?case by (blast intro: world_step_ok)
qed

end

end
