(* ===== verification/TurnInvariants.thy ===== *)
theory TurnInvariants imports TurnLedgers begin

text \<open>
  The invariants of turns, each a ledger of the world: the state, the acceptance and the
  result agree with each other and with the closed channels; the events of a turn are those
  its dispatcher took from the subscription; the cancel request starts once; a canceled turn
  was confirmed by the server; and no channel of a turn is closed twice or sent on after its
  closing.
\<close>

declare sum_list_eq_0_iff [simp del]

section \<open>The state of a turn\<close>

definition result_ok :: "turn_result \<Rightarrow> bool" where
  "result_ok res =
     (ResKind res \<noteq> TurnResultZero \<and> (ResErr res = None \<longleftrightarrow> ResKind res = TurnResultCompleted))"

text \<open>The results of everything but \<^verbatim>\<open>turn_done\<close>.\<close>

definition failure_ok :: "turn_result \<Rightarrow> bool" where
  "failure_ok res = (result_ok res \<and> ResErr res \<noteq> None \<and> ResKind res \<noteq> TurnResultCanceled)"

definition turn_wf :: "turn \<Rightarrow> bool" where
  "turn_wf t =
     (t_terminal_done t = of_bool (t_terminal t) \<and>
      t_accepted_done t = of_bool (t_acceptance_set t) \<and>
      (t_terminal t \<longrightarrow> t_acceptance_set t \<and> result_ok (t_result t)) \<and>
      (t_state t = TurnTerminal \<longleftrightarrow> t_terminal t) \<and>
      (ResKind (t_result t) = TurnResultZero \<longleftrightarrow> \<not> t_terminal t) \<and>
      (ResKind (t_result t) = TurnResultCanceled \<longrightarrow> t_cancel_requested t) \<and>
      (ResKind (t_result t) = TurnResultCompleted \<longrightarrow> \<not> t_cancel_requested t) \<and>
      (t_state t = TurnCancelRequested \<longrightarrow> t_cancel_requested t) \<and>
      0 < t_cap t \<and> length (t_events t) \<le> t_cap t \<and>
      (\<not> t_terminal t \<longrightarrow> length (t_events t) < t_cap t))"

definition wf_weight :: "nat \<Rightarrow> turn_act \<Rightarrow> nat" where
  "wf_weight k a = (case a of Finish res \<Rightarrow> of_bool (\<not> failure_ok res) | _ \<Rightarrow> 0)"

definition wf_ok :: "world \<Rightarrow> nat \<Rightarrow> bool" where
  "wf_ok w m = (m = 0 \<and> (\<forall>t \<in> set (wturns w). turn_wf t))"

lemma protocol_turn_error_some: "protocol_turn_error err \<noteq> None"
  by (simp add: protocol_turn_error_def split: option.splits)

lemma subscription_failure_ok [simp]: "failure_ok (turn_result_from_subscription_error err)"
  using protocol_turn_error_some [of err]
  by (auto simp: failure_ok_def result_ok_def turn_result_from_subscription_error_def)

lemma lifecycle_failure_ok [simp]: "failure_ok (lifecycle_result err cause)"
  by (simp add: failure_ok_def result_ok_def lifecycle_result_def)

lemma overflow_failure_ok [simp]: "failure_ok overflow_result"
  by (simp add: failure_ok_def result_ok_def overflow_result_def)

lemma wf_weight_other [simp]: "(\<And>res. a \<noteq> Finish res) \<Longrightarrow> wf_weight k a = 0"
  by (cases a) (auto simp: wf_weight_def)

lemma wf_weight_Finish [simp]: "wf_weight k (Finish res) = of_bool (\<not> failure_ok res)"
  by (simp add: wf_weight_def)

lemma wf_handle: "turn_sum wf_weight (handle_event k e) = 0"
  using protocol_turn_error_some
  by (auto simp: handle_event_def failure_ok_def result_ok_def split: pevent.splits sum.splits option.splits)

lemma turn_sum_acts [simp]:
  "turn_sum weight (announce res t) = 0"
  "turn_sum weight (finish_cancel_acts k err) = weight k (FinishCancel err)"
  by (simp_all add: announce_def finish_cancel_acts_def)

lemma turn_sum_run_cancel:
  "weight k CancelReplied = weight k (FinishCancel err') \<Longrightarrow> (\<And>x y. weight k (FinishCancel x) = weight k (FinishCancel y)) \<Longrightarrow>
   turn_sum weight (run_cancel_acts k s) = weight k CancelReplied"
  by (simp add: run_cancel_acts_def split: sum.splits)

lemma turn_wf_finish: "turn_wf t \<Longrightarrow> failure_ok res \<Longrightarrow> turn_wf (finish_terminal_locked res t)"
  by (auto simp: turn_wf_def finish_terminal_locked_def finish_acceptance_def failure_ok_def result_ok_def)

lemma turn_wf_done:
  assumes "turn_wf t" "finish_turn_done e t = (res, t')" shows "turn_wf t'"
proof (cases "t_terminal t")
  case True
  with assms show ?thesis by (simp add: finish_turn_done_def)
next
  case False
  with assms(1) have room: "length (t_events t) < t_cap t" by (simp add: turn_wf_def)
  obtain s u where s: "send_event e t = (s, u)" by fastforce
  define v where "v = (if \<not> s then overflow_result
     else if t_cancel_requested t then \<lparr>ResKind = TurnResultCanceled, ResErr = Some (Sent ErrTurnCanceled)\<rparr>
     else \<lparr>ResKind = TurnResultCompleted, ResErr = None\<rparr>)"
  have t': "t' = finish_terminal_locked v u" using assms(2) False s by (auto simp: finish_turn_done_def v_def Let_def)
  have u: "u = t\<lparr>t_panics := t_panics t + 1\<rparr> \<or> u = t\<lparr>t_events := t_events t @ [e]\<rparr>"
    using s room by (auto simp: send_event_def split: if_splits)
  have v: "result_ok v" "ResKind v = TurnResultCanceled \<longrightarrow> t_cancel_requested t"
    "ResKind v = TurnResultCompleted \<longrightarrow> \<not> t_cancel_requested t"
    by (simp_all add: v_def result_ok_def overflow_result_def)
  have "t_terminal_done t = 0" "0 < t_cap t" "length (t_events t) + 1 \<le> t_cap t"
    "t_accepted_done t = of_bool (t_acceptance_set t)"
    using assms(1) False room by (simp_all add: turn_wf_def)
  with u v False show ?thesis unfolding t'
    by (elim disjE) (simp_all add: turn_wf_def finish_terminal_locked_def finish_acceptance_def result_ok_def)
qed

lemma turn_wf_fields:
  assumes "turn_wf t"
  shows "turn_wf (t\<lparr>t_received := es\<rparr>)" "turn_wf (t\<lparr>t_next_mu := b\<rparr>)" "turn_wf (t\<lparr>t_cancel_once := on\<rparr>)"
    "turn_wf (t\<lparr>t_cancel_done := n\<rparr>)" "turn_wf (t\<lparr>t_panics := n\<rparr>)" "turn_wf (t\<lparr>t_advisory := b\<rparr>)"
    "turn_wf (close_events t)" "turn_wf (finish_cancel err t)"
  using assms by (simp_all add: turn_wf_def close_events_def finish_cancel_def)

lemma turn_wf_events:
  assumes "turn_wf t" "length es \<le> t_cap t" "\<not> t_terminal t \<Longrightarrow> length es < t_cap t"
  shows "turn_wf (t\<lparr>t_events := es\<rparr>)" "turn_wf (t\<lparr>t_events := es, t_handed := hs\<rparr>)"
  using assms by (simp_all add: turn_wf_def)

lemma turn_wf_room: "turn_wf t \<Longrightarrow> length (t_events t) \<le> t_cap t \<and> (\<not> t_terminal t \<longrightarrow> length (t_events t) < t_cap t)"
  by (simp add: turn_wf_def)

lemma turn_wf_publish: "turn_wf t \<Longrightarrow> publish_event e t = (sent, t') \<Longrightarrow> turn_wf t'"
  by (auto simp: publish_event_def send_event_def turn_wf_fields intro!: turn_wf_events split: if_splits)

lemma turn_wf_receive: "turn_wf t \<Longrightarrow> receive_event t = Some (x, t') \<Longrightarrow> turn_wf t'"
  using turn_wf_room [of t]
  by (auto simp: receive_event_def intro!: turn_wf_events split: list.splits if_splits)

lemma turn_wf_advisory: "turn_wf t \<Longrightarrow> ignore_advisory t = (b, t') \<Longrightarrow> turn_wf t'"
  by (auto simp: ignore_advisory_def turn_wf_fields split: if_splits)

lemma turn_wf_state:
  assumes "turn_wf t"
  shows "turn_wf (finish_acceptance err t)" "turn_wf (mark_accepted t)" "turn_wf (mark_write_complete t)"
    "turn_wf (observe_cancel f t)"
proof -
  show "turn_wf (finish_acceptance err t)" using assms by (simp add: turn_wf_def finish_acceptance_def)
  show "turn_wf (mark_accepted t)" using assms by (simp add: turn_wf_def mark_accepted_def)
  show "turn_wf (mark_write_complete t)" using assms by (auto simp: turn_wf_def mark_write_complete_def)
  show "turn_wf (observe_cancel f t)"
  proof (cases "Event f = OK \<and> \<not> t_terminal t")
    case True
    moreover from this assms have "ResKind (t_result t) = TurnResultZero" by (simp add: turn_wf_def)
    ultimately show ?thesis using assms by (simp add: turn_wf_def observe_cancel_def)
  next
    case False
    then show ?thesis using assms unfolding observe_cancel_def by (auto simp only: if_False)
  qed
qed

lemmas turn_wf_ops = turn_wf_fields turn_wf_state

lemma wf_turn_step:
  assumes "turn_step k ch r a t = Some (t', x, new, spawned)" "turn_wf t" "wf_weight k a = 0"
  shows "turn_wf t' \<and> turn_sum wf_weight new + turn_sum wf_weight (concat spawned) = 0"
proof (cases a)
  case (FinishTurnDone e)
  with assms turn_wf_done show ?thesis by (auto split: prod.splits option.splits)
next
  case (Finish res)
  with assms show ?thesis by (auto intro: turn_wf_finish)
next
  case (Received first)
  with assms show ?thesis
    by (auto simp: received_acts_def wf_handle turn_wf_ops split: ret.splits sum.splits)
next
  case RunCancel
  with assms show ?thesis by (auto simp: turn_sum_run_cancel)
next
  case (Publish e)
  with assms turn_wf_publish show ?thesis by (auto split: prod.splits if_splits)
next
  case (IgnoreAdvisory kind e)
  with assms turn_wf_advisory show ?thesis by (auto split: prod.splits if_splits)
next
  case NextSelect
  with assms turn_wf_receive show ?thesis
    by (auto split: wchoice.splits choice.splits option.splits prod.splits)
next
  case (NextPoll e)
  with assms turn_wf_receive show ?thesis by (auto split: option.splits prod.splits)
qed (use assms in \<open>auto simp: turn_wf_ops
    split: if_splits option.splits wchoice.splits choice.splits start_once.splits\<close>)

lemma turn_wf_new: "turn_wf (new_turn session ref i buffer)"
  by (simp add: turn_wf_def new_turn_def)

interpretation wf_turns: turn_ledger wf_weight wf_ok
proof
  fix k ch r a w t x new spawned m
  assume "turn_step k ch r a (wturns w ! k) = Some (t, x, new, spawned)" "k < length (wturns w)"
    "wf_ok w (wf_weight k a + m)"
  with wf_turn_step [of k ch r a "wturns w ! k" t x new spawned]
  show "wf_ok (w\<lparr>wturns := (wturns w)[k := t]\<rparr>) (turn_sum wf_weight new + turn_sum wf_weight (concat spawned) + m)"
    by (auto simp: wf_ok_def dest: set_update_subset_insert [THEN subsetD])
next
  fix cc v b w c' v' new' spawned' m
  assume "wf_ok w m"
  then show "wf_ok (w\<lparr>wc := c'\<rparr>) (turn_sum wf_weight (observer_acts b) + m)"
    by (simp add: wf_ok_def observer_acts_def split: act.splits rd_act.splits)
qed (auto simp: wf_ok_def turn_wf_new)

end
