(* ===== verification/TurnEvents.thy ===== *)
theory TurnEvents imports TurnInvariants begin

text \<open>
  What a turn hands out.  \<open>turn_stream\<close> is the reference: the typed events of a list of
  subscription events, without acceptance and advisory events, up to the first event that ends
  the turn.  The ledger \<open>dispatch_turns\<close> follows the dispatcher's position and shows that what
  \<^verbatim>\<open>Next\<close> has handed out and what is queued are a prefix of it.
\<close>

declare sum_list_eq_0_iff [simp del]

section \<open>The reference\<close>

datatype verdict = Skip | Stop | Last typed_event | Pass typed_event

definition verdict_of :: "event \<Rightarrow> verdict" where
  "verdict_of e =
     (if Kind e = ''message_accepted'' then Skip
      else if event_error (Event (Frame e)) \<noteq> None then Stop
      else case decode_typed_event e of
        Inl _ \<Rightarrow> Stop
      | Inr typed \<Rightarrow>
          (case semantic_class_of (Some typed) of
             None \<Rightarrow> Stop
           | Some class \<Rightarrow>
               if class = AdvisoryLifecycle then Skip
               else if Kind e = ''turn_done'' then Last typed else Pass typed))"

fun turn_stream :: "event list \<Rightarrow> typed_event list" where
  "turn_stream [] = []"
| "turn_stream (e # es) =
     (case verdict_of e of
        Skip \<Rightarrow> turn_stream es
      | Stop \<Rightarrow> []
      | Last x \<Rightarrow> [x]
      | Pass x \<Rightarrow> x # turn_stream es)"

definition goes_on :: "event list \<Rightarrow> bool" where
  "goes_on es = list_all (\<lambda>e. case verdict_of e of Skip \<Rightarrow> True | Pass _ \<Rightarrow> True | _ \<Rightarrow> False) es"

lemma turn_stream_append: "goes_on es \<Longrightarrow> turn_stream (es @ fs) = turn_stream es @ turn_stream fs"
  by (induction es) (auto simp: goes_on_def split: verdict.splits)

lemma goes_on_append: "goes_on (es @ fs) \<longleftrightarrow> goes_on es \<and> goes_on fs"
  by (simp add: goes_on_def)

text \<open>A list of events that ends with the \<^verbatim>\<open>turn_done\<close> of a turn nothing ended before.\<close>

definition completed :: "event list \<Rightarrow> bool" where
  "completed es = (\<exists>fs e x. es = fs @ [e] \<and> goes_on fs \<and> verdict_of e = Last x)"

section \<open>The position of a dispatcher\<close>

text \<open>\<open>Wrong\<close> stands for a result only \<^verbatim>\<open>turn_done\<close> may give; no goroutine is ever there.\<close>

datatype position = Waiting | Publishing typed_event | Completing typed_event | Ended | Wrong

definition position_weight :: "nat \<Rightarrow> turn_act \<Rightarrow> (nat \<times> position) multiset" where
  "position_weight k a =
     (case a of
        DispatchLoop _ \<Rightarrow> {#(k, Waiting)#}
      | Received _ \<Rightarrow> {#(k, Waiting)#}
      | Publish e \<Rightarrow> {#(k, Publishing e)#}
      | FinishTurnDone e \<Rightarrow> {#(k, Completing e)#}
      | CloseEvents \<Rightarrow> {#(k, Ended)#}
      | Finish res \<Rightarrow> (if failure_ok res then {#} else {#(k, Wrong)#})
      | _ \<Rightarrow> {#})"

definition published :: "turn \<Rightarrow> typed_event list" where
  "published t = t_handed t @ t_events t"

definition is_done :: "turn \<Rightarrow> bool" where
  "is_done t = (ResKind (t_result t) \<in> {TurnResultCompleted, TurnResultCanceled})"

definition over_ok :: "turn \<Rightarrow> bool" where
  "over_ok t =
     (prefix (published t) (turn_stream (t_received t)) \<and>
      (is_done t \<longrightarrow> published t = turn_stream (t_received t) \<and> completed (t_received t)))"

text \<open>What holds of a turn at each position of its dispatcher; \<open>None\<close> is a dispatcher that returned.\<close>

fun position_ok :: "turn \<Rightarrow> position option \<Rightarrow> bool" where
  "position_ok t (Some Waiting) =
     (t_events_closed t = 0 \<and> goes_on (t_received t) \<and> published t = turn_stream (t_received t)
      \<and> \<not> is_done t)"
| "position_ok t (Some (Publishing e)) =
     (t_events_closed t = 0 \<and> goes_on (t_received t) \<and> published t @ [e] = turn_stream (t_received t)
      \<and> \<not> is_done t)"
| "position_ok t (Some (Completing e)) =
     (t_events_closed t = 0 \<and> published t @ [e] = turn_stream (t_received t) \<and> completed (t_received t)
      \<and> \<not> is_done t)"
| "position_ok t (Some Ended) = (t_events_closed t = 0 \<and> over_ok t)"
| "position_ok t (Some Wrong) = False"
| "position_ok t None = (t_events_closed t = 1 \<and> over_ok t)"

definition place :: "nat \<Rightarrow> position option \<Rightarrow> (nat \<times> position) multiset" where
  "place k p = (case p of None \<Rightarrow> {#} | Some x \<Rightarrow> {#(k, x)#})"

lemma place_simps [simp]: "place k None = {#}" "place k (Some x) = {#(k, x)#}"
  by (simp_all add: place_def)

definition at_turn :: "nat \<Rightarrow> (nat \<times> position) multiset \<Rightarrow> (nat \<times> position) multiset" where
  "at_turn k m = filter_mset (\<lambda>x. fst x = k) m"

definition positions_ok :: "world \<Rightarrow> (nat \<times> position) multiset \<Rightarrow> bool" where
  "positions_ok w m =
     ((\<forall>k < length (wturns w). t_panics (wturns w ! k) = 0 \<and>
        (\<exists>p. at_turn k m = place k p \<and> position_ok (wturns w ! k) p))
      \<and> (\<forall>x \<in># m. fst x < length (wturns w)))"

lemma position_ok_mono:
  assumes "position_ok t p" "t_events_closed t' = t_events_closed t" "t_received t' = t_received t"
    "published t' = published t" "is_done t' \<longrightarrow> is_done t"
  shows "position_ok t' p"
  using assms by (cases "(t, p)" rule: position_ok.cases) (auto simp: over_ok_def)

text \<open>Where the dispatcher goes from an event.\<close>

definition after_event :: "event \<Rightarrow> position" where
  "after_event e =
     (case verdict_of e of Skip \<Rightarrow> Waiting | Stop \<Rightarrow> Ended | Last x \<Rightarrow> Completing x | Pass x \<Rightarrow> Publishing x)"

lemma position_weight_simps [simp]:
  "position_weight k (DispatchLoop f) = {#(k, Waiting)#}"
  "position_weight k (Received f) = {#(k, Waiting)#}"
  "position_weight k (Publish e) = {#(k, Publishing e)#}"
  "position_weight k (FinishTurnDone e) = {#(k, Completing e)#}"
  "position_weight k CloseEvents = {#(k, Ended)#}"
  "position_weight k (Finish res) = (if failure_ok res then {#} else {#(k, Wrong)#})"
  "position_weight k Accept = {#}" "position_weight k MarkAccepted = {#}"
  "position_weight k (IgnoreAdvisory kind e) = {#}"
  by (simp_all add: position_weight_def)

lemma handle_event_position:
  assumes "Kind e \<noteq> ''message_accepted''"
  shows "turn_sum position_weight (handle_event k e) = {#(k, after_event e)#}"
  using assms protocol_turn_error_some
  by (auto simp: handle_event_def after_event_def verdict_of_def event_error_def failure_ok_def result_ok_def
      split: pevent.splits sum.splits option.splits)

lemma received_position: "turn_sum position_weight (received_acts k first e) = {#(k, after_event e)#}"
  by (simp add: received_acts_def handle_event_position)
    (simp add: after_event_def verdict_of_def)

lemma after_event_ok:
  assumes "position_ok t (Some Waiting)"
  shows "position_ok (t\<lparr>t_received := t_received t @ [e]\<rparr>) (Some (after_event e))"
  using assms
  by (cases "verdict_of e")
    (auto simp: after_event_def turn_stream_append goes_on_append goes_on_def published_def is_done_def over_ok_def
      completed_def)

section \<open>Steps\<close>

lemma finish_done [simp]:
  "t_events_closed (finish_terminal_locked res t) = t_events_closed t"
  "t_received (finish_terminal_locked res t) = t_received t"
  "published (finish_terminal_locked res t) = published t"
  "t_panics (finish_terminal_locked res t) = t_panics t"
  by (simp_all add: finish_terminal_locked_def finish_acceptance_def published_def)

lemma finish_is_done:
  "is_done (finish_terminal_locked res t) \<longrightarrow>
     (if t_terminal t then is_done t else ResKind res \<in> {TurnResultCompleted, TurnResultCanceled})"
  by (simp add: finish_terminal_locked_def is_done_def)

lemma failure_not_done: "failure_ok res \<Longrightarrow> ResKind res \<notin> {TurnResultCompleted, TurnResultCanceled}"
  by (auto simp: failure_ok_def result_ok_def)

lemma prefix_snoc: "xs @ ys = zs \<Longrightarrow> prefix xs zs"
  by (auto simp: prefix_def)

lemma completing_step:
  assumes "finish_turn_done e t = (res, t')" "position_ok t (Some (Completing e))"
  shows "position_ok t' (Some Ended) \<and> t_panics t' = t_panics t"
proof (cases "t_terminal t")
  case True
  with assms show ?thesis by (auto simp: finish_turn_done_def over_ok_def intro: prefix_snoc)
next
  case False
  show ?thesis
  proof (cases "length (t_events t) < t_cap t")
    case True
    define t1 where "t1 = t\<lparr>t_events := t_events t @ [e]\<rparr>"
    have "send_event e t = (True, t1)" using True assms(2) by (simp add: send_event_def t1_def)
    then have t': "\<exists>r. t' = finish_terminal_locked r t1" using False assms(1)
      by (auto simp: finish_turn_done_def Let_def)
    have "published t1 = turn_stream (t_received t1)" "completed (t_received t1)"
      "t_events_closed t1 = 0" "t_panics t1 = t_panics t"
      using assms(2) by (simp_all add: t1_def published_def)
    with t' show ?thesis by (auto simp: over_ok_def)
  next
    case full: False
    then have "send_event e t = (False, t)" using assms(2) by (simp add: send_event_def)
    then have t': "t' = finish_terminal_locked overflow_result t" using False assms(1)
      by (auto simp: finish_turn_done_def Let_def)
    have "\<not> is_done t'" using finish_is_done [of overflow_result t] False by (auto simp: t' overflow_result_def)
    with assms(2) show ?thesis by (auto simp: t' over_ok_def intro: prefix_snoc)
  qed
qed

lemma publishing_step:
  assumes "publish_event e t = (sent, t')" "position_ok t (Some (Publishing e))"
  shows "position_ok t' (Some (if sent then Waiting else Ended)) \<and> t_panics t' = t_panics t"
  using assms
  by (auto simp: publish_event_def send_event_def published_def is_done_def over_ok_def
      intro: prefix_snoc [of _ "[e]"] split: if_splits)

text \<open>A dispatcher's step from its position.\<close>

lemma position_step:
  assumes "turn_step k ch r a t = Some (t', x, new, spawned)" "position_weight k a = {#(k, p)#}"
    and "position_ok t (Some p)"
  obtains p' where "turn_sum position_weight new + turn_sum position_weight (concat spawned) = place k p'"
    "position_ok t' p'" "t_panics t' = t_panics t"
proof (cases a)
  case (DispatchLoop first)
  with assms have "p = Waiting" "t' = t" "new = [Bg (Us (NextEvent (t_sub t))), T k (Received first)]" "spawned = []" by auto
  with assms(3) show thesis by (intro that [of "Some Waiting"]) simp_all
next
  case (Received first)
  then have p: "p = Waiting" using assms(2) by simp
  obtain y where y: "fst r = REvent y" using assms(1) Received by (cases "fst r") simp_all
  show thesis
  proof (cases y)
    case (Inl err)
    then have "t' = t" "spawned = []"
      "new = [T k (Finish (turn_result_from_subscription_error err)), T k CloseEvents]"
      using assms(1) by (simp_all add: Received y)
    with assms(3) p show thesis by (intro that [of "Some Ended"]) (simp_all add: over_ok_def)
  next
    case (Inr e)
    then have "t' = t\<lparr>t_received := t_received t @ [e]\<rparr>" "spawned = []" "new = received_acts k first e"
      using assms(1) by (simp_all add: Received y)
    with after_event_ok [of t e] assms(3) p show thesis
      by (intro that [of "Some (after_event e)"]) (simp_all add: received_position)
  qed
next
  case (Publish e)
  then have p: "p = Publishing e" using assms(2) by simp
  obtain sent where s: "publish_event e t = (sent, t')" and acts: "spawned = []"
      "new = (if sent then [T k (DispatchLoop False)] else [T k (Finish overflow_result), T k CloseEvents])"
    using assms(1) Publish by (auto split: prod.splits)
  from publishing_step [OF s] assms(3) p acts show thesis
    by (intro that [of "Some (if sent then Waiting else Ended)"]) simp_all
next
  case (FinishTurnDone e)
  then have p: "p = Completing e" using assms(2) by simp
  obtain res where s: "finish_turn_done e t = (res, t')" and acts: "spawned = []"
      "new = (case res of None \<Rightarrow> [] | Some x \<Rightarrow> announce x t) @ [T k CloseEvents]"
    using assms(1) FinishTurnDone by (auto split: prod.splits)
  from completing_step [OF s] assms(3) p acts show thesis
    by (intro that [of "Some Ended"]) (simp_all split: option.split)
next
  case CloseEvents
  with assms show thesis
    by (intro that [of None]) (auto simp: close_events_def over_ok_def published_def is_done_def)
next
  case (Finish res)
  with assms show thesis by (auto split: if_splits)
qed (use assms in \<open>auto simp: position_weight_def\<close>)

text \<open>A step of anything else on the turn.\<close>

lemma other_step:
  assumes "turn_step k ch r a t = Some (t', x, new, spawned)" "position_weight k a = {#}"
  shows "turn_sum position_weight new + turn_sum position_weight (concat spawned) = {#}"
    "position_ok t p \<Longrightarrow> position_ok t' p" "t_panics t' = t_panics t"
proof -
  have "(turn_sum position_weight new + turn_sum position_weight (concat spawned) = {#}) \<and>
    t_events_closed t' = t_events_closed t \<and> t_received t' = t_received t \<and> t_panics t' = t_panics t \<and>
    published t' = published t \<and> (is_done t' \<longrightarrow> is_done t)"
  proof (cases a)
    case (Finish res)
    then have f: "failure_ok res" using assms(2) by (simp split: if_splits)
    have "is_done (finish_terminal_locked res t) \<longrightarrow> is_done t"
      using finish_is_done [of res t] failure_not_done [OF f] by (simp split: if_splits)
    with assms Finish show ?thesis by auto
  next
    case RunCancel
    with assms show ?thesis by (auto simp: run_cancel_acts_def position_weight_def split: sum.splits)
  next
    case (Observed f)
    with assms show ?thesis
      by (cases "Event f = OK \<and> \<not> t_terminal t") (auto simp: observe_cancel_def published_def is_done_def)
  next
    case NextSelect
    with assms show ?thesis
      by (auto simp: receive_event_def published_def is_done_def position_weight_def
          split: wchoice.splits choice.splits option.splits list.splits if_splits)
  next
    case (NextPoll e)
    with assms show ?thesis
      by (auto simp: receive_event_def published_def is_done_def position_weight_def
          split: option.splits list.splits if_splits)
  qed (use assms in \<open>auto simp: finish_acceptance_def mark_accepted_def ignore_advisory_def finish_cancel_def
      mark_write_complete_def published_def is_done_def position_weight_def
      split: if_splits option.splits wchoice.splits choice.splits start_once.splits\<close>)
  then show "turn_sum position_weight new + turn_sum position_weight (concat spawned) = {#}"
    "position_ok t p \<Longrightarrow> position_ok t' p" "t_panics t' = t_panics t"
    using position_ok_mono [of t p t'] by auto
qed

section \<open>The ledger\<close>

lemma at_turn_none [simp]: "at_turn k {#} = {#}"
  by (simp add: at_turn_def)

lemma at_turn_add_mset [simp]:
  "at_turn k (add_mset x m) = (if fst x = k then add_mset x (at_turn k m) else at_turn k m)"
  by (simp add: at_turn_def)

lemma at_turn_add [simp]: "at_turn k (m + n) = at_turn k m + at_turn k n"
  by (simp add: at_turn_def)

lemma at_turn_place [simp]: "at_turn j (place k p) = (if j = k then place k p else {#})"
  by (simp add: at_turn_def place_def split: option.split)

lemma position_weight_cases:
  obtains "position_weight k a = {#}" | p where "position_weight k a = place k (Some p)"
  by (cases a; fastforce simp: position_weight_def)

lemma place_single: "place k (Some x) + m = place k p \<Longrightarrow> p = Some x \<and> m = {#}"
  by (cases p) (auto simp: add_eq_conv_ex)

lemma positions_ok_new:
  assumes "positions_ok w m"
  shows "positions_ok (w\<lparr>wturns := wturns w @ [new_turn session ref i buffer]\<rparr>)
    ({#(length (wturns w), Waiting)#} + m)"
proof -
  let ?n = "length (wturns w)" and ?t = "new_turn session ref i buffer"
  have none: "at_turn ?n m = {#}"
    using assms by (auto simp: positions_ok_def at_turn_def filter_mset_eq_conv)
  have new: "t_panics ?t = 0 \<and> position_ok ?t (Some Waiting)"
    by (simp add: new_turn_def published_def is_done_def goes_on_def)
  have "t_panics ((wturns w @ [?t]) ! k) = 0 \<and>
      (\<exists>p. at_turn k (place ?n (Some Waiting) + m) = place k p \<and> position_ok ((wturns w @ [?t]) ! k) p)"
    if "k < Suc ?n" for k
  proof (cases "k = ?n")
    case True
    then show ?thesis using new none by (auto intro!: exI [of _ "Some Waiting"])
  next
    case False
    with that assms show ?thesis by (auto simp: positions_ok_def nth_append)
  qed
  moreover have "\<forall>x \<in># m. fst x < Suc ?n" using assms by (auto simp: positions_ok_def less_Suc_eq)
  ultimately show ?thesis by (simp add: positions_ok_def)
qed

lemma positions_ok_turn:
  assumes s: "turn_step k ch r a (wturns w ! k) = Some (t, x, new, spawned)" and k: "k < length (wturns w)"
    and o: "positions_ok w (position_weight k a + m)"
  shows "positions_ok (w\<lparr>wturns := (wturns w)[k := t]\<rparr>)
    (turn_sum position_weight new + turn_sum position_weight (concat spawned) + m)"
proof -
  obtain p where p: "at_turn k (position_weight k a + m) = place k p" "position_ok (wturns w ! k) p"
    "t_panics (wturns w ! k) = 0"
    using o k unfolding positions_ok_def by blast
  have "\<exists>p'. at_turn k (turn_sum position_weight new + turn_sum position_weight (concat spawned) + m) = place k p' \<and>
      position_ok t p' \<and> t_panics t = 0 \<and>
      (\<exists>q. turn_sum position_weight new + turn_sum position_weight (concat spawned) = place k q)"
  proof (cases rule: position_weight_cases [of k a])
    case 1
    note other = other_step [OF s 1]
    have none: "turn_sum position_weight new + turn_sum position_weight (concat spawned) = place k None"
      using other(1) by simp
    show ?thesis unfolding none
      by (rule exI [of _ p]) (use p other 1 in \<open>auto intro: exI [of _ None]\<close>)
  next
    case (2 y)
    then have e: "p = Some y" "at_turn k m = {#}"
      using p(1) place_single [of k y "at_turn k m" p] by simp_all
    obtain q where "turn_sum position_weight new + turn_sum position_weight (concat spawned) = place k q"
      "position_ok t q" "t_panics t = t_panics (wturns w ! k)"
      by (rule position_step [OF s]) (use 2 p e in auto)
    with e p(3) show ?thesis by (auto simp: )
  qed
  then obtain p' q where new: "at_turn k (turn_sum position_weight new + turn_sum position_weight (concat spawned) + m) = place k p'"
      "position_ok t p'" "t_panics t = 0"
    and q: "turn_sum position_weight new + turn_sum position_weight (concat spawned) = place k q" by blast
  have W: "position_weight k a = {#} \<or> (\<exists>y. position_weight k a = place k (Some y))"
    by (rule position_weight_cases [of k a]) auto
  have "\<exists>p. at_turn j (place k q + m) = place j p \<and> position_ok ((wturns w)[k := t] ! j) p \<and> t_panics ((wturns w)[k := t] ! j) = 0"
    if "j < length (wturns w)" for j
  proof (cases "j = k")
    case True
    then show ?thesis using new k q by auto
  next
    case False
    then have "at_turn j (position_weight k a + m) = at_turn j m" using W by auto
    moreover obtain p where "at_turn j (position_weight k a + m) = place j p" "position_ok (wturns w ! j) p"
      "t_panics (wturns w ! j) = 0"
      using o \<open>j < length (wturns w)\<close> unfolding positions_ok_def by blast
    ultimately show ?thesis using False by (auto intro!: exI [of _ p])
  qed
  moreover have "\<forall>x \<in># place k q + m. fst x < length (wturns w)"
    using o k by (auto simp: positions_ok_def place_def split: option.splits)
  ultimately show ?thesis unfolding q positions_ok_def
    by (simp del: at_turn_add) blast
qed

interpretation dispatch_turns: turn_ledger position_weight positions_ok
proof
  fix cc v b w c' v' new' spawned' m
  assume "positions_ok w m"
  then show "positions_ok (w\<lparr>wc := c'\<rparr>) (turn_sum position_weight (observer_acts b) + m)"
    by (simp add: positions_ok_def observer_acts_def position_weight_def split: act.splits rd_act.splits)
next
  fix w m session ref i buffer
  assume "positions_ok w m"
  from positions_ok_new [OF this]
  show "positions_ok (w\<lparr>wturns := wturns w @ [new_turn session ref i buffer]\<rparr>)
      (position_weight (length (wturns w)) (DispatchLoop True) + (position_weight (length (wturns w)) WatchLifecycle + m))"
    by (simp add: position_weight_def)
qed (auto simp: position_weight_def intro: positions_ok_turn)

end
