(* ===== verification/TurnCancel.thy ===== *)
theory TurnCancel imports TurnInvariants begin

text \<open>
  The small ledgers of a turn: the one cancel request and the exclusive reader of the event
  queue, each a count of the actions on one turn; and the replies observed on behalf of turns.
\<close>

declare sum_list_eq_0_iff [simp del]

section \<open>Counting the actions on one turn\<close>

definition one_weight :: "(turn_act \<Rightarrow> nat) \<Rightarrow> nat \<Rightarrow> nat \<Rightarrow> turn_act \<Rightarrow> nat" where
  "one_weight f j k a = (if k = j then f a else 0)"

definition one_ok :: "(turn \<Rightarrow> nat \<Rightarrow> bool) \<Rightarrow> nat \<Rightarrow> world \<Rightarrow> nat \<Rightarrow> bool" where
  "one_ok good j w n = (if j < length (wturns w) then good (wturns w ! j) n else n = 0)"

definition on_turn :: "nat \<Rightarrow> wact list \<Rightarrow> bool" where
  "on_turn k as = list_all (\<lambda>x. case x of T i _ \<Rightarrow> i = k | _ \<Rightarrow> True) as"

lemma on_turn_simps [simp]:
  "on_turn k []" "on_turn k (as @ bs) \<longleftrightarrow> on_turn k as \<and> on_turn k bs"
  "on_turn k (T i a # as) \<longleftrightarrow> i = k \<and> on_turn k as" "on_turn k (C b # as) = on_turn k as"
  "on_turn k (Bg b # as) = on_turn k as" "on_turn k (S s # as) = on_turn k as" "on_turn k (map Bg rs)"
  by (auto simp: on_turn_def list_all_iff)

lemma turn_step_on:
  assumes "turn_step k ch r a t = Some (t', x, new, spawned)" shows "on_turn k (new @ concat spawned)"
  using assms
  by (cases a)
    (auto simp: received_acts_def handle_event_def announce_def run_cancel_acts_def finish_cancel_acts_def
      split: if_splits option.splits prod.splits ret.splits sum.splits pevent.splits wchoice.splits choice.splits
        start_once.splits)

lemma on_turn_other: "on_turn k as \<Longrightarrow> j \<noteq> k \<Longrightarrow> turn_sum (one_weight f j) as = 0"
  by (induction as) (auto simp: on_turn_def one_weight_def split: wact.splits)

locale turn_count =
  fixes f :: "turn_act \<Rightarrow> nat"
    and good :: "turn \<Rightarrow> nat \<Rightarrow> bool"
  assumes step_good: "turn_step k ch r a t = Some (t', x, new, spawned) \<Longrightarrow> good t (f a + i) \<Longrightarrow>
      good t' (turn_sum (one_weight f k) new + turn_sum (one_weight f k) (concat spawned) + i)"
    and new_good: "good (new_turn session ref u buffer) (f (DispatchLoop True) + f WatchLifecycle)"
    and call_good: "good t n \<Longrightarrow> a \<in> {AcceptedCheck, NextLock, CancelOnce, WaitCheck} \<Longrightarrow> good t (f a + n)"
    and no_weight: "f (Finish res) = 0" "f MarkWriteComplete = 0" "f (Observed fr) = 0"
begin

lemma turn_ledger_one: "turn_ledger (one_weight f j) (one_ok good j)"
proof
  fix k ch r a w t x new spawned m
  assume s: "turn_step k ch r a (wturns w ! k) = Some (t, x, new, spawned)" and k: "k < length (wturns w)"
    and o: "one_ok good j w (one_weight f j k a + m)"
  show "one_ok good j (w\<lparr>wturns := (wturns w)[k := t]\<rparr>)
      (turn_sum (one_weight f j) new + turn_sum (one_weight f j) (concat spawned) + m)"
  proof (cases "j = k")
    case True
    with step_good [OF s, of m] o k show ?thesis by (simp add: one_ok_def one_weight_def)
  next
    case False
    with turn_step_on [OF s] have "turn_sum (one_weight f j) new = 0" "turn_sum (one_weight f j) (concat spawned) = 0"
      using on_turn_other [of k _ j f] by auto
    with False o show ?thesis by (simp add: one_ok_def one_weight_def)
  qed
next
  fix w m session ref i buffer
  assume "one_ok good j w m"
  then show "one_ok good j (w\<lparr>wturns := wturns w @ [new_turn session ref i buffer]\<rparr>)
     (one_weight f j (length (wturns w)) (DispatchLoop True)
       + (one_weight f j (length (wturns w)) WatchLifecycle + m))"
    using new_good [of session ref i buffer] by (auto simp: one_ok_def one_weight_def nth_append split: if_splits)
next
  fix w m k a
  assume "one_ok good j w m" "k < length (wturns w)" "a \<in> {AcceptedCheck, NextLock, CancelOnce, WaitCheck}"
  then show "one_ok good j w (one_weight f j k a + m)"
    using call_good by (auto simp: one_ok_def one_weight_def)
next
  fix cc v b w c' v' new' spawned' m
  assume "one_ok good j w m"
  then show "one_ok good j (w\<lparr>wc := c'\<rparr>) (turn_sum (one_weight f j) (observer_acts b) + m)"
    by (simp add: one_ok_def observer_acts_def one_weight_def no_weight split: act.splits rd_act.splits)
qed (simp_all add: one_weight_def no_weight)

end

sublocale turn_count < one: turn_ledger "one_weight f j" "one_ok good j" for j
  by (rule turn_ledger_one)

section \<open>The cancel request\<close>

definition cancel_count :: "turn_act \<Rightarrow> nat" where
  "cancel_count a = of_bool (case a of CancelCheck \<Rightarrow> True | RunCancel \<Rightarrow> True | CancelReplied \<Rightarrow> True
     | FinishCancel _ \<Rightarrow> True | _ \<Rightarrow> False)"

definition cancel_good :: "turn \<Rightarrow> nat \<Rightarrow> bool" where
  "cancel_good t n = (of_bool (t_cancel_once t = NotStarted) + n + t_cancel_done t \<le> 1)"

section \<open>The reader of the queue\<close>

definition next_count :: "turn_act \<Rightarrow> nat" where
  "next_count a = of_bool (case a of NextSelect \<Rightarrow> True | NextPoll _ \<Rightarrow> True | NextClosed \<Rightarrow> True
     | NextUnlock \<Rightarrow> True | _ \<Rightarrow> False)"

definition next_good :: "turn \<Rightarrow> nat \<Rightarrow> bool" where
  "next_good t n = (n = (if t_next_mu t then 1 else 0))"

lemma handle_event_count:
  assumes "\<And>res. f (Finish res) = 0" "f CloseEvents = 0" "\<And>b. f (DispatchLoop b) = 0"
    "\<And>e. f (FinishTurnDone e) = 0" "\<And>e. f (Publish e) = 0" "\<And>x y. f (IgnoreAdvisory x y) = 0"
  shows "turn_sum (one_weight f j) (handle_event k e) = 0"
  by (simp add: handle_event_def assms one_weight_def split: pevent.splits sum.splits option.splits)

interpretation cancel_turns: turn_count cancel_count cancel_good
proof
  fix k ch r a t t' x new spawned i
  assume s: "turn_step k ch r a t = Some (t', x, new, spawned)" and g: "cancel_good t (cancel_count a + i)"
  show "cancel_good t' (turn_sum (one_weight cancel_count k) new + turn_sum (one_weight cancel_count k) (concat spawned) + i)"
  proof (cases a)
    case (Received first)
    with s g show ?thesis
      by (auto simp: received_acts_def cancel_good_def cancel_count_def one_weight_def
          handle_event_count split: ret.splits sum.splits)
  next
    case RunCancel
    with s g show ?thesis
      by (auto simp: run_cancel_acts_def cancel_good_def cancel_count_def one_weight_def split: sum.splits)
  next
    case (FinishTurnDone e)
    with s g show ?thesis
      by (auto simp: finish_turn_done_def send_event_def Let_def finish_terminal_locked_def finish_acceptance_def
          cancel_good_def cancel_count_def one_weight_def split: if_splits)
  qed (use s g in \<open>auto simp: cancel_good_def cancel_count_def one_weight_def finish_acceptance_def
      mark_accepted_def ignore_advisory_def publish_event_def send_event_def finish_terminal_locked_def
      close_events_def observe_cancel_def finish_cancel_def mark_write_complete_def receive_event_def
      split: if_splits option.splits prod.splits wchoice.splits choice.splits list.splits start_once.splits\<close>)
qed (auto simp: cancel_good_def cancel_count_def new_turn_def)

interpretation next_turns: turn_count next_count next_good
proof
  fix k ch r a t t' x new spawned i
  assume s: "turn_step k ch r a t = Some (t', x, new, spawned)" and g: "next_good t (next_count a + i)"
  show "next_good t' (turn_sum (one_weight next_count k) new + turn_sum (one_weight next_count k) (concat spawned) + i)"
  proof (cases a)
    case (Received first)
    with s g show ?thesis
      by (auto simp: received_acts_def next_good_def next_count_def one_weight_def
          handle_event_count split: ret.splits sum.splits)
  next
    case RunCancel
    with s g show ?thesis
      by (auto simp: run_cancel_acts_def next_good_def next_count_def one_weight_def split: sum.splits)
  next
    case (FinishTurnDone e)
    with s g show ?thesis
      by (auto simp: finish_turn_done_def send_event_def Let_def finish_terminal_locked_def finish_acceptance_def
          next_good_def next_count_def one_weight_def split: if_splits)
  qed (use s g in \<open>auto simp: next_good_def next_count_def one_weight_def finish_acceptance_def
      mark_accepted_def ignore_advisory_def publish_event_def send_event_def finish_terminal_locked_def
      close_events_def observe_cancel_def finish_cancel_def mark_write_complete_def receive_event_def
      split: if_splits option.splits prod.splits wchoice.splits choice.splits list.splits start_once.splits\<close>)
qed (auto simp: next_good_def next_count_def new_turn_def)

section \<open>Observed replies\<close>

lemma observed_keeps [simp]:
  "c_observed (close_subscriber_locked i ref e c) = c_observed c"
  "c_observed (emit ob c) = c_observed c" "c_observed (set_state st c) = c_observed c"
  "c_observed (cancel_monitor c) = c_observed c" "c_observed (remove_pending i c) = c_observed c"
  "c_observed (panic p c) = c_observed c" "c_observed (close_transport g c) = c_observed c"
  "c_observed (close_reply ref c) = c_observed c" "c_observed (subscribe_owned n b c) = c_observed c"
  by (simp_all add: close_subscriber_locked_def emit_def set_state_def cancel_monitor_def remove_pending_def
      panic_def close_transport_def close_reply_def subscribe_owned_def Let_def split: option.splits)

lemma observed_folds [simp]:
  "c_observed (fail_subscribers p e c) = c_observed c" "c_observed (dispatch_event ev c) = c_observed c"
  "c_observed (fail_turn_subscribers e c) = c_observed c" "c_observed (unsubscribe i c) = c_observed c"
proof -
  show fail: "c_observed (fail_subscribers p e c) = c_observed c" for p e
    unfolding fail_subscribers_def by (rule fold_keeps) (simp split: prod.split)
  show "c_observed (dispatch_event ev c) = c_observed c"
    unfolding dispatch_event_def
    by (rule fold_keeps) (simp add: dispatch_one_def split: prod.split delivery.split)
  show "c_observed (fail_turn_subscribers e c) = c_observed c" by (simp add: fail_turn_subscribers_def fail)
  show "c_observed (unsubscribe i c) = c_observed c" by (simp add: unsubscribe_def split: option.split)
qed

lemma observed_write: "write_frame ch g i req c = (err, c') \<Longrightarrow> c_observed c' = c_observed c"
  by (auto dest: write_frame_shape)

lemma observed_rq: "rq_step ch r a c = Some (c', r', new) \<Longrightarrow> c_observed c' = c_observed c"
  by (cases a) (auto simp: register_request_def Let_def dest: observed_write
      split: if_splits option.splits choice.splits prod.splits)

lemma observed_rd:
  "rd_step ch r a c = Some (c', r', new) \<Longrightarrow>
   c_observed c' = c_observed c @ (case a of RdObserve k f \<Rightarrow> [(k, f)] | _ \<Rightarrow> [])"
  by (cases a) (auto simp: take_pending_def send_reply_def Let_def
      split: if_splits option.splits choice.splits prod.splits sum.splits)

lemma observed_us: "us_step ch r a c = Some (c', r', new) \<Longrightarrow> c_observed c' = c_observed c"
  by (cases a) (auto simp: set_instance_def detach_instance_def bridge_exited_def Let_def
      split: if_splits option.splits choice.splits prod.splits)

lemma observed_rc: "rc_step ch r a c = Some (c', r', new) \<Longrightarrow> c_observed c' = c_observed c"
  by (cases a) (auto simp: install_decoder_def Let_def
      split: if_splits option.splits choice.splits prod.splits sum.splits)

lemma observed_dc: "dc_step ch r a c = Some (c', r', new) \<Longrightarrow> c_observed c' = c_observed c"
  by (cases a) (auto simp: swap_pending_def split: if_splits)

lemma observed_cl: "cl_step ch r a c = Some (c', r', new) \<Longrightarrow> c_observed c' = c_observed c"
  by (cases a) (auto split: if_splits option.splits once.splits)

lemma observed_run:
  assumes "run_act ch r a c = Some (c', r', new, spawned)"
  shows "c_observed c' = c_observed c @ (case a of Rd (RdObserve k f) \<Rightarrow> [(k, f)] | _ \<Rightarrow> [])"
  using assms
  by (cases a) (auto dest: observed_rq observed_rd observed_us observed_rc observed_dc observed_cl
      split: rd_act.splits)

definition observed_weight :: "nat \<Rightarrow> turn_act \<Rightarrow> (nat \<times> server_frame) multiset" where
  "observed_weight k a = (case a of Observed f \<Rightarrow> {#(k, f)#} | _ \<Rightarrow> {#})"

definition confirmed :: "nat \<Rightarrow> client \<Rightarrow> bool" where
  "confirmed k c = (\<exists>f. (k, f) \<in> set (c_observed c) \<and> Event f = OK)"

definition observed_ok :: "world \<Rightarrow> (nat \<times> server_frame) multiset \<Rightarrow> bool" where
  "observed_ok w m =
     (set_mset m \<subseteq> set (c_observed (wc w)) \<and>
      (\<forall>k < length (wturns w). t_cancel_requested (wturns w ! k) \<longrightarrow> confirmed k (wc w)))"

lemma observed_handle: "turn_sum observed_weight (handle_event k e) = {#}"
  by (simp add: handle_event_def observed_weight_def split: pevent.splits sum.splits option.splits)

lemma observed_step:
  assumes "turn_step k ch r a t = Some (t', x, new, spawned)"
  shows "turn_sum observed_weight new + turn_sum observed_weight (concat spawned) = {#}"
    and "t_cancel_requested t' \<Longrightarrow> t_cancel_requested t \<or> (\<exists>f. observed_weight k a = {#(k, f)#} \<and> Event f = OK)"
proof -
  show "turn_sum observed_weight new + turn_sum observed_weight (concat spawned) = {#}"
    using assms
    by (cases a) (auto simp: received_acts_def observed_handle run_cancel_acts_def observed_weight_def
        split: if_splits option.splits prod.splits ret.splits sum.splits wchoice.splits choice.splits start_once.splits)
  show "t_cancel_requested t \<or> (\<exists>f. observed_weight k a = {#(k, f)#} \<and> Event f = OK)" if "t_cancel_requested t'"
  proof (cases a)
    case (Observed f)
    with assms that show ?thesis
      by (auto simp: observe_cancel_def observed_weight_def split: if_splits)
  next
    case (Received first)
    with assms that show ?thesis by (auto split: ret.splits sum.splits)
  next
    case (FinishTurnDone e)
    with assms that show ?thesis
      by (auto simp: finish_turn_done_def send_event_def Let_def finish_terminal_locked_def
          finish_acceptance_def split: if_splits)
  qed (use assms that in \<open>auto simp: finish_acceptance_def
      mark_accepted_def ignore_advisory_def publish_event_def send_event_def finish_terminal_locked_def
      close_events_def finish_cancel_def mark_write_complete_def receive_event_def
      split: if_splits option.splits prod.splits wchoice.splits choice.splits list.splits start_once.splits\<close>)
qed

lemma confirmed_mono: "set (c_observed c) \<subseteq> set (c_observed c') \<Longrightarrow> confirmed k c \<Longrightarrow> confirmed k c'"
  by (auto simp: confirmed_def)

interpretation observed_turns: turn_ledger observed_weight observed_ok
proof
  fix k ch r a w t x new spawned m
  assume s: "turn_step k ch r a (wturns w ! k) = Some (t, x, new, spawned)" and k: "k < length (wturns w)"
    and o: "observed_ok w (observed_weight k a + m)"
  have "confirmed j (wc w)" if "j < length (wturns w)" "t_cancel_requested ((wturns w)[k := t] ! j)" for j
  proof (cases "j = k")
    case True
    with observed_step(2) [OF s] that k o show ?thesis by (auto simp: observed_ok_def confirmed_def)
  next
    case False
    with that o show ?thesis by (simp add: observed_ok_def)
  qed
  with o show "observed_ok (w\<lparr>wturns := (wturns w)[k := t]\<rparr>)
      (turn_sum observed_weight new + turn_sum observed_weight (concat spawned) + m)"
    unfolding observed_step(1) [OF s] by (simp add: observed_ok_def)
next
  fix cc v b w c' v' new' spawned' m
  assume s: "run_act cc v b (wc w) = Some (c', v', new', spawned')" and o: "observed_ok w m"
  have obs: "set (c_observed c') = set (c_observed (wc w)) \<union> set_mset (turn_sum observed_weight (observer_acts b))"
    using observed_run [OF s]
    by (simp add: observer_acts_def observed_weight_def split: act.splits rd_act.splits)
  have "confirmed j c'" if "confirmed j (wc w)" for j
    by (rule confirmed_mono [OF _ that]) (simp add: obs)
  with o show "observed_ok (w\<lparr>wc := c'\<rparr>) (turn_sum observed_weight (observer_acts b) + m)"
    by (auto simp: observed_ok_def obs)
next
  fix w m session ref i buffer
  assume "observed_ok w m"
  then show "observed_ok (w\<lparr>wturns := wturns w @ [new_turn session ref i buffer]\<rparr>)
     (observed_weight (length (wturns w)) (DispatchLoop True)
       + (observed_weight (length (wturns w)) WatchLifecycle + m))"
    by (auto simp: observed_ok_def observed_weight_def nth_append new_turn_def)
qed (auto simp: observed_weight_def)

end
