(* ===== verification/TurnSafety.thy ===== *)
theory TurnSafety imports TurnEvents TurnCancel begin

text \<open>
  The properties of turns in every reachable state of the world, from the ledgers: the client
  and its turns never panic, a turn's acceptance and result are settled once, its events are
  those of the reference in order, it is cancelled only with the server's consent, and the
  calls of its owner return what was settled.
\<close>

declare sum_list_eq_0_iff [simp del]

section \<open>Reachable worlds\<close>

lemma reach_wf:
  assumes "world_step\<^sup>*\<^sup>* (new_world opt) (w, gs)" "k < length (wturns w)"
  shows "turn_wf (wturns w ! k)"
  using wf_turns.reach_ok [OF assms(1)] assms(2) by (simp add: wf_ok_def)

lemma reach_positions:
  assumes "world_step\<^sup>*\<^sup>* (new_world opt) (w, gs)"
  shows "positions_ok w (dispatch_turns.world.owed gs)"
  using dispatch_turns.reach_ok [OF assms] by (simp add: positions_ok_def)

lemma reach_position:
  assumes "world_step\<^sup>*\<^sup>* (new_world opt) (w, gs)" "k < length (wturns w)"
  obtains p where "position_ok (wturns w ! k) p" "t_panics (wturns w ! k) = 0"
  using reach_positions [OF assms(1)] assms(2) by (auto simp: positions_ok_def)

lemma reach_cancel:
  assumes "world_step\<^sup>*\<^sup>* (new_world opt) (w, gs)" "k < length (wturns w)"
  shows "cancel_good (wturns w ! k) (cancel_turns.one.world.owed k gs)"
  using cancel_turns.one.reach_ok [OF assms(1), of k] assms(2) by (simp add: one_ok_def)

lemma reach_next:
  assumes "world_step\<^sup>*\<^sup>* (new_world opt) (w, gs)" "k < length (wturns w)"
  shows "next_good (wturns w ! k) (next_turns.one.world.owed k gs)"
  using next_turns.one.reach_ok [OF assms(1), of k] assms(2) by (simp add: one_ok_def)

lemma reach_observed:
  assumes "world_step\<^sup>*\<^sup>* (new_world opt) (w, gs)"
  shows "observed_ok w (observed_turns.world.owed gs)"
  using observed_turns.reach_ok [OF assms] by (simp add: observed_ok_def)

lemma position_over: "position_ok t p \<Longrightarrow> prefix (published t) (turn_stream (t_received t)) \<and> t_events_closed t \<le> 1 \<and>
    (is_done t \<longrightarrow> published t = turn_stream (t_received t) \<and> completed (t_received t))"
  by (cases "(t, p)" rule: position_ok.cases) (auto simp: over_ok_def intro: prefix_snoc)

lemma reach_client:
  assumes "world_step\<^sup>*\<^sup>* (new_world opt) (w, gs)"
  shows "c_panics (wc w) = []" "subs_wf (wc w)"
proof -
  have r: "replies_ok (wc w) (reply_ledger.world.owed gs)"
    using reply_ledger.world_reach_ok [OF assms] by (simp add: replies_ok_def replies_owned_def pending_refs_def)
  have s: "subs_wf (wc w)"
    using sub_ledger.world_reach_ok [OF assms] by (simp add: subs_wf_def)
  have c: "close_ok (wc w) (close_ledger.world.owed gs)"
    using close_ledger.world_reach_ok [OF assms] by (simp add: close_ok_def)
  have "p \<notin> set (c_panics (wc w))" for p
    using r s c by (cases p) (auto simp: replies_ok_def replies_owned_def subs_wf_def close_ok_def)
  then show "c_panics (wc w) = []" by (metis list.set_intros(1) neq_Nil_conv)
  show "subs_wf (wc w)" by (rule s)
qed

section \<open>Example runs\<close>

text \<open>
  Runs of a new client for the instances of the theorems: a turn is started while the client
  is still connecting (its dispatcher is goroutine 3), the reader receives a \<^verbatim>\<open>turn_done\<close>, the
  dispatcher handles it.
\<close>

definition plain_send :: send_options where
  "plain_send = \<lparr>Images = [], NoReply = False, MaxTurns = 0, TokenBudget = 0, Deadline = []\<rparr>"

abbreviation go :: "nat \<Rightarrow> wcall + nat \<times> wchoice" where
  "go i \<equiv> Inr (i, Ch Go)"

definition demo_start :: "(wcall + nat \<times> wchoice) list" where
  "demo_start = [Inl (CallStartTurn ''s'' ''hi'' plain_send 0), go 2, go 2, go 2]"

definition demo_event :: "(wcall + nat \<times> wchoice) list" where
  "demo_event = demo_start @
     [Inr (1, Ch (Input (Inr ''{\"v\":1,\"ev\":\"turn_done\",\"session_id\":\"s\"}''))), go 1, go 3, go 3, go 3, go 3]"

definition demo_done :: "(wcall + nat \<times> wchoice) list" where
  "demo_done = demo_event @ [go 3]"

lemma demo_start_run:
  "case run_world (demo_start @ [Inl (CallCancel 0), go 5, Inl (CallTurnNext 0), go 6]) (new_world zero_options) of
     Some (w, gs) \<Rightarrow> length (wturns w) = 1 \<and> length gs = 7 \<and> gs ! 5 = ((NoRet, TNone), [T 0 CancelCheck, T 0 CancelOnceDone, T 0 CancelCtx])
       \<and> gs ! 6 = ((NoRet, TNone), [T 0 NextSelect])
   | None \<Rightarrow> False"
  by code_simp

lemma demo_event_run:
  "case run_world demo_event (new_world zero_options) of
     Some (w, gs) \<Rightarrow> length (wturns w) = 1 \<and> length gs = 5 \<and> \<not> t_terminal (wturns w ! 0) \<and> \<not> t_acceptance_set (wturns w ! 0)
       \<and> snd (gs ! 3) = [T 0 (FinishTurnDone (Typed TurnDone [VStr ''s'']))]
   | None \<Rightarrow> False"
  by code_simp

lemma demo_done_run:
  "case run_world demo_done (new_world zero_options) of
     Some (w, gs) \<Rightarrow> length (wturns w) = 1
       \<and> terminal_result (wturns w ! 0) = Some \<lparr>ResKind = TurnResultCompleted, ResErr = None\<rparr>
       \<and> t_handed (wturns w ! 0) @ t_events (wturns w ! 0) = [Typed TurnDone [VStr ''s'']]
   | None \<Rightarrow> False"
  by code_simp

lemma run_obtain:
  assumes "case run_world ks s of Some (w, gs) \<Rightarrow> P w gs | None \<Rightarrow> False"
  obtains w gs where "world_step\<^sup>*\<^sup>* s (w, gs)" "P w gs"
proof (cases "run_world ks s")
  case (Some t)
  with assms that run_world_steps [OF Some] show thesis by (cases t) simp
qed (use assms in simp)

text \<open>C1: with turns and session calls running beside it a client still never sends on or closes a closed channel,
  and neither does any turn: its acceptance, terminal, cancel and event channels are closed at most once
  and no event is sent after the event channel was closed.\<close>

theorem world_never_panics:
  assumes "world_step\<^sup>*\<^sup>* (new_world opt) (w, gs)"
  shows "c_panics (wc w) = [] \<and>
    (\<forall>t \<in> set (wturns w). t_panics t = 0 \<and> t_events_closed t \<le> 1 \<and> t_accepted_done t \<le> 1 \<and>
       t_terminal_done t \<le> 1 \<and> t_cancel_done t \<le> 1)"
proof -
  have "t_panics (wturns w ! k) = 0 \<and> t_events_closed (wturns w ! k) \<le> 1 \<and> t_accepted_done (wturns w ! k) \<le> 1 \<and>
       t_terminal_done (wturns w ! k) \<le> 1 \<and> t_cancel_done (wturns w ! k) \<le> 1"
    if k: "k < length (wturns w)" for k
  proof -
    obtain p where p: "position_ok (wturns w ! k) p" "t_panics (wturns w ! k) = 0"
      by (rule reach_position [OF assms k])
    have "turn_wf (wturns w ! k)" "cancel_good (wturns w ! k) (cancel_turns.one.world.owed k gs)"
      using reach_wf [OF assms k] reach_cancel [OF assms k] by blast+
    with p position_over [OF p(1)] show ?thesis by (simp add: turn_wf_def cancel_good_def)
  qed
  with reach_client(1) [OF assms] show ?thesis by (auto simp: in_set_conv_nth)
qed

theorem world_never_panics_witness:
  "\<exists>w gs. world_step\<^sup>*\<^sup>* (new_world zero_options) (w, gs) \<and> length (wturns w) = 1 \<and> c_panics (wc w) = []
     \<and> t_panics (wturns w ! 0) = 0"
proof (rule run_obtain [OF demo_done_run])
  fix w gs
  assume s: "world_step\<^sup>*\<^sup>* (new_world zero_options) (w, gs)" and p: "length (wturns w) = 1
       \<and> terminal_result (wturns w ! 0) = Some \<lparr>ResKind = TurnResultCompleted, ResErr = None\<rparr>
       \<and> t_handed (wturns w ! 0) @ t_events (wturns w ! 0) = [Typed TurnDone [VStr ''s'']]"
  from world_never_panics [OF s] p s show ?thesis by (metis One_nat_def lessI nth_mem)
qed

section \<open>The specification of a turn\<close>

text \<open>
  A turn promises its owner two cells: whether it was accepted, and how it ended.  Acceptance
  comes first, or comes as a failure with the end; both are settled once.
\<close>

type_synonym turn_spec = "gerr option option \<times> turn_result option"

inductive spec_step :: "turn_spec \<Rightarrow> turn_spec \<Rightarrow> bool" where
  accepts: "spec_step (None, None) (Some None, None)"
| ends: "result_ok res \<Longrightarrow> spec_step (Some a, None) (Some a, Some res)"
| fails: "result_ok res \<Longrightarrow> spec_step (None, None) (Some (ResErr res), Some res)"

inductive_simps spec_step_final: "spec_step (a, Some res) b"
inductive_cases spec_stepE [consumes 1, case_names accepts ends fails]: "spec_step a b"

definition abs_turn :: "turn \<Rightarrow> turn_spec" where
  "abs_turn t = (acceptance_result t, terminal_result t)"

lemma abs_turn_accept:
  assumes "turn_wf t"
  shows "abs_turn (finish_acceptance None t) = abs_turn t
    \<or> spec_step (abs_turn t) (abs_turn (finish_acceptance None t))"
proof (cases "t_acceptance_set t")
  case True
  then show ?thesis by (simp add: finish_acceptance_def)
next
  case False
  with assms have "\<not> t_terminal t" by (auto simp: turn_wf_def)
  with False show ?thesis
    by (simp add: abs_turn_def finish_acceptance_def acceptance_result_def terminal_result_def spec_step.accepts)
qed

lemma abs_turn_finish:
  assumes "result_ok res"
  shows "abs_turn (finish_terminal_locked res t) = abs_turn t
    \<or> spec_step (abs_turn t) (abs_turn (finish_terminal_locked res t))"
  using assms
  by (cases "t_terminal t"; cases "t_acceptance_set t")
    (simp_all add: abs_turn_def finish_terminal_locked_def finish_acceptance_def acceptance_result_def
      terminal_result_def spec_step.ends spec_step.fails)

lemma abs_turn_fields [simp]:
  "abs_turn (t\<lparr>t_received := es\<rparr>) = abs_turn t" "abs_turn (t\<lparr>t_next_mu := b\<rparr>) = abs_turn t"
  "abs_turn (t\<lparr>t_cancel_once := on\<rparr>) = abs_turn t" "abs_turn (t\<lparr>t_cancel_done := n\<rparr>) = abs_turn t"
  "abs_turn (t\<lparr>t_panics := n\<rparr>) = abs_turn t" "abs_turn (t\<lparr>t_advisory := b\<rparr>) = abs_turn t"
  "abs_turn (t\<lparr>t_events := q\<rparr>) = abs_turn t" "abs_turn (t\<lparr>t_events := q, t_handed := h\<rparr>) = abs_turn t"
  "abs_turn (close_events t) = abs_turn t" "abs_turn (finish_cancel err t) = abs_turn t"
  "abs_turn (mark_accepted t) = abs_turn t" "abs_turn (mark_write_complete t) = abs_turn t"
  "abs_turn (observe_cancel f t) = abs_turn t"
  by (simp_all add: abs_turn_def acceptance_result_def terminal_result_def close_events_def finish_cancel_def
      mark_accepted_def mark_write_complete_def observe_cancel_def)

lemma abs_turn_moves:
  "publish_event e t = (sent, t') \<Longrightarrow> abs_turn t' = abs_turn t"
  "ignore_advisory t = (b, t') \<Longrightarrow> abs_turn t' = abs_turn t"
  "receive_event t = Some (y, t') \<Longrightarrow> abs_turn t' = abs_turn t"
  by (auto simp: publish_event_def send_event_def ignore_advisory_def receive_event_def
      split: if_splits list.splits)

lemma abs_turn_step:
  assumes "turn_step k ch r a t = Some (t', x, new, spawned)" "turn_wf t" "wf_weight k a = 0"
  shows "abs_turn t' = abs_turn t \<or> spec_step (abs_turn t) (abs_turn t')"
proof (cases a)
  case Accept
  with assms abs_turn_accept [of t] show ?thesis by auto
next
  case (Finish res)
  with assms abs_turn_finish [of res t] show ?thesis by (auto simp: failure_ok_def)
next
  case (FinishTurnDone e)
  then obtain res where d: "finish_turn_done e t = (res, t')" using assms(1) by (auto split: prod.splits)
  show ?thesis
  proof (cases "t_terminal t")
    case True
    with d show ?thesis by (simp add: finish_turn_done_def)
  next
    case False
    then obtain s u v where s: "send_event e t = (s, u)" "t' = finish_terminal_locked v u" "result_ok v"
      using d by (cases "send_event e t")
        (auto simp: finish_turn_done_def Let_def result_ok_def overflow_result_def split: if_splits)
    have "abs_turn u = abs_turn t" using s(1) by (auto simp: send_event_def split: if_splits)
    with abs_turn_finish [OF s(3), of u] s(2) show ?thesis by simp
  qed
next
  case (Received first)
  with assms show ?thesis by (auto split: ret.splits sum.splits)
next
  case (Publish e)
  with assms show ?thesis by (auto dest: abs_turn_moves split: prod.splits)
next
  case (IgnoreAdvisory kind e)
  with assms show ?thesis by (auto dest: abs_turn_moves split: prod.splits)
next
  case NextSelect
  with assms show ?thesis
    by (auto dest: abs_turn_moves split: wchoice.splits choice.splits option.splits prod.splits)
next
  case (NextPoll e)
  with assms show ?thesis by (auto dest: abs_turn_moves split: option.splits prod.splits)
qed (use assms in \<open>auto split: if_splits option.splits wchoice.splits choice.splits start_once.splits\<close>)

lemma sess_step_turns:
  "sess_step ch r a w = Some (w', r', new, spawned) \<Longrightarrow> \<exists>ts. wturns w' = wturns w @ ts"
  by (cases a) (auto simp: subscribe_def Let_def
      split: if_splits option.splits prod.splits sum.splits wchoice.splits)

lemma world_run_turn:
  assumes "world_run ch r a w = Some (w', r', new, spawned)" "k < length (wturns w)"
  shows "k < length (wturns w') \<and> (wturns w' ! k = wturns w ! k \<or>
    (\<exists>b x. a = T k b \<and> turn_step k ch r b (wturns w ! k) = Some (wturns w' ! k, x, new, spawned)))"
proof (cases a)
  case (S b)
  with assms sess_step_turns [of ch r b w w' r' new spawned] show ?thesis by (auto simp: nth_append)
next
  case (T j b)
  with assms show ?thesis by (auto simp: nth_list_update split: if_splits option.splits)
qed (use assms in \<open>auto simp: client_step_def split: wchoice.splits option.splits if_splits\<close>)

lemma world_step_turn:
  assumes "world_step (w, gs) (w', gs')" "k < length (wturns w)"
  obtains "wturns w' ! k = wturns w ! k" "k < length (wturns w')"
  | i ch r b as x new spawned where "i < length gs" "gs ! i = (r, T k b # as)" "k < length (wturns w')"
    "turn_step k ch r b (wturns w ! k) = Some (wturns w' ! k, x, new, spawned)"
  using assms(1)
proof (cases rule: world_stepE)
  case (act i ch v hs)
  then have "go_at world_run (NoRet, TNone) i ch w gs = Some (w', gs')" by simp
  then show thesis
  proof (cases rule: go_at_cases)
    case (1 r a as r' new spawned)
    from world_run_turn [OF 1(3) assms(2)] 1 that show thesis by blast
  qed
next
  case (call c)
  with assms(2) that(1) show thesis by simp
qed

lemma wf_head:
  assumes "wf_ok w (wf_turns.world.owed gs)" "i < length gs" "gs ! i = (r, T k b # as)"
  shows "wf_weight k b = 0"
proof -
  have "wf_weight k b + (sum_list (map (turn_weight wf_weight) as) +
      (wf_turns.world.owed (take i gs) + wf_turns.world.owed (drop (Suc i) gs))) = 0"
    using wf_turns.world.owed_head [OF assms(2,3)] assms(1) by (simp add: wf_ok_def)
  then show ?thesis by simp
qed

definition turn_inv :: "nat \<Rightarrow> wsys \<Rightarrow> bool" where
  "turn_inv k s = (case s of (w, gs) \<Rightarrow> k < length (wturns w) \<and> wf_ok w (wf_turns.world.owed gs))"

definition abs_world :: "nat \<Rightarrow> wsys \<Rightarrow> turn_spec" where
  "abs_world k s = abs_turn (wturns (fst s) ! k)"

interpretation turn_sim: simulation world_step "turn_inv k" "abs_world k" spec_step for k
proof
  fix s t
  assume st: "world_step s t" and inv: "turn_inv k s"
  obtain w gs w' gs' where e: "s = (w, gs)" "t = (w', gs')" by fastforce
  have k: "k < length (wturns w)" and wf: "wf_ok w (wf_turns.world.owed gs)"
    using inv by (simp_all add: turn_inv_def e)
  have "wf_ok w' (wf_turns.world.owed gs')" using wf_turns.world_step_ok [OF st] wf by (simp add: e)
  moreover from st [unfolded e] k have "k < length (wturns w') \<and>
      (abs_turn (wturns w' ! k) = abs_turn (wturns w ! k) \<or> spec_step (abs_turn (wturns w ! k)) (abs_turn (wturns w' ! k)))"
  proof (cases rule: world_step_turn)
    case (2 i ch r b as x new spawned)
    have "turn_wf (wturns w ! k)" using wf k by (simp add: wf_ok_def)
    from abs_turn_step [OF 2(4) this wf_head [OF wf 2(1,2)]] 2(3) show ?thesis by blast
  qed simp
  ultimately show "turn_inv k t" "abs_world k t = abs_world k s \<or> spec_step (abs_world k s) (abs_world k t)"
    by (auto simp: turn_inv_def abs_world_def e)
qed

lemma reach_turn_inv:
  assumes "world_step\<^sup>*\<^sup>* (new_world opt) (w, gs)" "k < length (wturns w)"
  shows "turn_inv k (w, gs)"
  using wf_turns.reach_ok [OF assms(1)] assms(2) by (simp add: turn_inv_def wf_ok_def)

text \<open>C2: a turn implements its specification: whatever the goroutines do, it is accepted first or fails
  with its end, it ends at most once, with a result whose error is missing exactly when it
  completed, and both are settled for good.\<close>

theorem turn_refines_spec:
  assumes "world_step\<^sup>*\<^sup>* (new_world opt) (w, gs)" "k < length (wturns w)"
    and "world_step\<^sup>*\<^sup>* (w, gs) (w', gs')"
  shows "spec_step\<^sup>*\<^sup>* (abs_turn (wturns w ! k)) (abs_turn (wturns w' ! k))"
  using turn_sim.sim_run [OF assms(3) reach_turn_inv [OF assms(1,2)]] by (simp add: abs_world_def)

theorem turn_refines_spec_witness:
  "\<exists>w gs w' gs'. world_step\<^sup>*\<^sup>* (new_world zero_options) (w, gs) \<and> world_step (w, gs) (w', gs') \<and>
     abs_turn (wturns w ! 0) = (None, None) \<and>
     spec_step\<^sup>*\<^sup>* (None, None) (abs_turn (wturns w' ! 0))"
proof (rule run_obtain [OF demo_event_run])
  fix w gs
  assume s: "world_step\<^sup>*\<^sup>* (new_world zero_options) (w, gs)" and p: "length (wturns w) = 1 \<and> length gs = 5
       \<and> \<not> t_terminal (wturns w ! 0) \<and> \<not> t_acceptance_set (wturns w ! 0)
       \<and> snd (gs ! 3) = [T 0 (FinishTurnDone (Typed TurnDone [VStr ''s'']))]"
  obtain w' gs' where n: "go_at world_run (NoRet, TNone) 3 (Ch Go) w gs = Some (w', gs')"
    using p by (cases "gs ! 3"; cases "finish_turn_done (Typed TurnDone [VStr ''s'']) (wturns w ! 0)")
      (simp add: go_at_def)
  have st: "world_step (w, gs) (w', gs')" by (rule world_step.act [OF n])
  have "abs_turn (wturns w ! 0) = (None, None)"
    using p by (simp add: abs_turn_def acceptance_result_def terminal_result_def)
  with turn_refines_spec [OF s _ r_into_rtranclp [of world_step, OF st], of 0] st s p show ?thesis by auto
qed

text \<open>C17: once a turn has ended its result never changes, and every call of \<^verbatim>\<open>Wait\<close> and \<^verbatim>\<open>Accepted\<close> gives what
  was settled, at once or after the channel it waits for, even when the caller's context has
  expired.\<close>

theorem turn_result_immutable:
  assumes "world_step\<^sup>*\<^sup>* (new_world opt) (w, gs)" "k < length (wturns w)"
    and "terminal_result (wturns w ! k) = Some res" "world_step\<^sup>*\<^sup>* (w, gs) (w', gs')"
  shows "terminal_result (wturns w' ! k) = Some res \<and>
    acceptance_result (wturns w' ! k) = acceptance_result (wturns w ! k) \<and>
    (turn_step k ch r a (wturns w' ! k) = Some (t, x, new, spawned) \<longrightarrow>
       (a \<in> {WaitCheck, WaitRead} \<union> range WaitRecheck \<longrightarrow> x = TResult (Inr res) \<and> new = []) \<and>
       (a \<in> {AcceptedCheck, AcceptedRead} \<union> range AcceptedRecheck \<longrightarrow>
          Some x = map_option TErr (acceptance_result (wturns w ! k)) \<and> new = []))"
proof -
  have inv: "turn_inv k (w, gs)" by (rule reach_turn_inv [OF assms(1,2)])
  have final: "\<not> spec_step (abs_world k (w, gs)) b" for b
    using assms(3) by (simp add: abs_world_def abs_turn_def spec_step_final)
  have same: "abs_turn (wturns w' ! k) = abs_turn (wturns w ! k)"
    using turn_sim.sim_final [OF final assms(4) inv] by (simp add: abs_world_def)
  have "turn_inv k (w', gs')" using turn_sim.sim_run [OF assms(4) inv] by blast
  then have wf: "turn_wf (wturns w' ! k)" by (simp add: turn_inv_def wf_ok_def)
  from same have t: "terminal_result (wturns w' ! k) = Some res"
    and acc: "acceptance_result (wturns w' ! k) = acceptance_result (wturns w ! k)"
    using assms(3) by (simp_all add: abs_turn_def)
  from t have T: "t_terminal (wturns w' ! k)" "t_result (wturns w' ! k) = res"
    by (auto simp: terminal_result_def split: if_splits)
  with wf have "t_acceptance_set (wturns w' ! k)" by (simp add: turn_wf_def)
  then have "acceptance_result (wturns w ! k) = Some (t_acceptance_err (wturns w' ! k))"
    using acc by (simp add: acceptance_result_def)
  with T t acc show ?thesis by (auto split: option.splits)
qed

theorem turn_result_immutable_witness:
  "\<exists>w gs. world_step\<^sup>*\<^sup>* (new_world zero_options) (w, gs) \<and>
     terminal_result (wturns w ! 0) = Some \<lparr>ResKind = TurnResultCompleted, ResErr = None\<rparr> \<and>
     acceptance_result (wturns w ! 0) = acceptance_result (wturns w ! 0)"
proof (rule run_obtain [OF demo_done_run])
  fix w gs
  assume s: "world_step\<^sup>*\<^sup>* (new_world zero_options) (w, gs)" and p: "length (wturns w) = 1
       \<and> terminal_result (wturns w ! 0) = Some \<lparr>ResKind = TurnResultCompleted, ResErr = None\<rparr>
       \<and> t_handed (wturns w ! 0) @ t_events (wturns w ! 0) = [Typed TurnDone [VStr ''s'']]"
  from turn_result_immutable [OF s _ _ rtranclp.rtrancl_refl, of 0] p s show ?thesis by auto
qed

section \<open>Outcomes and events\<close>

text \<open>C12: what a turn's result says of its history: no error exactly for a completed turn; completed and
  canceled turns, and only those, ended with the server's \<^verbatim>\<open>turn_done\<close>, after which every event is
  queued or handed out; a canceled turn's cancel request was answered \<^verbatim>\<open>ok\<close> by the server, and a
  completed turn's was not.\<close>

theorem turn_outcome:
  assumes "world_step\<^sup>*\<^sup>* (new_world opt) (w, gs)" "k < length (wturns w)"
    and "terminal_result (wturns w ! k) = Some res"
  shows "(ResErr res = None \<longleftrightarrow> ResKind res = TurnResultCompleted) \<and>
    (ResKind res \<in> {TurnResultCompleted, TurnResultCanceled} \<longrightarrow>
       published (wturns w ! k) = turn_stream (t_received (wturns w ! k)) \<and> completed (t_received (wturns w ! k))) \<and>
    (ResKind res = TurnResultCanceled \<longrightarrow>
       (\<exists>f. (k, f) \<in> set (c_observed (wc w)) \<and> Event f = OK)) \<and>
    (ResKind res = TurnResultCompleted \<longrightarrow> \<not> t_cancel_requested (wturns w ! k))"
proof -
  have wf: "turn_wf (wturns w ! k)" by (rule reach_wf [OF assms(1,2)])
  have res: "t_terminal (wturns w ! k)" "t_result (wturns w ! k) = res"
    using assms(3) by (auto simp: terminal_result_def split: if_splits)
  obtain p where "position_ok (wturns w ! k) p" by (rule reach_position [OF assms(1,2)])
  from position_over [OF this] have "is_done (wturns w ! k) \<longrightarrow>
      published (wturns w ! k) = turn_stream (t_received (wturns w ! k)) \<and> completed (t_received (wturns w ! k))"
    by blast
  moreover have "t_cancel_requested (wturns w ! k) \<longrightarrow> confirmed k (wc w)"
    using reach_observed [OF assms(1)] assms(2) by (simp add: observed_ok_def)
  ultimately show ?thesis
    using wf res by (auto simp: turn_wf_def result_ok_def is_done_def confirmed_def)
qed

theorem turn_outcome_witness:
  "\<exists>w gs. world_step\<^sup>*\<^sup>* (new_world zero_options) (w, gs) \<and>
     terminal_result (wturns w ! 0) = Some \<lparr>ResKind = TurnResultCompleted, ResErr = None\<rparr> \<and>
     completed (t_received (wturns w ! 0))"
proof (rule run_obtain [OF demo_done_run])
  fix w gs
  assume s: "world_step\<^sup>*\<^sup>* (new_world zero_options) (w, gs)" and p: "length (wturns w) = 1
       \<and> terminal_result (wturns w ! 0) = Some \<lparr>ResKind = TurnResultCompleted, ResErr = None\<rparr>
       \<and> t_handed (wturns w ! 0) @ t_events (wturns w ! 0) = [Typed TurnDone [VStr ''s'']]"
  from turn_outcome [OF s, of 0] p s show ?thesis by auto
qed

text \<open>C5: the events a turn hands out through \<^verbatim>\<open>Next\<close> are a prefix of the reference stream of the events its
  dispatcher received, in the server's order and each once; as long as the dispatcher waits for
  more, what is handed out and queued is the whole stream; and the queue never exceeds its
  capacity, with a slot kept free until the turn ends.\<close>

theorem turn_events_in_order:
  assumes "world_step\<^sup>*\<^sup>* (new_world opt) (w, gs)" "k < length (wturns w)"
  shows "prefix (t_handed (wturns w ! k)) (turn_stream (t_received (wturns w ! k))) \<and>
    length (t_events (wturns w ! k)) \<le> t_cap (wturns w ! k) \<and>
    (\<not> t_terminal (wturns w ! k) \<longrightarrow> length (t_events (wturns w ! k)) < t_cap (wturns w ! k)) \<and>
    (i < length gs \<and> gs ! i = (r, T k (Received first) # as) \<longrightarrow>
       t_handed (wturns w ! k) @ t_events (wturns w ! k) = turn_stream (t_received (wturns w ! k)))"
proof -
  obtain p where p: "position_ok (wturns w ! k) p" by (rule reach_position [OF assms])
  have "prefix (t_handed (wturns w ! k)) (turn_stream (t_received (wturns w ! k)))"
    using position_over [OF p] by (auto simp: published_def dest: append_prefixD)
  moreover have "t_handed (wturns w ! k) @ t_events (wturns w ! k) = turn_stream (t_received (wturns w ! k))"
    if i: "i < length gs" "gs ! i = (r, T k (Received first) # as)"
  proof -
    obtain m where "dispatch_turns.world.owed gs = place k (Some Waiting) + m"
      using dispatch_turns.world.owed_head [OF i] by simp
    then have "positions_ok w (place k (Some Waiting) + m)" using reach_positions [OF assms(1)] by simp
    then obtain q where "at_turn k (place k (Some Waiting) + m) = place k q" "position_ok (wturns w ! k) q"
      using assms(2) by (auto simp: positions_ok_def)
    with place_single [of k Waiting "at_turn k m" q] show ?thesis by (simp add: published_def)
  qed
  ultimately show ?thesis using turn_wf_room [OF reach_wf [OF assms]] by blast
qed

theorem turn_events_in_order_witness:
  "\<exists>w gs. world_step\<^sup>*\<^sup>* (new_world zero_options) (w, gs) \<and>
     t_handed (wturns w ! 0) @ t_events (wturns w ! 0) = [Typed TurnDone [VStr ''s'']] \<and>
     prefix (t_handed (wturns w ! 0)) (turn_stream (t_received (wturns w ! 0)))"
proof (rule run_obtain [OF demo_done_run])
  fix w gs
  assume s: "world_step\<^sup>*\<^sup>* (new_world zero_options) (w, gs)" and p: "length (wturns w) = 1
       \<and> terminal_result (wturns w ! 0) = Some \<lparr>ResKind = TurnResultCompleted, ResErr = None\<rparr>
       \<and> t_handed (wturns w ! 0) @ t_events (wturns w ! 0) = [Typed TurnDone [VStr ''s'']]"
  from turn_events_in_order [OF s, of 0] p s show ?thesis by auto
qed

text \<open>C18: \<^verbatim>\<open>turn_done\<close> always fits into the queue: when the dispatcher of a turn that has not ended handles it,
  the event is queued and the turn ends as completed or canceled, never by an overflow.\<close>

theorem turn_done_fits:
  assumes "world_step\<^sup>*\<^sup>* (new_world opt) (w, gs)" "k < length (wturns w)"
    and "i < length gs" "gs ! i = (r, T k (FinishTurnDone e) # as)" "\<not> t_terminal (wturns w ! k)"
  shows "\<exists>res t'. finish_turn_done e (wturns w ! k) = (Some res, t') \<and>
    t_events t' = t_events (wturns w ! k) @ [e] \<and> terminal_result t' = Some res \<and>
    ResKind res = (if t_cancel_requested (wturns w ! k) then TurnResultCanceled else TurnResultCompleted)"
proof -
  obtain m where "dispatch_turns.world.owed gs = place k (Some (Completing e)) + m"
    using dispatch_turns.world.owed_head [OF assms(3,4)] by simp
  then have "positions_ok w (place k (Some (Completing e)) + m)" using reach_positions [OF assms(1)] by simp
  then obtain q where "at_turn k (place k (Some (Completing e)) + m) = place k q" "position_ok (wturns w ! k) q"
    using assms(2) by (auto simp: positions_ok_def)
  with place_single [of k "Completing e" "at_turn k m" q] have "t_events_closed (wturns w ! k) = 0" by simp
  moreover have "length (t_events (wturns w ! k)) < t_cap (wturns w ! k)"
    using turn_wf_room [OF reach_wf [OF assms(1,2)]] assms(5) by blast
  ultimately show ?thesis using assms(5)
    by (auto simp: finish_turn_done_def send_event_def finish_terminal_locked_def finish_acceptance_def
        terminal_result_def Let_def)
qed

theorem turn_done_fits_witness:
  "\<exists>w gs. world_step\<^sup>*\<^sup>* (new_world zero_options) (w, gs) \<and>
     (\<exists>res t'. finish_turn_done (Typed TurnDone [VStr ''s'']) (wturns w ! 0) = (Some res, t'))"
proof (rule run_obtain [OF demo_event_run])
  fix w gs
  assume s: "world_step\<^sup>*\<^sup>* (new_world zero_options) (w, gs)" and p: "length (wturns w) = 1 \<and> length gs = 5
       \<and> \<not> t_terminal (wturns w ! 0) \<and> \<not> t_acceptance_set (wturns w ! 0)
       \<and> snd (gs ! 3) = [T 0 (FinishTurnDone (Typed TurnDone [VStr ''s'']))]"
  from turn_done_fits [OF s, of 0 3 "fst (gs ! 3)" _ "[]"] p s show ?thesis by (auto simp: prod_eq_iff)
qed

text \<open>C19: a turn asks the server to cancel at most once: at most one goroutine is performing its cancel request,
  none is once the attempt has finished, and none ever starts again.\<close>

theorem cancel_requested_once:
  assumes "world_step\<^sup>*\<^sup>* (new_world opt) (w, gs)" "k < length (wturns w)"
    and "i < length gs" "j < length gs" "T k a \<in> set (snd (gs ! i))" "T k b \<in> set (snd (gs ! j))"
    and "cancel_count a = 1" "cancel_count b = 1"
  shows "i = j \<and> t_cancel_done (wturns w ! k) = 0 \<and> t_cancel_once (wturns w ! k) \<noteq> NotStarted"
proof -
  let ?f = "\<lambda>g :: (wval, wact) thread. turn_sum (one_weight cancel_count k) (snd g)"
  have good: "cancel_good (wturns w ! k) (sum_list (map ?f gs))"
    using reach_cancel [OF assms(1,2)] by (simp add: cancel_turns.one.world.owed_def case_prod_unfold)
  then have one: "sum_list (map ?f gs) \<le> of_bool True" by (simp add: cancel_good_def)
  have member: "1 \<le> turn_sum (one_weight cancel_count k) as" if "T k x \<in> set as" "cancel_count x = 1" for x as
    using weight_member [OF that(1), of "turn_weight (one_weight cancel_count k)"] that(2)
    by (simp add: one_weight_def)
  have "0 < ?f (gs ! i)" "0 < ?f (gs ! j)" using member assms(5-8) by fastforce+
  then have "i = j" using holder_unique(2) [OF one assms(3)] assms(4) by blast
  moreover have "1 \<le> sum_list (map ?f gs)"
    using weight_member [of "gs ! i" gs ?f] \<open>0 < ?f (gs ! i)\<close> assms(3) by (simp add: le_trans)
  ultimately show ?thesis using good by (auto simp: cancel_good_def)
qed

theorem cancel_requested_once_witness:
  "\<exists>w gs. world_step\<^sup>*\<^sup>* (new_world zero_options) (w, gs) \<and> T 0 CancelCheck \<in> set (snd (gs ! 5)) \<and>
     t_cancel_done (wturns w ! 0) = 0 \<and> t_cancel_once (wturns w ! 0) \<noteq> NotStarted"
proof (rule run_obtain [OF demo_start_run])
  fix w gs
  assume s: "world_step\<^sup>*\<^sup>* (new_world zero_options) (w, gs)" and p: "length (wturns w) = 1 \<and> length gs = 7
       \<and> gs ! 5 = ((NoRet, TNone), [T 0 CancelCheck, T 0 CancelOnceDone, T 0 CancelCtx])
       \<and> gs ! 6 = ((NoRet, TNone), [T 0 NextSelect])"
  have "t_cancel_done (wturns w ! 0) = 0 \<and> t_cancel_once (wturns w ! 0) \<noteq> NotStarted"
    using cancel_requested_once [OF s, of 0 5 5 CancelCheck CancelCheck] p by (simp add: cancel_count_def)
  with s p show ?thesis by (intro exI [of _ w] exI [of _ gs]) simp
qed

text \<open>At most one caller reads a turn's queue at a time: while one goroutine is inside \<^verbatim>\<open>Next\<close> the mutex is held
  and no other goroutine is inside.\<close>

theorem next_exclusive:
  assumes "world_step\<^sup>*\<^sup>* (new_world opt) (w, gs)" "k < length (wturns w)"
    and "i < length gs" "j < length gs" "T k a \<in> set (snd (gs ! i))" "T k b \<in> set (snd (gs ! j))"
    and "next_count a = 1" "next_count b = 1"
  shows "i = j \<and> t_next_mu (wturns w ! k)"
proof -
  let ?f = "\<lambda>g :: (wval, wact) thread. turn_sum (one_weight next_count k) (snd g)"
  have good: "next_good (wturns w ! k) (sum_list (map ?f gs))"
    using reach_next [OF assms(1,2)] by (simp add: next_turns.one.world.owed_def case_prod_unfold)
  then have one: "sum_list (map ?f gs) \<le> of_bool (t_next_mu (wturns w ! k))"
    by (auto simp: next_good_def split: if_splits)
  have member: "1 \<le> turn_sum (one_weight next_count k) as" if "T k x \<in> set as" "next_count x = 1" for x as
    using weight_member [OF that(1), of "turn_weight (one_weight next_count k)"] that(2)
    by (simp add: one_weight_def)
  have "0 < ?f (gs ! i)" "0 < ?f (gs ! j)" using member assms(5-8) by fastforce+
  with holder_unique [OF one assms(3)] assms(4) show ?thesis by blast
qed

theorem next_exclusive_witness:
  "\<exists>w gs. world_step\<^sup>*\<^sup>* (new_world zero_options) (w, gs) \<and> T 0 NextSelect \<in> set (snd (gs ! 6)) \<and>
     t_next_mu (wturns w ! 0)"
proof (rule run_obtain [OF demo_start_run])
  fix w gs
  assume s: "world_step\<^sup>*\<^sup>* (new_world zero_options) (w, gs)" and p: "length (wturns w) = 1 \<and> length gs = 7
       \<and> gs ! 5 = ((NoRet, TNone), [T 0 CancelCheck, T 0 CancelOnceDone, T 0 CancelCtx])
       \<and> gs ! 6 = ((NoRet, TNone), [T 0 NextSelect])"
  have "t_next_mu (wturns w ! 0)"
    using next_exclusive [OF s, of 0 6 6 NextSelect NextSelect] p by (simp add: next_count_def)
  with s p show ?thesis by (intro exI [of _ w] exI [of _ gs]) simp
qed

end
