(* ===== verification/ClientRaces.thy ===== *)
theory ClientRaces imports ClientSafety begin

text \<open>
  What the reconnect lock does not prevent: a goroutine that needs the lock it holds, a reader
  of an old transport that disconnects the current one, and a disconnection that undoes the
  final state of a close.  The runs are those of a client whose handshake has succeeded.
\<close>

declare sum_list_eq_0_iff [simp del]

section \<open>Runs\<close>

definition hello_reply :: "nat \<Rightarrow> string" where
  "hello_reply i = ''{\"v\":1,\"reply_to\":'' @ nat_text i @ '',\"ev\":\"hello_ok\",\"version\":1}''"

definition race_options :: options where
  "race_options = zero_options\<lparr>HasFactory := True, MaxAttempts := 2\<rparr>"

abbreviation moves :: "nat \<Rightarrow> nat \<Rightarrow> (call + nat \<times> choice) list" where
  "moves n i \<equiv> replicate n (Inr (i, Go))"

definition connect_run :: "(call + nat \<times> choice) list" where
  "connect_run = moves 4 0 @ [Inr (1, Input (Inr (hello_reply 1)))] @ moves 2 1
     @ [Inr (0, ReplyReady)] @ moves 4 0"

text \<open>The client it leads to.\<close>

definition hello_line :: string where
  "hello_line = ''{\"client\":\"jcode-sdk-go\",\"id\":1,\"max_version\":1,\"min_version\":1,\"req\":\"hello\",\"v\":1}''
     @ [newline]"

definition connected_sys :: sys where
  "connected_sys =
     \<lparr>cl = (new_client race_options)
        \<lparr>c_state := StateConnected,
         c_transports := [new_safe\<lparr>s_written := hello_line\<rparr>],
         c_replies := [fresh_rchan], c_next_id := 1,
         c_log := [obs ''connect_start'', (obs ''state'')\<lparr>OState := Some StateConnecting\<rparr>,
           (obs ''request_write_start'')\<lparr>ORequest := ''hello''\<rparr>,
           (obs ''request_write_complete'')\<lparr>ORequest := ''hello''\<rparr>, (obs ''request'')\<lparr>ORequest := ''hello''\<rparr>,
           (obs ''request_reply'')\<lparr>ORequest := ''hello''\<rparr>, (obs ''state'')\<lparr>OState := Some StateConnected\<rparr>,
           obs ''connect_ready'']\<rparr>,
      gos = [(RErr None, []), (NoRet, [Rd (RdRead 0)])]\<rparr>"

lemma connect_run: "run_schedule connect_run (new_client_sys race_options) = Some connected_sys"
  by code_simp

lemma connected: "sys_step\<^sup>*\<^sup>* (new_client_sys race_options) connected_sys"
  by (rule run_schedule_steps [OF connect_run])

text \<open>The write of the handshake of a reconnection fails.\<close>

definition broken_write_run :: "(call + nat \<times> choice) list" where
  "broken_write_run = [Inl CallReconnect] @ moves 11 2
     @ [Inr (2, Fails (Plain ''broken pipe''))] @ moves 1 2"

text \<open>The first attempt times out and the second succeeds; the reader of the first transport moves last.\<close>

definition stale_reader_run :: "(call + nat \<times> choice) list" where
  "stale_reader_run = [Inl CallReconnect] @ moves 12 2
     @ [Inr (2, CtxDone (Sent Ctx_DeadlineExceeded))] @ moves 5 2 @ moves 4 2
     @ [Inr (3, Input (Inl (Sent ErrTransportClosed)))] @ moves 2 3
     @ moves 8 2
     @ [Inr (4, Input (Inr (hello_reply 3)))] @ moves 2 4 @ [Inr (2, ReplyReady)] @ moves 6 2 @ moves 7 3"

text \<open>The reader's disconnection passes its check, the client is closed, the disconnection goes on.\<close>

definition late_disconnect_run :: "(call + nat \<times> choice) list" where
  "late_disconnect_run = [Inr (1, Input (Inl (Sent Err_EOF)))] @ moves 7 1
     @ [Inl CallClose] @ moves 11 2 @ moves 1 1"

lemma schedule_obtain:
  assumes "case run_schedule ks connected_sys of Some t \<Rightarrow> P t | None \<Rightarrow> False"
  obtains t where "sys_step\<^sup>*\<^sup>* (new_client_sys race_options) t" "P t"
proof (cases "run_schedule ks connected_sys")
  case (Some t)
  with assms that rtranclp_trans [OF connected run_schedule_steps [OF Some]] show thesis by simp
qed (use assms in simp)

lemma broken_write:
  "case run_schedule broken_write_run connected_sys of
     Some s \<Rightarrow> 2 < length (gos s) \<and> in_reconnect (fst (gos s ! 2), tl (snd (gos s ! 2)))
       \<and> hd (snd (gos s ! 2)) = Dc (DcEnter (Plain ''broken pipe'') False) \<and> snd (gos s ! 2) \<noteq> []
   | None \<Rightarrow> False"
  by code_simp

section \<open>A goroutine that waits for its own lock\<close>

lemma holder_stuck:
  assumes lock: "lock_ok (cl s) (lock_ledger.owed (gos s))"
    and i: "i < length (gos s)" "gos s ! i = (r, Dc (DcEnter err b) # as)" "in_reconnect (r, as)"
  shows "c_reconnect_mu (cl s)" "step_at i ch s = None"
proof -
  have "0 < sum_list (map lock_weight as)" using i(3) by (simp add: in_reconnect_def)
  moreover have "sum_list (map lock_weight as) \<le> lock_ledger.owed (gos s)"
    using lock_ledger.owed_head [OF i(1,2)] by simp
  ultimately have "0 < lock_ledger.owed (gos s)" by linarith
  with lock show l: "c_reconnect_mu (cl s)" by (cases "c_reconnect_mu (cl s)") (auto simp: lock_ok_def)
  then show "step_at i ch s = None" using i by (simp add: step_at_def)
qed

lemma step_at_other:
  "step_at j ch s = Some t \<Longrightarrow> i < length (gos s) \<Longrightarrow> i \<noteq> j \<Longrightarrow> i < length (gos t) \<and> gos t ! i = gos s ! i"
  by (auto simp: step_at_def nth_append split: if_splits prod.splits list.splits option.splits)

text \<open>C20: a goroutine that needs the reconnect lock inside the section it protects is stuck for good, and with it
  the lock: nothing the other goroutines do moves it, and no disconnection or reconnection ever
  enters again.  A reconnection whose handshake fails to write is such a goroutine.\<close>

theorem reconnect_deadlock:
  assumes "sys_step\<^sup>*\<^sup>* (new_client_sys opt) s" "i < length (gos s)"
    and "gos s ! i = (r, Dc (DcEnter err b) # as)" "in_reconnect (r, as)" "sys_step\<^sup>*\<^sup>* s t"
  shows "i < length (gos t) \<and> gos t ! i = gos s ! i \<and> step_at i ch t = None \<and> c_reconnect_mu (cl t) \<and>
    dc_step ch r' (DcEnter err' b') (cl t) = None \<and>
    (HasFactory (c_options (cl t)) \<longrightarrow> rc_step ch r' RcEnter (cl t) = None)"
proof -
  have "i < length (gos t) \<and> gos t ! i = gos s ! i \<and> lock_ok (cl t) (lock_ledger.owed (gos t))"
    using assms(5)
  proof (induction rule: rtranclp_induct)
    case base
    then show ?case using assms(2) reach_lock [OF assms(1)] by simp
  next
    case (step y z)
    then have y: "i < length (gos y)" "gos y ! i = gos s ! i" "lock_ok (cl y) (lock_ledger.owed (gos y))"
      by simp_all
    have ok: "lock_ok (cl z) (lock_ledger.owed (gos z))" by (rule lock_ledger.step_ok [OF step(2) y(3)])
    from step(2) have "i < length (gos z) \<and> gos z ! i = gos y ! i"
    proof (cases rule: sys_step.cases)
      case (act j c)
      moreover have "j \<noteq> i" using act holder_stuck(2) [OF y(3,1), of r err b as c] y(2) assms(3,4) by auto
      ultimately show ?thesis using step_at_other [of j c y z i] y(1) by blast
    next
      case (call k)
      then show ?thesis using y(1) by (simp add: start_call_def nth_append)
    qed
    with ok y(2) show ?case by simp
  qed
  with holder_stuck [of t i r err b as] assms(3,4) show ?thesis by auto
qed

theorem reconnect_deadlock_witness:
  "\<exists>s. sys_step\<^sup>*\<^sup>* (new_client_sys race_options) s \<and>
     hd (snd (gos s ! 2)) = Dc (DcEnter (Plain ''broken pipe'') False) \<and>
     c_reconnect_mu (cl s) \<and> step_at 2 Go s = None"
proof -
  obtain s where r: "sys_step\<^sup>*\<^sup>* (new_client_sys race_options) s"
    and s: "2 < length (gos s) \<and> in_reconnect (fst (gos s ! 2), tl (snd (gos s ! 2)))
       \<and> hd (snd (gos s ! 2)) = Dc (DcEnter (Plain ''broken pipe'') False) \<and> snd (gos s ! 2) \<noteq> []"
    by (rule schedule_obtain [OF broken_write])
  then have g: "gos s ! 2 = (fst (gos s ! 2), Dc (DcEnter (Plain ''broken pipe'') False) # tl (snd (gos s ! 2)))"
    by (metis list.collapse prod.collapse)
  from reconnect_deadlock [OF r _ g _ rtranclp.rtrancl_refl, of Go] s r show ?thesis by blast
qed

section \<open>A reader of an old transport\<close>


section \<open>A disconnection after a close\<close>


end
