(* ===== verification/Paths.thy ===== *)
theory Paths imports Prelude "HOL-Library.Sublist" begin

text \<open>
  The parts of the standard library's \<^verbatim>\<open>path/filepath\<close> the launcher uses, on Unix: paths are
  texts, and \<^verbatim>\<open>Clean\<close>, \<^verbatim>\<open>Join\<close>, \<^verbatim>\<open>Dir\<close>, \<^verbatim>\<open>Base\<close> and \<^verbatim>\<open>Abs\<close> work on
  the text alone.  The lemmas relate them to a path as a list of component names, which is what
  the ownership checks of the launcher are about.
\<close>

section \<open>The functions\<close>

fun split_slash :: "string \<Rightarrow> string list" where
  "split_slash [] = [[]]"
| "split_slash (c # s) =
     (if c = CHR ''/'' then [] # split_slash s
      else case split_slash s of x # xs \<Rightarrow> (c # x) # xs | [] \<Rightarrow> [[c]])"

fun join_slash :: "string list \<Rightarrow> string" where
  "join_slash [] = []"
| "join_slash [c] = c"
| "join_slash (c # d # cs) = c @ ''/'' @ join_slash (d # cs)"

definition is_abs :: "string \<Rightarrow> bool" where
  "is_abs s = (case s of c # _ \<Rightarrow> c = CHR ''/'' | [] \<Rightarrow> False)"

fun clean_comps :: "bool \<Rightarrow> string list \<Rightarrow> string list \<Rightarrow> string list" where
  "clean_comps rooted out [] = rev out"
| "clean_comps rooted out (c # cs) =
     (if c = [] \<or> c = ''.'' then clean_comps rooted out cs
      else if c = ''..'' then
        (case out of
           [] \<Rightarrow> clean_comps rooted (if rooted then [] else [''..'']) cs
         | d # ds \<Rightarrow> clean_comps rooted (if d = ''..'' then ''..'' # d # ds else ds) cs)
      else clean_comps rooted (c # out) cs)"

definition path_text :: "bool \<Rightarrow> string list \<Rightarrow> string" where
  "path_text rooted cs =
     (if rooted then CHR ''/'' # join_slash cs else if cs = [] then ''.'' else join_slash cs)"

definition comps :: "string \<Rightarrow> string list" where
  "comps s = clean_comps (is_abs s) [] (split_slash s)"

definition clean :: "string \<Rightarrow> string" where
  "clean s = path_text (is_abs s) (comps s)"

fun join_path :: "string list \<Rightarrow> string" where
  "join_path [] = []"
| "join_path (e # es) = (if e = [] then join_path es else clean (join_slash (e # es)))"

definition dir_part :: "string \<Rightarrow> string" where
  "dir_part s = rev (dropWhile (\<lambda>c. c \<noteq> CHR ''/'') (rev s))"

definition dir_path :: "string \<Rightarrow> string" where
  "dir_path s = clean (dir_part s)"

definition base_path :: "string \<Rightarrow> string" where
  "base_path s =
     (if s = [] then ''.''
      else let t = rev (dropWhile (\<lambda>c. c = CHR ''/'') (rev s)) in
        if t = [] then ''/'' else rev (takeWhile (\<lambda>c. c \<noteq> CHR ''/'') (rev t)))"

definition abs_path :: "string \<Rightarrow> string \<Rightarrow> string" where
  "abs_path wd s = (if is_abs s then clean s else join_path [wd, s])"

section \<open>Component names\<close>

text \<open>An ordinary name, and the components of a clean path.\<close>

definition plain_name :: "string \<Rightarrow> bool" where
  "plain_name c = (c \<noteq> [] \<and> c \<noteq> ''.'' \<and> c \<noteq> ''..'' \<and> CHR ''/'' \<notin> set c)"

definition clean_list :: "bool \<Rightarrow> string list \<Rightarrow> bool" where
  "clean_list rooted cs =
     (\<exists>n ps. cs = replicate n ''..'' @ ps \<and> list_all plain_name ps \<and> (rooted \<longrightarrow> n = 0))"

lemma split_slash_ne [simp]: "split_slash s \<noteq> []"
  by (cases s) (auto split: list.split)

lemma split_slash_plain: "CHR ''/'' \<notin> set c \<Longrightarrow> split_slash c = [c]"
  by (induction c) auto

lemma split_slash_append:
  "CHR ''/'' \<notin> set c \<Longrightarrow> split_slash (c @ CHR ''/'' # s) = c # split_slash s"
  by (induction c) auto

lemma noslash_hd: "CHR ''/'' \<notin> set c \<Longrightarrow> c \<noteq> [] \<Longrightarrow> \<not> is_abs (c @ s)"
  by (cases c) (auto simp: is_abs_def)

lemma split_slash_noslash: "\<forall>c \<in> set (split_slash s). CHR ''/'' \<notin> set c"
proof (induction s)
  case (Cons a s)
  then show ?case by (cases "split_slash s") auto
qed simp

lemma split_join:
  "cs \<noteq> [] \<Longrightarrow> list_all (\<lambda>c. CHR ''/'' \<notin> set c) cs \<Longrightarrow> split_slash (join_slash cs) = cs"
  by (induction cs rule: join_slash.induct) (auto simp: split_slash_plain split_slash_append)

lemma join_slash_append:
  "cs \<noteq> [] \<Longrightarrow> ds \<noteq> [] \<Longrightarrow> join_slash (cs @ ds) = join_slash cs @ CHR ''/'' # join_slash ds"
  by (induction cs rule: join_slash.induct) (cases ds; simp)+

lemma clean_list_noslash: "clean_list r cs \<Longrightarrow> list_all (\<lambda>c. c \<noteq> [] \<and> c \<noteq> ''.'' \<and> CHR ''/'' \<notin> set c) cs"
proof -
  assume "clean_list r cs"
  then obtain n ps where c: "cs = replicate n ''..'' @ ps" and "list_all plain_name ps"
    unfolding clean_list_def by blast
  then have "list_all (\<lambda>c. c \<noteq> [] \<and> c \<noteq> ''.'' \<and> CHR ''/'' \<notin> set c) ps"
    by (simp add: list_all_iff plain_name_def)
  moreover have "list_all (\<lambda>c. c \<noteq> [] \<and> c \<noteq> ''.'' \<and> CHR ''/'' \<notin> set c) (replicate n ''..'')"
    by (induction n) simp_all
  ultimately show ?thesis unfolding c list_all_append by blast
qed

lemma clean_list_Nil [simp]: "clean_list r []"
  by (auto simp: clean_list_def)

lemma clean_list_snoc: "clean_list r cs \<Longrightarrow> plain_name c \<Longrightarrow> clean_list r (cs @ [c])"
proof -
  assume "clean_list r cs" "plain_name c"
  then obtain n ps where "cs = replicate n ''..'' @ ps" "list_all plain_name ps" "r \<longrightarrow> n = 0"
    by (auto simp: clean_list_def)
  with \<open>plain_name c\<close> show ?thesis unfolding clean_list_def
    by (intro exI [of _ n] exI [of _ "ps @ [c]"]) simp
qed

lemma clean_list_up: "clean_list False cs \<Longrightarrow> (cs = [] \<or> last cs = ''..'') \<Longrightarrow> clean_list False (cs @ [''..''])"
proof -
  assume a: "clean_list False cs" "cs = [] \<or> last cs = ''..''"
  then obtain n ps where c: "cs = replicate n ''..'' @ ps" "list_all plain_name ps"
    by (auto simp: clean_list_def)
  with a(2) have "ps = []"
    by (cases ps rule: rev_cases) (auto simp: plain_name_def)
  with c show ?thesis unfolding clean_list_def
    by (intro exI [of _ "Suc n"] exI [of _ "[]"]) (simp add: replicate_append_same)
qed

lemma clean_list_butlast: "clean_list r (cs @ [c]) \<Longrightarrow> clean_list r cs"
proof -
  assume "clean_list r (cs @ [c])"
  then obtain n ps where c: "cs @ [c] = replicate n ''..'' @ ps" "list_all plain_name ps" "r \<longrightarrow> n = 0"
    by (auto simp: clean_list_def)
  show ?thesis
  proof (cases ps rule: rev_cases)
    case Nil
    with c show ?thesis unfolding clean_list_def
      by (intro exI [of _ "n - 1"] exI [of _ "[]"])
        (cases n; auto simp: replicate_append_same [symmetric])
  next
    case (snoc qs q)
    with c show ?thesis unfolding clean_list_def by (intro exI [of _ n] exI [of _ qs]) auto
  qed
qed

lemma clean_list_rooted: "clean_list True cs \<longleftrightarrow> list_all plain_name cs"
  by (auto simp: clean_list_def)

lemma clean_comps_list:
  assumes "clean_list r (rev out)" "list_all (\<lambda>c. CHR ''/'' \<notin> set c) cs"
  shows "clean_list r (clean_comps r out cs)"
  using assms
proof (induction r out cs rule: clean_comps.induct)
  case (2 r out c cs)
  show ?case
  proof (cases "c = [] \<or> c = ''.'' \<or> c \<noteq> ''..''")
    case True
    with 2 show ?thesis by (auto simp: clean_list_snoc plain_name_def)
  next
    case False
    show ?thesis
    proof (cases out)
      case Nil
      have "clean_list False [''..'']" using clean_list_up [of "[]"] by simp
      with False Nil 2 show ?thesis by simp
    next
      case (Cons d ds)
      have "\<not> r" if "d = ''..''"
        using 2(5) that Cons by (auto simp: clean_list_rooted plain_name_def)
      then have "clean_list r (rev (if d = ''..'' then ''..'' # d # ds else ds))"
        using 2(5) Cons clean_list_up [of "rev out"] clean_list_butlast [of r "rev ds" d] by auto
      with False Cons 2 show ?thesis by simp
    qed
  qed
qed simp

lemma comps_clean_list: "clean_list (is_abs s) (comps s)"
  unfolding comps_def by (rule clean_comps_list) (auto simp: list_all_iff split_slash_noslash)

lemma clean_comps_plain: "list_all plain_name cs \<Longrightarrow> clean_comps r out cs = rev out @ cs"
  by (induction cs arbitrary: out) (auto simp: plain_name_def)

lemma clean_comps_append: "clean_comps r out (cs @ ds) = clean_comps r (rev (clean_comps r out cs)) ds"
  by (induction r out cs rule: clean_comps.induct) (auto split: list.split)

lemma clean_comps_ups: "clean_comps False (replicate m ''..'') (replicate n ''..'') = replicate (m + n) ''..''"
proof (induction n arbitrary: m)
  case (Suc n)
  have "clean_comps False (replicate m ''..'') (replicate (Suc n) ''..'') =
      clean_comps False (replicate (Suc m) ''..'') (replicate n ''..'')"
    by (cases m) simp_all
  with Suc [of "Suc m"] show ?case by simp
qed simp

lemma clean_comps_id: "clean_list r cs \<Longrightarrow> clean_comps r [] cs = cs"
proof -
  assume "clean_list r cs"
  then obtain n ps where c: "cs = replicate n ''..'' @ ps" "list_all plain_name ps" "r \<longrightarrow> n = 0"
    by (auto simp: clean_list_def)
  have "clean_comps r [] (replicate n ''..'') = replicate n ''..''"
    using c(3) clean_comps_ups [of 0 n] by (cases r) simp_all
  then show ?thesis by (simp add: c(1) clean_comps_append clean_comps_plain [OF c(2)])
qed

section \<open>Clean paths as lists of components\<close>

lemma is_abs_join: "clean_list r cs \<Longrightarrow> \<not> is_abs (join_slash cs)"
proof -
  assume "clean_list r cs"
  then have c: "list_all (\<lambda>c. c \<noteq> [] \<and> c \<noteq> ''.'' \<and> CHR ''/'' \<notin> set c) cs" by (rule clean_list_noslash)
  show ?thesis
  proof (cases cs)
    case Nil
    then show ?thesis by (simp add: is_abs_def)
  next
    case (Cons d ds)
    then show ?thesis using c noslash_hd [of d] noslash_hd [of d "[]"] by (cases ds) auto
  qed
qed

lemma is_abs_text [simp]: "clean_list r cs \<Longrightarrow> is_abs (path_text r cs) = r"
  by (auto simp: path_text_def is_abs_join) (auto simp: is_abs_def)

lemma comps_text [simp]: "clean_list r cs \<Longrightarrow> comps (path_text r cs) = cs"
proof -
  assume c: "clean_list r cs"
  then have n: "list_all (\<lambda>c. CHR ''/'' \<notin> set c) cs"
    using clean_list_noslash [OF c] by (auto simp: list_all_iff)
  have "clean_comps r [] (split_slash (path_text r cs)) = cs"
  proof (cases "cs = []")
    case True
    then show ?thesis by (simp add: path_text_def)
  next
    case False
    with n have "split_slash (path_text r cs) = (if r then [[]] else []) @ cs"
      by (simp add: path_text_def split_join)
    then show ?thesis using clean_comps_id [OF c] by (cases r) simp_all
  qed
  with c show ?thesis by (simp add: comps_def)
qed

lemma clean_text [simp]: "clean_list r cs \<Longrightarrow> clean (path_text r cs) = path_text r cs"
  by (simp add: clean_def)

lemma clean_idem [simp]: "clean (clean s) = clean s"
  using comps_clean_list [of s] by (simp add: clean_def)

lemma path_text_inj:
  assumes "path_text r cs = path_text q ds" "clean_list r cs" "clean_list q ds"
  shows "r = q \<and> cs = ds"
  using assms by (metis comps_text is_abs_text)

lemma is_abs_clean [simp]: "is_abs (clean s) = is_abs s"
  using comps_clean_list [of s] by (simp add: clean_def)

lemma comps_clean [simp]: "comps (clean s) = comps s"
  using comps_clean_list [of s] by (simp add: clean_def)

lemma is_abs_append: "s \<noteq> [] \<Longrightarrow> is_abs (s @ t) = is_abs s"
  by (cases s) (auto simp: is_abs_def)

text \<open>Appending a name to a text: what \<^verbatim>\<open>Join\<close> does to a non-empty path.\<close>

lemma split_slash_snoc: "CHR ''/'' \<notin> set c \<Longrightarrow> split_slash (s @ CHR ''/'' # c) = split_slash s @ [c]"
proof (induction s)
  case Nil
  then show ?case by (simp add: split_slash_plain)
next
  case (Cons a s)
  then show ?case by (cases "split_slash s") auto
qed

lemma comps_snoc:
  assumes "s \<noteq> []" "plain_name c" shows "comps (s @ CHR ''/'' # c) = comps s @ [c]"
  using assms by (simp add: comps_def is_abs_append split_slash_snoc plain_name_def clean_comps_append)

lemma join_two:
  assumes "s \<noteq> []" "plain_name c"
  shows "join_path [s, c] = path_text (is_abs s) (comps s @ [c])"
  using assms by (simp add: clean_def comps_snoc is_abs_append)

lemma clean_ne [simp]: "clean s \<noteq> []"
proof -
  have "join_slash cs \<noteq> []" if "clean_list r cs" "cs \<noteq> []" for r cs
    using clean_list_noslash [OF that(1)] that(2) by (cases cs rule: join_slash.cases) auto
  then show ?thesis using comps_clean_list [of s] by (auto simp: clean_def path_text_def)
qed

lemma text_ne [simp]: "clean_list r cs \<Longrightarrow> path_text r cs \<noteq> []"
  by (metis clean_ne clean_text)

lemma join_text [simp]:
  "clean_list r cs \<Longrightarrow> plain_name c \<Longrightarrow> join_path [path_text r cs, c] = path_text r (cs @ [c])"
  by (subst join_two) simp_all

text \<open>The parent and the last name of a clean path.\<close>

lemma dir_text [simp]:
  assumes "clean_list r (cs @ [c])" "plain_name c" shows "dir_path (path_text r (cs @ [c])) = path_text r cs"
proof -
  have nc: "\<forall>x \<in> set (rev c). x \<noteq> CHR ''/''" using assms(2) by (auto simp: plain_name_def)
  have cl: "clean_list r cs" using assms(1) by (rule clean_list_butlast)
  have ns: "dropWhile (\<lambda>x. x \<noteq> CHR ''/'') (rev c @ xs) = dropWhile (\<lambda>x. x \<noteq> CHR ''/'') xs" for xs
    using nc by (intro dropWhile_append2) blast
  have part: "dir_part (path_text r (cs @ [c])) =
      (if r then [CHR ''/''] else []) @ (if cs = [] then [] else join_slash cs @ ''/'')"
    using nc ns [of "[]"] by (cases "cs = []") (simp_all add: dir_part_def path_text_def ns join_slash_append)
  show ?thesis
  proof (cases "cs = []")
    case True
    then show ?thesis unfolding dir_path_def part
      by (simp add: clean_def comps_def is_abs_def path_text_def)
  next
    case False
    have t: "dir_part (path_text r (cs @ [c])) = path_text r cs @ ''/''"
      unfolding part using False by (simp add: path_text_def)
    have "split_slash (path_text r cs @ ''/'') = split_slash (path_text r cs) @ [[]]"
      using split_slash_snoc [of "[]"] by simp
    then have "comps (path_text r cs @ ''/'') = comps (path_text r cs)"
      using cl by (simp add: comps_def is_abs_append clean_comps_append)
    then show ?thesis unfolding dir_path_def t using cl by (simp add: clean_def is_abs_append)
  qed
qed

lemma base_text [simp]:
  assumes "plain_name c" shows "base_path (path_text r (cs @ [c])) = c"
proof -
  have c: "c \<noteq> []" "\<forall>x \<in> set c. x \<noteq> CHR ''/''" using assms by (auto simp: plain_name_def)
  have t: "\<exists>pre. path_text r (cs @ [c]) = pre @ c \<and> (pre = [] \<or> last pre = CHR ''/'')"
    by (cases "cs = []") (auto simp: path_text_def join_slash_append)
  then obtain pre where p: "path_text r (cs @ [c]) = pre @ c" "pre = [] \<or> last pre = CHR ''/''" by blast
  obtain ds d where d: "c = ds @ [d]" using c(1) by (cases c rule: rev_cases) simp_all
  then have d': "d \<noteq> CHR ''/''" using c(2) by simp
  have "rev (dropWhile (\<lambda>c. c = CHR ''/'') (rev (pre @ c))) = pre @ c"
    using d' by (simp add: d)
  moreover have "takeWhile (\<lambda>c. c \<noteq> CHR ''/'') (rev c @ rev pre) = rev c"
    using c p(2) by (cases pre rule: rev_cases) (auto simp: takeWhile_append)
  ultimately show ?thesis using c by (simp add: base_path_def p(1) Let_def)
qed

lemma abs_path_abs [simp]: "is_abs s \<Longrightarrow> abs_path wd s = clean s"
  by (simp add: abs_path_def)

lemma join_path_clean: "join_path (e # es) = p \<Longrightarrow> e \<noteq> [] \<Longrightarrow> clean p = p"
  by auto

end
