(* ===== verification/Os.thy ===== *)
theory Os imports Paths GoError "HOL-Library.State_Monad" begin

text \<open>
  The operating system as the launcher sees it through the standard library: a file system with
  directories, files, symbolic links and sockets, a clock, the environment variables and the one
  child process of an instance; \<open>map_order\<close> is the order in which a \<^verbatim>\<open>range\<close> over a map visits its
  keys.  A call is a function on the state \<open>os\<close>; before it takes effect
  the environment performs the next step of its plan: time passes, other processes change the
  file system, the child exits, another goroutine asks for an escalation, or the call fails with
  any error; it also decides what the child writes to its standard error and how the handshake
  of a client ends.  An empty plan is an environment that does nothing.  \<open>trace\<close> records every call
  that changes something outside the program, also when it fails.

  Times and durations are nanoseconds, as unbounded integers.
\<close>

section \<open>State\<close>

datatype errno = ENOENT | EEXIST | ENOTDIR | EISDIR | ENOTEMPTY | ELOOP | EINVAL | ENXIO | ESRCH | Errno nat

datatype node = NDir nat | NFile nat string | NLink string | NSocket | NOther

type_synonym fs = "(string list \<times> node) list"

datatype signal = SIGTERM | SIGKILL

datatype os_act =
    ARemove string | ARemoveAll string | AMkdir string nat | AChmod string nat
  | ASymlink string string | AOpenTrunc string nat
  | AKill int signal | AStart string "string list" string "string list" | AKillChild int
  | AObserve string string

text \<open>
  The one-element channel of the child's \<^verbatim>\<open>Wait\<close> result: nothing yet, the result, or nothing
  any more because it was received.
\<close>

datatype wait_chan = NotStarted | Running | Exited "gerr option" | Reaped

record env_step =
  elapse :: nat
  others :: "fs \<Rightarrow> fs"
  fault :: "errno option"
  spare :: "string list list"
  pick :: nat
  exits :: "gerr option option"
  forces :: bool
  stderr_out :: "string option"
  handshake :: "gerr option"

definition quiet :: env_step where
  "quiet = \<lparr>elapse = 0, others = id, fault = None, spare = [], pick = 0, exits = None, forces = False,
     stderr_out = None, handshake = None\<rparr>"

record os =
  files :: fs
  cwd :: "string list"
  clock :: int
  plan :: "env_step list"
  environ :: "string list"
  executable :: "gerr + string"
  wait_done :: wait_chan
  force_kill :: bool
  map_order :: "string list \<Rightarrow> string list"
  trace :: "os_act list"

type_synonym 'a io = "(os, 'a) state"

abbreviation give :: "'a \<Rightarrow> 'a io" where
  "give \<equiv> State_Monad.return"

section \<open>The environment's step\<close>

definition settle :: "env_step \<Rightarrow> os \<Rightarrow> os" where
  "settle e s = s\<lparr>
     files := others e (files s),
     clock := clock s + int (elapse e),
     wait_done := (case exits e of
         Some r \<Rightarrow> if wait_done s = Running then Exited r else wait_done s
       | None \<Rightarrow> wait_done s),
     force_kill := (force_kill s \<or> forces e)\<rparr>"

definition tick :: "env_step io" where
  "tick = State (\<lambda>s. case plan s of
       [] \<Rightarrow> (quiet, s)
     | e # es \<Rightarrow> (e, settle e s\<lparr>plan := es\<rparr>))"

definition record_act :: "os_act \<Rightarrow> unit io" where
  "record_act a = State (\<lambda>s. ((), s\<lparr>trace := trace s @ [a]\<rparr>))"

text \<open>The error of the \<^verbatim>\<open>os\<close> package for a failed call; \<^verbatim>\<open>os.IsNotExist\<close> recognises it.\<close>

definition path_error :: "string \<Rightarrow> string \<Rightarrow> errno \<Rightarrow> gerr" where
  "path_error op path n =
     WrapE (op @ '' '' @ path) (case n of
         ENOENT \<Rightarrow> Sent Os_ErrNotExist
       | ESRCH \<Rightarrow> Sent Sys_ESRCH
       | EEXIST \<Rightarrow> Plain ''file exists''
       | _ \<Rightarrow> Plain ''errno'')"

definition is_exist :: "gerr \<Rightarrow> bool" where
  "is_exist e = (case e of WrapE _ x \<Rightarrow> x = Plain ''file exists'' | _ \<Rightarrow> False)"

definition is_not_exist :: "gerr \<Rightarrow> bool" where
  "is_not_exist e = err_is e Os_ErrNotExist"

definition syscall :: "string \<Rightarrow> string \<Rightarrow> (env_step \<Rightarrow> os \<Rightarrow> (errno + 'a) \<times> os) \<Rightarrow> (gerr + 'a) io" where
  "syscall op path f = do {
     e \<leftarrow> tick;
     State (\<lambda>s. case f e s of
         (Inl n, s') \<Rightarrow> (Inl (path_error op path n), s')
       | (Inr a, s') \<Rightarrow> (Inr a, s'))
   }"

text \<open>A call that does nothing when the environment lets it fail.\<close>

definition faulty :: "(os \<Rightarrow> (errno + 'a) \<times> os) \<Rightarrow> env_step \<Rightarrow> os \<Rightarrow> (errno + 'a) \<times> os" where
  "faulty f e s = (case fault e of Some n \<Rightarrow> (Inl n, s) | None \<Rightarrow> f s)"

section \<open>Paths in the file system\<close>

definition node_at :: "fs \<Rightarrow> string list \<Rightarrow> node option" where
  "node_at fs p =
     (case map_of fs p of Some n \<Rightarrow> Some n | None \<Rightarrow> if p = [] then Some (NDir 493) else None)"

definition is_dir :: "node \<Rightarrow> bool" where
  "is_dir n = (case n of NDir _ \<Rightarrow> True | _ \<Rightarrow> False)"

definition is_regular :: "node \<Rightarrow> bool" where
  "is_regular n = (case n of NFile _ _ \<Rightarrow> True | _ \<Rightarrow> False)"

definition is_symlink :: "node \<Rightarrow> bool" where
  "is_symlink n = (case n of NLink _ \<Rightarrow> True | _ \<Rightarrow> False)"

definition is_socket :: "node \<Rightarrow> bool" where
  "is_socket n = (n = NSocket)"

definition names_of :: "string \<Rightarrow> string list" where
  "names_of s = filter (\<lambda>c. c \<noteq> [] \<and> c \<noteq> ''.'') (split_slash s)"

text \<open>
  \<open>walk\<close> follows symbolic links, at most \<open>fuel\<close> of them; \<open>follow\<close> says whether a link
  at the end is followed too.  The last name need not exist.
\<close>

fun walk :: "nat \<Rightarrow> fs \<Rightarrow> bool \<Rightarrow> string list \<Rightarrow> string list \<Rightarrow> errno + string list" where
  "walk fuel fs follow cur [] = Inr cur"
| "walk fuel fs follow cur (c # cs) =
     (case node_at fs cur of
        None \<Rightarrow> Inl ENOENT
      | Some d \<Rightarrow>
          if \<not> is_dir d then Inl ENOTDIR
          else if c = ''..'' then walk fuel fs follow (butlast cur) cs
          else case node_at fs (cur @ [c]) of
            None \<Rightarrow> if cs = [] then Inr (cur @ [c]) else Inl ENOENT
          | Some (NLink t) \<Rightarrow>
              if cs = [] \<and> \<not> follow then Inr (cur @ [c])
              else (case fuel of
                0 \<Rightarrow> Inl ELOOP
              | Suc k \<Rightarrow> walk k fs follow (if is_abs t then [] else cur) (names_of t @ cs))
          | Some _ \<Rightarrow> walk fuel fs follow (cur @ [c]) cs)"

definition resolve :: "bool \<Rightarrow> string \<Rightarrow> os \<Rightarrow> errno + string list" where
  "resolve follow path s =
     (if path = [] then Inl ENOENT
      else walk 40 (files s) follow (if is_abs path then [] else cwd s) (names_of path))"

definition look :: "bool \<Rightarrow> string \<Rightarrow> os \<Rightarrow> errno + (string list \<times> node)" where
  "look follow path s =
     (case resolve follow path s of
        Inl n \<Rightarrow> Inl n
      | Inr p \<Rightarrow> (case node_at (files s) p of None \<Rightarrow> Inl ENOENT | Some n \<Rightarrow> Inr (p, n)))"

definition put_node :: "string list \<Rightarrow> node \<Rightarrow> os \<Rightarrow> os" where
  "put_node p n s = s\<lparr>files := (p, n) # filter (\<lambda>(q, _). q \<noteq> p) (files s)\<rparr>"

definition drop_nodes :: "(string list \<Rightarrow> bool) \<Rightarrow> os \<Rightarrow> os" where
  "drop_nodes P s = s\<lparr>files := filter (\<lambda>(q, _). \<not> P q) (files s)\<rparr>"

definition children :: "fs \<Rightarrow> string list \<Rightarrow> string list" where
  "children fs p = map (\<lambda>(q, _). last q) (filter (\<lambda>(q, _). q \<noteq> [] \<and> butlast q = p) fs)"

section \<open>Calls\<close>

definition lstat :: "string \<Rightarrow> (gerr + node) io" where
  "lstat path = syscall ''lstat'' path (faulty (\<lambda>s. (map_sum id snd (look False path s), s)))"

definition stat :: "string \<Rightarrow> (gerr + node) io" where
  "stat path = syscall ''stat'' path (faulty (\<lambda>s. (map_sum id snd (look True path s), s)))"

definition remove_path :: "string \<Rightarrow> (gerr + unit) io" where
  "remove_path path = do {
     record_act (ARemove path);
     syscall ''remove'' path (faulty (\<lambda>s. case look False path s of
         Inl n \<Rightarrow> (Inl n, s)
       | Inr (p, n) \<Rightarrow>
           if p = [] then (Inl EINVAL, s)
           else if is_dir n \<and> children (files s) p \<noteq> [] then (Inl ENOTEMPTY, s)
           else (Inr (), drop_nodes (\<lambda>q. q = p) s)))
   }"

text \<open>A failing \<^verbatim>\<open>RemoveAll\<close> may have removed any part of the tree.\<close>

definition remove_all :: "string \<Rightarrow> (gerr + unit) io" where
  "remove_all path = do {
     record_act (ARemoveAll path);
     syscall ''removeall'' path (\<lambda>e s. case look False path s of
         Inl n \<Rightarrow> (case fault e of
             None \<Rightarrow> if n = ENOENT then (Inr (), s) else (Inl n, s)
           | Some m \<Rightarrow> (Inl m, s))
       | Inr (p, _) \<Rightarrow> (case fault e of
             None \<Rightarrow> if p = [] then (Inl EINVAL, s) else (Inr (), drop_nodes (prefix p) s)
           | Some m \<Rightarrow> (Inl m, if p = [] then s else drop_nodes (\<lambda>q. prefix p q \<and> q \<notin> set (spare e)) s)))
   }"

definition make_dir :: "string \<Rightarrow> nat \<Rightarrow> (gerr + unit) io" where
  "make_dir path mode = do {
     record_act (AMkdir path mode);
     syscall ''mkdir'' path (faulty (\<lambda>s. case resolve False path s of
         Inl n \<Rightarrow> (Inl n, s)
       | Inr p \<Rightarrow> if node_at (files s) p = None then (Inr (), put_node p (NDir mode) s) else (Inl EEXIST, s)))
   }"

definition change_mode :: "string \<Rightarrow> nat \<Rightarrow> (gerr + unit) io" where
  "change_mode path mode = do {
     record_act (AChmod path mode);
     syscall ''chmod'' path (faulty (\<lambda>s. case look True path s of
         Inl n \<Rightarrow> (Inl n, s)
       | Inr (p, NDir _) \<Rightarrow> (Inr (), put_node p (NDir mode) s)
       | Inr (p, NFile _ c) \<Rightarrow> (Inr (), put_node p (NFile mode c) s)
       | Inr _ \<Rightarrow> (Inr (), s)))
   }"

definition make_symlink :: "string \<Rightarrow> string \<Rightarrow> (gerr + unit) io" where
  "make_symlink target path = do {
     record_act (ASymlink target path);
     syscall ''symlink'' path (faulty (\<lambda>s. case resolve False path s of
         Inl n \<Rightarrow> (Inl n, s)
       | Inr p \<Rightarrow> if node_at (files s) p = None then (Inr (), put_node p (NLink target) s) else (Inl EEXIST, s)))
   }"

definition read_file :: "string \<Rightarrow> (gerr + string) io" where
  "read_file path = syscall ''open'' path (faulty (\<lambda>s. (case look True path s of
         Inl n \<Rightarrow> Inl n
       | Inr (_, NFile _ c) \<Rightarrow> Inr c
       | Inr (_, NDir _) \<Rightarrow> Inl EISDIR
       | Inr _ \<Rightarrow> Inl ENXIO, s)))"

text \<open>
  An open file is the place it was found at: \<^verbatim>\<open>Open\<close> for reading, \<^verbatim>\<open>OpenFile\<close> with
  \<^verbatim>\<open>O_CREATE|O_TRUNC|O_WRONLY\<close>, whose mode counts for a new file only.
\<close>

definition open_read :: "string \<Rightarrow> (gerr + string list) io" where
  "open_read path = syscall ''open'' path (faulty (\<lambda>s. (map_sum id fst (look True path s), s)))"

definition open_trunc :: "string \<Rightarrow> nat \<Rightarrow> (gerr + string list) io" where
  "open_trunc path mode = do {
     record_act (AOpenTrunc path mode);
     syscall ''open'' path (faulty (\<lambda>s. case resolve True path s of
         Inl n \<Rightarrow> (Inl n, s)
       | Inr p \<Rightarrow> (case node_at (files s) p of
             None \<Rightarrow> (Inr p, put_node p (NFile mode []) s)
           | Some (NFile m _) \<Rightarrow> (Inr p, put_node p (NFile m []) s)
           | Some (NDir _) \<Rightarrow> (Inl EISDIR, s)
           | Some (NLink _) \<Rightarrow> (Inl ELOOP, s)
           | Some _ \<Rightarrow> (Inl ENXIO, s))))
   }"

text \<open>\<^verbatim>\<open>io.Copy\<close> between open files; a failing copy writes a first part.\<close>

definition copy_open :: "string list \<Rightarrow> string list \<Rightarrow> (gerr + unit) io" where
  "copy_open from to = syscall ''copy'' [] (\<lambda>e s.
     case node_at (files s) from of
       Some (NFile _ c) \<Rightarrow>
         let (r, d) = (case fault e of None \<Rightarrow> (Inr (), c) | Some n \<Rightarrow> (Inl n, take (pick e) c)) in
         (case node_at (files s) to of
            Some (NFile m _) \<Rightarrow> (r, put_node to (NFile m d) s)
          | _ \<Rightarrow> (r, s))
     | _ \<Rightarrow> (Inl (case fault e of None \<Rightarrow> EISDIR | Some n \<Rightarrow> n), s))"

definition close_file :: "(gerr + unit) io" where
  "close_file = syscall ''close'' [] (faulty (\<lambda>s. (Inr (), s)))"

definition read_dir :: "string \<Rightarrow> (gerr + string list) io" where
  "read_dir path = syscall ''open'' path (faulty (\<lambda>s. (case look True path s of
         Inl n \<Rightarrow> Inl n
       | Inr (p, n) \<Rightarrow> if is_dir n then Inr (children (files s) p) else Inl ENOTDIR, s)))"

definition parent_part :: "string \<Rightarrow> string" where
  "parent_part s = rev (dropWhile (\<lambda>c. c \<noteq> CHR ''/'') (dropWhile (\<lambda>c. c = CHR ''/'') (rev s)))"

lemma dropWhile_shorter: "xs \<noteq> [] \<Longrightarrow> P (hd xs) \<Longrightarrow> length (dropWhile P xs) < length xs"
  by (cases xs) (simp_all add: length_dropWhile_le less_Suc_eq_le)

lemma parent_part_shorter: "parent_part s \<noteq> [] \<Longrightarrow> length (parent_part s) < length s"
proof -
  let ?t = "dropWhile (\<lambda>c. c = CHR ''/'') (rev s)"
  assume "parent_part s \<noteq> []"
  moreover have "parent_part s = []" if "?t = []"
    unfolding parent_part_def that by simp
  ultimately have ne: "?t \<noteq> []" by blast
  then have "hd ?t \<noteq> CHR ''/''" by (rule hd_dropWhile)
  with ne have "length (dropWhile (\<lambda>c. c \<noteq> CHR ''/'') ?t) < length ?t"
    by (rule dropWhile_shorter)
  moreover have "length ?t \<le> length s" using length_dropWhile_le [of _ "rev s"] by simp
  ultimately show ?thesis by (simp add: parent_part_def)
qed

function mkdir_all :: "nat \<Rightarrow> string \<Rightarrow> gerr option io" where
  "mkdir_all mode path = do {
     i \<leftarrow> stat path;
     case i of
       Inr n \<Rightarrow> give (if is_dir n then None else Some (path_error ''mkdir'' path ENOTDIR))
     | Inl _ \<Rightarrow> do {
         r \<leftarrow> (if parent_part path = [] then give None else mkdir_all mode (parent_part path));
         case r of
           Some e \<Rightarrow> give (Some e)
         | None \<Rightarrow> do {
             m \<leftarrow> make_dir path mode;
             case m of
               Inr _ \<Rightarrow> give None
             | Inl e \<Rightarrow> do {
                 j \<leftarrow> lstat path;
                 give (case j of
                     Inr n \<Rightarrow> if is_dir n then None else Some e
                   | Inl _ \<Rightarrow> Some e)
               }
           }
       }
   }"
  by pat_completeness auto
termination
  by (relation "measure (\<lambda>(_, p). length p)") (auto simp: parent_part_shorter)

declare mkdir_all.simps [simp del]

section \<open>Time and environment variables\<close>

definition now :: "int io" where
  "now = do { _ \<leftarrow> tick; s \<leftarrow> State_Monad.get; give (clock s) }"

definition sleep :: "int \<Rightarrow> unit io" where
  "sleep d = do { _ \<leftarrow> tick; State (\<lambda>s. ((), s\<lparr>clock := clock s + max 0 d\<rparr>)) }"

text \<open>\<^verbatim>\<open>strings.Cut\<close> at the first equals sign.\<close>

definition cut_eq :: "string \<Rightarrow> (string \<times> string) option" where
  "cut_eq s = (if CHR ''='' \<in> set s
     then Some (takeWhile (\<lambda>c. c \<noteq> CHR ''='') s, tl (dropWhile (\<lambda>c. c \<noteq> CHR ''='') s)) else None)"

definition getenv :: "string \<Rightarrow> os \<Rightarrow> string" where
  "getenv k s = (case map_of (List.map_filter cut_eq (environ s)) k of Some v \<Rightarrow> v | None \<Rightarrow> [])"

definition user_home_dir :: "os \<Rightarrow> gerr + string" where
  "user_home_dir s = (let h = getenv ''HOME'' s in if h = [] then Inl (Plain ''$HOME is not defined'') else Inr h)"

definition temp_dir :: "os \<Rightarrow> string" where
  "temp_dir s = (let d = getenv ''TMPDIR'' s in if d = [] then ''/tmp'' else d)"

end
