(* ===== verification/OsLaws.thy ===== *)
theory OsLaws imports Os begin

text \<open>
  Laws of the system calls.  A relation between the state before and after a program that every
  call keeps is kept by every program built from the calls; the locale \<open>os_relation\<close> proves this
  once.  It is used at two relations: time does not run backwards, and every call the program
  makes that changes the outside world satisfies a policy.
\<close>

section \<open>Relations that programs keep\<close>

locale io_relation =
  fixes R :: "os \<Rightarrow> os \<Rightarrow> bool"
  assumes R_refl: "R s s"
    and R_trans: "R s t \<Longrightarrow> R t u \<Longrightarrow> R s u"
begin

lemma return_rel: "state_io_rel R (give x)"
  by (simp add: state_io_rel_def R_refl)

lemma get_rel: "state_io_rel R State_Monad.get"
  by (simp add: state_io_rel_def R_refl)

lemma bind_rel:
  assumes "state_io_rel R m" "\<And>x. state_io_rel R (f x)" shows "state_io_rel R (m \<bind> f)"
  using assms by (auto simp: state_io_rel_def split: prod.split) (metis R_trans snd_conv)

lemma if_rel: "(b \<Longrightarrow> state_io_rel R m) \<Longrightarrow> (\<not> b \<Longrightarrow> state_io_rel R n) \<Longrightarrow> state_io_rel R (if b then m else n)"
  by simp

lemma sum_rel: "(\<And>a. x = Inl a \<Longrightarrow> state_io_rel R (f a)) \<Longrightarrow> (\<And>b. x = Inr b \<Longrightarrow> state_io_rel R (g b)) \<Longrightarrow>
    state_io_rel R (case x of Inl a \<Rightarrow> f a | Inr b \<Rightarrow> g b)"
  by (cases x) simp_all

lemma option_rel: "(x = None \<Longrightarrow> state_io_rel R m) \<Longrightarrow> (\<And>b. x = Some b \<Longrightarrow> state_io_rel R (g b)) \<Longrightarrow>
    state_io_rel R (case x of None \<Rightarrow> m | Some b \<Rightarrow> g b)"
  by (cases x) simp_all

lemma let_rel: "state_io_rel R (f x) \<Longrightarrow> state_io_rel R (Let x f)"
  by simp

lemma prod_rel: "(\<And>a b. x = (a, b) \<Longrightarrow> state_io_rel R (f a b)) \<Longrightarrow> state_io_rel R (case x of (a, b) \<Rightarrow> f a b)"
  by (cases x) simp

lemmas control_rel = return_rel get_rel bind_rel if_rel sum_rel option_rel let_rel prod_rel

end

locale os_relation = io_relation R for R +
  fixes Q :: "os_act \<Rightarrow> bool"
  assumes tick_rel: "state_io_rel R tick"
    and files_rel: "R s (s\<lparr>files := fs\<rparr>)"
    and clock_rel: "0 \<le> d \<Longrightarrow> R s (s\<lparr>clock := clock s + d\<rparr>)"
    and log_rel: "Q a \<Longrightarrow> R s (s\<lparr>trace := trace s @ [a]\<rparr>)"
begin

lemma put_rel: "R s (put_node p n s)" "R s (drop_nodes P s)"
  by (simp_all add: put_node_def drop_nodes_def files_rel)

lemma sys_rel: "(\<And>e s. R s (snd (f e s))) \<Longrightarrow> state_io_rel R (syscall op path f)"
  unfolding syscall_def
  by (rule bind_rel [OF tick_rel]) (auto simp: state_io_rel_def split: prod.split sum.split; metis snd_conv)

lemma faulty_rel: "(\<And>s. R s (snd (f s))) \<Longrightarrow> R s (snd (faulty f e s))"
  by (simp add: faulty_def R_refl split: option.split)

lemma record_rel: "Q a \<Longrightarrow> state_io_rel R (record_act a)"
  by (simp add: record_act_def state_io_rel_def log_rel)

lemma read_rel:
  "state_io_rel R (lstat path)" "state_io_rel R (stat path)" "state_io_rel R (read_file path)"
  "state_io_rel R (open_read path)" "state_io_rel R (read_dir path)" "state_io_rel R close_file"
  unfolding lstat_def stat_def read_file_def open_read_def read_dir_def close_file_def
  by (intro sys_rel faulty_rel; simp add: R_refl)+

lemma copy_rel: "state_io_rel R (copy_open p q)"
  unfolding copy_open_def
  by (rule sys_rel) (simp add: R_refl put_rel Let_def split: option.split node.split)

lemma write_rel:
  "Q (ARemove path) \<Longrightarrow> state_io_rel R (remove_path path)"
  "Q (AMkdir path mode) \<Longrightarrow> state_io_rel R (make_dir path mode)"
  "Q (AChmod path mode) \<Longrightarrow> state_io_rel R (change_mode path mode)"
  "Q (ASymlink target path) \<Longrightarrow> state_io_rel R (make_symlink target path)"
  "Q (AOpenTrunc path mode) \<Longrightarrow> state_io_rel R (open_trunc path mode)"
  unfolding remove_path_def make_dir_def change_mode_def make_symlink_def open_trunc_def
  by (rule bind_rel, erule record_rel, rule sys_rel, rule faulty_rel,
      simp add: R_refl put_rel split: option.split node.split sum.split prod.split)+

lemma remove_all_rel: "Q (ARemoveAll path) \<Longrightarrow> state_io_rel R (remove_all path)"
  unfolding remove_all_def
  by (rule bind_rel, erule record_rel, rule sys_rel)
    (simp add: R_refl put_rel split: option.split sum.split prod.split)

lemma now_rel: "state_io_rel R now"
  unfolding now_def by (intro control_rel tick_rel)

lemma sleep_rel: "state_io_rel R (sleep d)"
  unfolding sleep_def by (intro control_rel tick_rel) (simp add: state_io_rel_def clock_rel)

lemma mkdir_all_rel: "(\<And>q. prefix q path \<Longrightarrow> Q (AMkdir q mode)) \<Longrightarrow> state_io_rel R (mkdir_all mode path)"
proof (induction mode path rule: mkdir_all.induct)
  case (1 mode path)
  have "prefix (parent_part path) path"
  proof -
    have "suffix (rev (parent_part path)) (rev path)"
      by (simp add: parent_part_def) (meson suffix_dropWhile suffix_order.trans)
    then show ?thesis by (simp add: suffix_to_prefix)
  qed
  then have "\<And>q. prefix q (parent_part path) \<Longrightarrow> Q (AMkdir q mode)" using 1(2) by (meson prefix_order.trans)
  then have "parent_part path \<noteq> [] \<Longrightarrow> state_io_rel R (mkdir_all mode (parent_part path))"
    using 1(1) by blast
  then show ?case using 1(2) [of path]
    by (subst mkdir_all.simps) (intro control_rel read_rel write_rel; simp)
qed

lemmas call_rel = control_rel read_rel copy_rel write_rel remove_all_rel now_rel sleep_rel mkdir_all_rel

end

section \<open>Time and policies\<close>

definition later :: "os \<Rightarrow> os \<Rightarrow> bool" where
  "later s t \<longleftrightarrow> clock s \<le> clock t"

definition acts :: "(os_act \<Rightarrow> bool) \<Rightarrow> os \<Rightarrow> os \<Rightarrow> bool" where
  "acts P s t \<longleftrightarrow> (\<exists>l. trace t = trace s @ l \<and> list_all P l)"

interpretation clk: os_relation later "\<lambda>_. True"
  by unfold_locales
    (auto simp: later_def state_io_rel_def tick_def settle_def split: list.split)

interpretation acts: os_relation "acts P" P for P
proof
  show "acts P s t \<Longrightarrow> acts P t u \<Longrightarrow> acts P s u" for s t u
    by (auto simp: acts_def)
qed (auto simp: acts_def state_io_rel_def tick_def settle_def split: list.split)

text \<open>An environment whose plan is empty stays quiet.\<close>

definition idle :: "os \<Rightarrow> os \<Rightarrow> bool" where
  "idle s t \<longleftrightarrow> (plan s = [] \<longrightarrow> plan t = [])"

interpretation idle: os_relation idle "\<lambda>_. True"
  by unfold_locales (auto simp: idle_def state_io_rel_def tick_def split: list.split)

lemma idle_run: "state_io_rel idle m \<Longrightarrow> plan s = [] \<Longrightarrow> run_state m s = (r, t) \<Longrightarrow> plan t = []"
  by (auto simp: idle_def dest: state_io_relD)

lemmas later_rules = TrueI clk.call_rel
lemmas acts_rules = acts.call_rel

lemma acts_mono: "acts P s t \<Longrightarrow> (\<And>a. P a \<Longrightarrow> Q a) \<Longrightarrow> acts Q s t"
  by (auto simp: acts_def list_all_iff)

lemma laterD: "state_io_rel later m \<Longrightarrow> run_state m s = (r, t) \<Longrightarrow> clock s \<le> clock t"
  by (auto simp: later_def)

section \<open>A retry loop with a deadline\<close>

text \<open>
  The shape of both removal loops: an attempt ends the loop or leaves an error; after the
  deadline the error is the result, before it the loop pauses for at most 50 milliseconds.
\<close>

definition pause :: "int \<Rightarrow> unit io" where
  "pause deadline = do {
     t \<leftarrow> now;
     (let delay = min 50000000 (deadline - t) in if 0 < delay then sleep delay else give ())
   }"

lemma run_now: "run_state now s = (t, s1) \<Longrightarrow> t = clock s1 \<and> clock s \<le> clock s1"
  using laterD [OF clk.now_rel, of s t s1] by (auto simp: now_def split: prod.splits)

lemma run_sleep: "run_state (sleep d) s = (r, t) \<Longrightarrow> clock s + max 0 d \<le> clock t"
  by (auto simp: sleep_def tick_def settle_def split: list.splits)

lemma run_pause:
  assumes "run_state (pause deadline) s = (r, t)"
  shows "clock s + 50000000 \<le> clock t \<or> deadline \<le> clock t"
proof -
  obtain u s1 where n: "run_state now s = (u, s1)" by fastforce
  note n' = run_now [OF n]
  show ?thesis
  proof (cases "0 < min 50000000 (deadline - u)")
    case True
    with assms n have "run_state (sleep (min 50000000 (deadline - u))) s1 = (r, t)"
      by (simp add: pause_def Let_def)
    from run_sleep [OF this] n' True show ?thesis by linarith
  next
    case False
    with assms n n' show ?thesis by (auto simp: pause_def Let_def)
  qed
qed

lemma pause_advances:
  "clock s + 50000000 \<le> clock (snd (run_state (pause deadline) s)) \<or>
   deadline \<le> clock (snd (run_state (pause deadline) s))"
  using run_pause by (metis prod.collapse)

context os_relation
begin

lemma pause_rel: "state_io_rel R (pause deadline)"
  unfolding pause_def by (intro call_rel)

end

lemma pause_count:
  fixes a b :: int
  assumes "b + 50000000 \<le> a \<or> b \<le> 0" and "0 < a"
  shows "max 0 ((b + 49999999) div 50000000) + 1 \<le> max 0 ((a + 49999999) div 50000000)"
proof -
  have a: "1 \<le> (a + 49999999) div 50000000"
    using zdiv_mono1 [of 50000000 "a + 49999999" 50000000] assms(2) by simp
  from assms(1) show ?thesis
  proof
    assume "b + 50000000 \<le> a"
    then have "(b + 49999999 + 50000000) div 50000000 \<le> (a + 49999999) div 50000000"
      by (intro zdiv_mono1) simp_all
    with a show ?thesis by simp
  next
    assume "b \<le> 0"
    then have "(b + 49999999) div 50000000 \<le> 49999999 div 50000000"
      by (intro zdiv_mono1) simp_all
    with a show ?thesis by simp
  qed
qed

locale deadline_loop =
  fixes attempt :: "(gerr option + gerr) io"
    and loop :: "int \<Rightarrow> os \<Rightarrow> gerr option \<times> os"
  assumes loop_eq: "loop deadline s =
      (case run_state attempt s of
         (Inl r, s1) \<Rightarrow> (r, s1)
       | (Inr e, s1) \<Rightarrow>
           (case run_state now s1 of (t, s2) \<Rightarrow>
             if t < deadline then loop deadline (snd (run_state (pause deadline) s2)) else (Some e, s2)))"
    and attempt_later: "state_io_rel later attempt"
begin

lemma loop_step:
  assumes "run_state attempt s = (Inr e, s1)" "run_state now s1 = (t, s2)" "t < deadline"
  shows "clock s + 50000000 \<le> clock (snd (run_state (pause deadline) s2)) \<or>
         deadline \<le> clock (snd (run_state (pause deadline) s2))"
    and "clock s < deadline"
  using laterD [OF attempt_later assms(1)] run_now [OF assms(2)] assms(3)
    pause_advances [of s2 deadline]
  by auto

lemma loop_induct [case_names loop]:
  assumes "\<And>s. (\<And>e s1 t s2. run_state attempt s = (Inr e, s1) \<Longrightarrow> run_state now s1 = (t, s2) \<Longrightarrow>
      t < deadline \<Longrightarrow> P (snd (run_state (pause deadline) s2))) \<Longrightarrow> P s"
  shows "P s"
proof (induction "nat (deadline - clock s)" arbitrary: s rule: less_induct)
  case less
  show ?case
    by (rule assms, rule less, use loop_step in fastforce)
qed

text \<open>What the loop returns is what an attempt decided, or the last error after the deadline.\<close>

lemma loop_result:
  "(\<exists>a b. run_state attempt a = (Inl (fst (loop deadline s)), b) \<and> snd (loop deadline s) = b) \<or>
   (\<exists>a b e. run_state attempt a = (Inr e, b) \<and> fst (loop deadline s) = Some e \<and>
       deadline \<le> clock (snd (loop deadline s)))"
proof (induction s rule: loop_induct [of deadline])
  case (loop s)
  obtain x s1 where a: "run_state attempt s = (x, s1)" by fastforce
  show ?case
  proof (cases x)
    case (Inl r)
    with a show ?thesis by (subst (1 2) loop_eq) auto
  next
    case (Inr e)
    obtain t s2 where n: "run_state now s1 = (t, s2)" by fastforce
    show ?thesis
    proof (cases "t < deadline")
      case True
      with a Inr n have "loop deadline s = loop deadline (snd (run_state (pause deadline) s2))"
        by (subst loop_eq) simp
      with loop [OF a [unfolded Inr] n True] show ?thesis by simp
    next
      case False
      with a Inr n have "loop deadline s = (Some e, s2)" by (subst loop_eq) simp
      with a Inr False run_now [OF n] show ?thesis by auto
    qed
  qed
qed

lemma loop_rel:
  assumes "io_relation R" "state_io_rel R attempt" "state_io_rel R now" "state_io_rel R (pause deadline)"
  shows "R s (snd (loop deadline s))"
proof (induction s rule: loop_induct [of deadline])
  case (loop s)
  note trans = io_relation.R_trans [OF assms(1)]
  obtain x s1 where a: "run_state attempt s = (x, s1)" by fastforce
  then have r1: "R s s1" using assms(2) by (auto dest: state_io_relD)
  show ?case
  proof (cases x)
    case (Inl r)
    with a r1 show ?thesis by (subst loop_eq) simp
  next
    case (Inr e)
    obtain t s2 where n: "run_state now s1 = (t, s2)" by fastforce
    then have r2: "R s s2" using assms(3) r1 by (meson state_io_relD trans)
    have r3: "R s (snd (run_state (pause deadline) s2))"
      using assms(4) r2 by (metis state_io_rel_def trans)
    show ?thesis
    proof (cases "t < deadline")
      case True
      with a Inr n have "loop deadline s = loop deadline (snd (run_state (pause deadline) s2))"
        by (subst loop_eq) simp
      with loop [OF a [unfolded Inr] n True] r3 show ?thesis by (metis trans)
    next
      case False
      with a Inr n r2 show ?thesis by (subst loop_eq) simp
    qed
  qed
qed

text \<open>
  Each attempt but the last is followed by a pause, so the number of attempts, counted by any
  measure \<open>f\<close> that only attempts increase, is bounded by the time that was left.
\<close>

lemma loop_bound:
  fixes f :: "os \<Rightarrow> int"
  assumes att: "\<And>s. f (snd (run_state attempt s)) \<le> f s + 1"
    and now: "\<And>s. f (snd (run_state now s)) = f s"
    and pse: "\<And>s. f (snd (run_state (pause deadline) s)) = f s"
  shows "f (snd (loop deadline s)) \<le> f s + 1 + max 0 ((deadline - clock s + 49999999) div 50000000)"
proof (induction s rule: loop_induct [of deadline])
  case (loop s)
  obtain x s1 where a: "run_state attempt s = (x, s1)" by fastforce
  have f1: "f s1 \<le> f s + 1" using att [of s] a by simp
  show ?case
  proof (cases x)
    case (Inl r)
    with a f1 show ?thesis by (subst loop_eq) simp
  next
    case (Inr e)
    obtain t s2 where n: "run_state now s1 = (t, s2)" by fastforce
    then have f2: "f s2 \<le> f s + 1" using now [of s1] f1 by simp
    let ?p = "snd (run_state (pause deadline) s2)"
    show ?thesis
    proof (cases "t < deadline")
      case True
      with a Inr n have eq: "loop deadline s = loop deadline ?p" by (subst loop_eq) simp
      have "f (snd (loop deadline s)) \<le> f s + 2 + max 0 ((deadline - clock ?p + 49999999) div 50000000)"
        using loop [OF a [unfolded Inr] n True] f2 pse [of s2] unfolding eq by linarith
      moreover have "max 0 ((deadline - clock ?p + 49999999) div 50000000) + 1 \<le>
          max 0 ((deadline - clock s + 49999999) div (50000000::int))"
        using loop_step [OF a [unfolded Inr] n True] by (intro pause_count) linarith+
      ultimately show ?thesis by linarith
    next
      case False
      with a Inr n f2 show ?thesis by (subst loop_eq) simp
    qed
  qed
qed

end

end
