(* ===== verification/LaunchFiles.thy ===== *)
theory LaunchFiles imports OsLaws Protocol begin

text \<open>
  What the launcher does in the file system (\<^verbatim>\<open>launch.go\<close>): it prepares private directories,
  shares the user's credentials with an instance, finds the instance's daemon and removes the
  files the instance owns.
\<close>

section \<open>Durations\<close>

definition seconds :: int where "seconds = 1000000000"
definition default_shutdown_grace_period :: int where "default_shutdown_grace_period = 5 * seconds"
definition default_shutdown_reap_timeout :: int where "default_shutdown_reap_timeout = 5 * seconds"
definition default_cleanup_timeout :: int where "default_cleanup_timeout = 30 * seconds"

definition finite_duration :: "int \<Rightarrow> int \<Rightarrow> int" where
  "finite_duration value fallback = (if value \<le> 0 then fallback else value)"

definition remaining_cleanup_duration :: "int \<Rightarrow> int io" where
  "remaining_cleanup_duration deadline = do {
     t \<leftarrow> now;
     give (if deadline - t \<le> 0 then 1 else deadline - t)
   }"

section \<open>Private directories\<close>

definition ensure_private_directory :: "string \<Rightarrow> gerr option io" where
  "ensure_private_directory path = do {
     r \<leftarrow> mkdir_all 448 path;
     case r of
       Some e \<Rightarrow> give (Some e)
     | None \<Rightarrow> do {
         i \<leftarrow> lstat path;
         case i of
           Inl e \<Rightarrow> give (Some e)
         | Inr n \<Rightarrow>
             if is_symlink n \<or> \<not> is_dir n
             then give (Some (Plain (''instance home must be a real directory: '' @ path)))
             else do {
               c \<leftarrow> change_mode path 448;
               give (case c of Inl e \<Rightarrow> Some e | Inr _ \<Rightarrow> None)
             }
       }
   }"

section \<open>Credentials\<close>

definition instance_home_prefix :: string where
  "instance_home_prefix = ''jcode-sdk-instance-''"

definition allow_legacy_codex_auth_env :: string where
  "allow_legacy_codex_auth_env = ''JCODE_ALLOW_CODEX_LEGACY_AUTH''"

definition legacy_codex_auth_source :: string where
  "legacy_codex_auth_source = ''.codex/auth.json''"

definition legacy_codex_auth_destination :: string where
  "legacy_codex_auth_destination = ''external/.codex/auth.json''"

definition credential_files :: "string list" where
  "credential_files =
     [''auth.json'', ''openai-auth.json'', ''antigravity_oauth.json'', ''gemini_oauth.json'',
      ''google_oauth.json'', ''google_credentials.json'', ''config.toml'']"

definition copy_owner_only :: "string \<Rightarrow> string \<Rightarrow> gerr option io" where
  "copy_owner_only from to = do {
     i \<leftarrow> open_read from;
     case i of
       Inl e \<Rightarrow> give (Some e)
     | Inr inp \<Rightarrow> do {
         u \<leftarrow> open_trunc to 384;
         case u of
           Inl e \<Rightarrow> give (Some e)
         | Inr out \<Rightarrow> do {
             c \<leftarrow> copy_open inp out;
             d \<leftarrow> close_file;
             give (case c of Inl e \<Rightarrow> Some e | Inr _ \<Rightarrow> (case d of Inl e \<Rightarrow> Some e | Inr _ \<Rightarrow> None))
           }
       }
   }"

definition inherit_legacy_codex_auth :: "string \<Rightarrow> string \<Rightarrow> (gerr + bool) io" where
  "inherit_legacy_codex_auth from_home to_home =
     (let source = join_path [dir_path from_home, legacy_codex_auth_source] in do {
        i \<leftarrow> lstat source;
        case i of
          Inl e \<Rightarrow>
            if err_is e Os_ErrNotExist then give (Inr False)
            else give (Inl (WrapE ''inspecting legacy Codex auth'' e))
        | Inr n \<Rightarrow>
            if \<not> is_regular n
            then give (Inl (Plain (''legacy Codex auth must be a regular file: '' @ source)))
            else (let destination = join_path [to_home, legacy_codex_auth_destination] in do {
              p \<leftarrow> ensure_private_directory (dir_path destination);
              case p of
                Some e \<Rightarrow> give (Inl (WrapE ''creating private legacy Codex auth directory'' e))
              | None \<Rightarrow> do {
                  c \<leftarrow> copy_owner_only source destination;
                  give (case c of
                      Some e \<Rightarrow> Inl (WrapE ''copying legacy Codex auth'' e)
                    | None \<Rightarrow> Inr True)
                }
            })
      })"

fun inherit_files :: "string \<Rightarrow> string \<Rightarrow> string list \<Rightarrow> string list \<Rightarrow> (gerr + string list) io" where
  "inherit_files from_home to_home inherited [] = give (Inr inherited)"
| "inherit_files from_home to_home inherited (name # names) = do {
     i \<leftarrow> stat (join_path [from_home, name]);
     case i of
       Inl _ \<Rightarrow> inherit_files from_home to_home inherited names
     | Inr n \<Rightarrow>
         if \<not> is_regular n then inherit_files from_home to_home inherited names
         else do {
           _ \<leftarrow> remove_path (join_path [to_home, name]);
           r \<leftarrow> (if name = ''config.toml''
                 then copy_owner_only (join_path [from_home, name]) (join_path [to_home, name])
                 else do {
                   l \<leftarrow> make_symlink (join_path [from_home, name]) (join_path [to_home, name]);
                   give (case l of Inl e \<Rightarrow> Some e | Inr _ \<Rightarrow> None)
                 });
           case r of
             Some e \<Rightarrow> give (Inl e)
           | None \<Rightarrow> inherit_files from_home to_home (inherited @ [name]) names
         }
   }"

definition inherit_credentials :: "string \<Rightarrow> string \<Rightarrow> (gerr + string list) io" where
  "inherit_credentials from_home to_home =
     (if clean from_home = clean to_home
      then give (Inl (Plain ''instance home must differ from user's jcode home''))
      else do {
        p \<leftarrow> ensure_private_directory to_home;
        case p of
          Some e \<Rightarrow> give (Inl e)
        | None \<Rightarrow> do {
            s \<leftarrow> State_Monad.get;
            r \<leftarrow> inherit_files from_home to_home [] (map_order s credential_files);
            case r of
              Inl e \<Rightarrow> give (Inl e)
            | Inr inherited \<Rightarrow> do {
                l \<leftarrow> inherit_legacy_codex_auth from_home to_home;
                give (case l of
                    Inl e \<Rightarrow> Inl e
                  | Inr b \<Rightarrow> Inr (if b then inherited @ [legacy_codex_auth_destination] else inherited))
              }
          }
      })"

definition user_jcode_home :: "os \<Rightarrow> string" where
  "user_jcode_home s =
     (if getenv ''JCODE_HOME'' s \<noteq> [] then getenv ''JCODE_HOME'' s
      else case user_home_dir s of
        Inl _ \<Rightarrow> ''.jcode''
      | Inr home \<Rightarrow> join_path [home, ''.jcode''])"

section \<open>The daemon's registry\<close>

definition registry_entry_fields :: "(string \<times> gotype) list" where
  "registry_entry_fields = [(''socket'', TStr), (''pid'', TInt 64)]"

definition decode_entry :: "json \<Rightarrow> (string \<times> int) option" where
  "decode_entry j =
     (case decode_go (TStruct registry_entry_fields) (zero_go (TStruct registry_entry_fields)) j of
        None \<Rightarrow> None
      | Some v \<Rightarrow> (case fields_of v of [a, b] \<Rightarrow> Some (go_str a, go_int b) | _ \<Rightarrow> None))"

definition decode_registry :: "string \<Rightarrow> (string \<times> string \<times> int) list option" where
  "decode_registry bytes =
     (case json_unmarshal bytes of
        Some JNull \<Rightarrow> Some []
      | Some (JObj ms) \<Rightarrow>
          if list_all (\<lambda>(_, j). decode_entry j \<noteq> None) ms
          then Some (map (\<lambda>(k, j). (k, the (decode_entry j))) (jmap_of ms))
          else None
      | _ \<Rightarrow> None)"

definition registry_pid :: "(string list \<Rightarrow> string list) \<Rightarrow> string \<Rightarrow> (string \<times> string \<times> int) list \<Rightarrow> int" where
  "registry_pid order wanted entries =
     (case List.find (\<lambda>k. case map_of entries k of
             Some (socket, pid) \<Rightarrow> clean socket = wanted \<and> 1 < pid
           | None \<Rightarrow> False) (order (map fst entries)) of
        Some k \<Rightarrow> snd (the (map_of entries k))
      | None \<Rightarrow> 0)"

fun real_directories :: "string list \<Rightarrow> bool io" where
  "real_directories [] = give True"
| "real_directories (d # ds) = do {
     i \<leftarrow> lstat d;
     case i of
       Inl _ \<Rightarrow> give False
     | Inr n \<Rightarrow> if is_symlink n \<or> \<not> is_dir n then give False else real_directories ds
   }"

definition read_daemon_pid :: "string \<Rightarrow> string \<Rightarrow> int io" where
  "read_daemon_pid home0 runtime0 =
     (if home0 = [] \<or> runtime0 = [] then give 0
      else let home = clean home0; runtime = clean runtime0 in
        if runtime \<noteq> join_path [home, ''run''] then give 0
        else do {
          ok \<leftarrow> real_directories [home, runtime];
          if \<not> ok then give 0
          else do {
            i \<leftarrow> lstat (join_path [home, ''servers.json'']);
            case i of
              Inl _ \<Rightarrow> give 0
            | Inr n \<Rightarrow>
                if is_symlink n \<or> \<not> is_regular n then give 0
                else do {
                  d \<leftarrow> read_file (join_path [home, ''servers.json'']);
                  s \<leftarrow> State_Monad.get;
                  give (case d of
                      Inl _ \<Rightarrow> 0
                    | Inr bytes \<Rightarrow> (case decode_registry bytes of
                        None \<Rightarrow> 0
                      | Some entries \<Rightarrow>
                          registry_pid (map_order s) (clean (join_path [runtime, ''jcode.sock''])) entries))
                }
          }
        })"

section \<open>Cleaning up\<close>

definition instance_owned_runtime_paths :: "string \<Rightarrow> string list" where
  "instance_owned_runtime_paths runtime =
     [join_path [runtime, ''jcode-api.sock''], join_path [runtime, ''jcode.sock''],
      join_path [runtime, ''jcode-debug.sock''], join_path [runtime, ''jcode.sock.hash'']]"

fun remove_owned_files :: "string list \<Rightarrow> (gerr list \<times> bool) io" where
  "remove_owned_files [] = give ([], False)"
| "remove_owned_files (path # paths) = do {
     i \<leftarrow> lstat path;
     r \<leftarrow> (case i of
         Inl e \<Rightarrow> give (if is_not_exist e then ([], False) else ([WrapE ''inspect owned runtime file'' e], True))
       | Inr n \<Rightarrow>
           if is_symlink n \<or> is_dir n \<or> (\<not> is_regular n \<and> \<not> is_socket n)
           then give ([Plain ''owned runtime file has an unsafe type''], True)
           else do {
             x \<leftarrow> remove_path path;
             give (case x of
                 Inl e \<Rightarrow> (if is_not_exist e then ([], False) else ([WrapE ''remove owned runtime file'' e], False))
               | Inr _ \<Rightarrow> ([], False))
           });
     q \<leftarrow> remove_owned_files paths;
     give (fst r @ fst q, snd r \<or> snd q)
   }"

definition remove_owned_runtime_paths_once :: "string \<Rightarrow> string list \<Rightarrow> (gerr option \<times> bool) io" where
  "remove_owned_runtime_paths_once runtime paths = do {
     r \<leftarrow> remove_owned_files paths;
     if fst r \<noteq> [] then give (join_all (fst r), snd r)
     else do {
       d \<leftarrow> read_dir runtime;
       case d of
         Inl e \<Rightarrow> give (if is_not_exist e then None
             else Some (WrapE ''inspect owned runtime directory contents'' e), False)
       | Inr entries \<Rightarrow>
           if entries \<noteq> [] then give (None, False)
           else do {
             x \<leftarrow> remove_path runtime;
             give (case x of
                 Inl e \<Rightarrow> if is_not_exist e then None else Some (WrapE ''remove empty owned runtime directory'' e)
               | Inr _ \<Rightarrow> None, False)
           }
     }
   }"

text \<open>
  An attempt of a retry loop ends the loop with a result, or leaves an error that the loop
  reports when the deadline has passed.
\<close>

definition runtime_attempt :: "string \<Rightarrow> string list \<Rightarrow> (gerr option + gerr) io" where
  "runtime_attempt runtime paths = do {
     r \<leftarrow> remove_owned_runtime_paths_once runtime paths;
     give (case r of
         (None, _) \<Rightarrow> Inl None
       | (Some e, permanent) \<Rightarrow>
           if permanent then Inl (Some (WrapE ''clean owned runtime paths'' e))
           else Inr (WrapE ''clean owned runtime paths'' e))
   }"

definition home_attempt :: "string \<Rightarrow> (gerr option + gerr) io" where
  "home_attempt home = do {
     r \<leftarrow> remove_all home;
     i \<leftarrow> lstat home;
     give (case i of
         Inl e \<Rightarrow>
           if is_not_exist e then Inl None
           else Inl (err_join [case r of Inl x \<Rightarrow> Some x | Inr _ \<Rightarrow> None,
                               Some (WrapE ''inspect ephemeral instance home after removal'' e)])
       | Inr _ \<Rightarrow> Inr (WrapE ''remove ephemeral instance home''
           (case r of Inl x \<Rightarrow> x | Inr _ \<Rightarrow> Plain ''ephemeral instance home still exists'')))
   }"

lemma remove_owned_files_later: "state_io_rel later (remove_owned_files paths)"
proof (induction paths)
  case Nil
  show ?case unfolding remove_owned_files.simps by (rule clk.return_rel)
next
  case (Cons p ps)
  then show ?case unfolding remove_owned_files.simps by (intro later_rules)
qed

lemma runtime_attempt_later: "state_io_rel later (runtime_attempt runtime paths)"
  unfolding runtime_attempt_def remove_owned_runtime_paths_once_def
  by (intro later_rules remove_owned_files_later)

lemma home_attempt_later: "state_io_rel later (home_attempt home)"
  unfolding home_attempt_def by (intro later_rules)

text \<open>One round of a loop moves the clock forward while the deadline has not passed.\<close>

lemma round_advances:
  assumes "state_io_rel later attempt"
    and "(Inr e, s1) = run_state attempt s" "(t, s2) = run_state now s1" "t < deadline"
  shows "clock s < deadline \<and> clock s < clock (snd (run_state (pause deadline) s2))"
  using laterD [OF assms(1) assms(2) [symmetric]] run_now [OF assms(3) [symmetric]] assms(4)
    pause_advances [of s2 deadline]
  by auto

function runtime_loop :: "string \<Rightarrow> string list \<Rightarrow> int \<Rightarrow> os \<Rightarrow> gerr option \<times> os" where
  "runtime_loop runtime paths deadline s =
     (case run_state (runtime_attempt runtime paths) s of
        (Inl r, s1) \<Rightarrow> (r, s1)
      | (Inr e, s1) \<Rightarrow>
          (case run_state now s1 of (t, s2) \<Rightarrow>
            if t < deadline then runtime_loop runtime paths deadline (snd (run_state (pause deadline) s2))
            else (Some e, s2)))"
  by pat_completeness auto
termination
  by (relation "measure (\<lambda>(_, _, d, s). nat (d - clock s))")
    (simp_all, use round_advances [OF runtime_attempt_later] in blast)

function home_loop :: "string \<Rightarrow> int \<Rightarrow> os \<Rightarrow> gerr option \<times> os" where
  "home_loop home deadline s =
     (case run_state (home_attempt home) s of
        (Inl r, s1) \<Rightarrow> (r, s1)
      | (Inr e, s1) \<Rightarrow>
          (case run_state now s1 of (t, s2) \<Rightarrow>
            if t < deadline then home_loop home deadline (snd (run_state (pause deadline) s2))
            else (Some e, s2)))"
  by pat_completeness auto
termination
  by (relation "measure (\<lambda>(_, d, s). nat (d - clock s))")
    (simp_all, use round_advances [OF home_attempt_later] in blast)

declare runtime_loop.simps [simp del] home_loop.simps [simp del]

interpretation runtime: deadline_loop "runtime_attempt runtime paths" "runtime_loop runtime paths" for runtime paths
  by unfold_locales (simp_all add: runtime_loop.simps [of runtime] runtime_attempt_later)

interpretation homes: deadline_loop "home_attempt home" "home_loop home" for home
  by unfold_locales (simp_all add: home_loop.simps [of home] home_attempt_later)

definition remove_owned_runtime_paths :: "string \<Rightarrow> string \<Rightarrow> string list \<Rightarrow> int \<Rightarrow> gerr option io" where
  "remove_owned_runtime_paths home0 runtime0 paths timeout =
     (if home0 = [] \<and> runtime0 = [] \<and> paths = [] then give None
      else let home = clean home0; runtime = clean runtime0 in
        if runtime \<noteq> join_path [home, ''run'']
        then give (Some (Plain ''owned runtime directory is outside the recorded home''))
        else case List.find (\<lambda>p. dir_path (clean p) \<noteq> runtime \<or>
               clean p \<notin> set (map clean (instance_owned_runtime_paths runtime))) paths of
          Some p \<Rightarrow>
            give (Some (Plain (if dir_path (clean p) \<noteq> runtime
              then ''owned runtime path is outside the recorded runtime directory''
              else ''owned runtime path is not an expected private runtime file'')))
        | None \<Rightarrow> do {
            h \<leftarrow> lstat home;
            case h of
              Inl e \<Rightarrow> give (if is_not_exist e then None else Some (WrapE ''inspect owned home'' e))
            | Inr n \<Rightarrow>
                if is_symlink n \<or> \<not> is_dir n then give (Some (Plain ''owned home is not a real directory''))
                else do {
                  r \<leftarrow> lstat runtime;
                  case r of
                    Inl e \<Rightarrow> give (if is_not_exist e then None
                        else Some (WrapE ''inspect owned runtime directory'' e))
                  | Inr m \<Rightarrow>
                      if is_symlink m \<or> \<not> is_dir m
                      then give (Some (Plain ''owned runtime directory is not a real directory''))
                      else do {
                        t \<leftarrow> now;
                        State (runtime_loop runtime paths (t + finite_duration timeout default_cleanup_timeout))
                      }
                }
          })"

definition remove_owned_instance_home :: "string \<Rightarrow> int \<Rightarrow> gerr option io" where
  "remove_owned_instance_home home timeout = do {
     s \<leftarrow> State_Monad.get;
     if clean (dir_path (clean home)) \<noteq> clean (temp_dir s) \<or>
        \<not> prefix instance_home_prefix (base_path (clean home))
     then give (Some (Plain ''ephemeral instance home is outside the SDK ownership boundary''))
     else do {
       i \<leftarrow> lstat (clean home);
       case i of
         Inl e \<Rightarrow> give (if is_not_exist e then None else Some (WrapE ''inspect ephemeral instance home'' e))
       | Inr n \<Rightarrow>
           if is_symlink n \<or> \<not> is_dir n
           then give (Some (Plain ''ephemeral instance home is not a real directory''))
           else do {
             t \<leftarrow> now;
             State (home_loop (clean home) (t + finite_duration timeout default_cleanup_timeout))
           }
     }
   }"

definition cleanup_owned_instance_paths ::
    "string \<Rightarrow> string \<Rightarrow> string list \<Rightarrow> bool \<Rightarrow> int \<Rightarrow> gerr option io" where
  "cleanup_owned_instance_paths home runtime paths ephemeral timeout = do {
     t \<leftarrow> now;
     let deadline = t + finite_duration timeout default_cleanup_timeout;
     d \<leftarrow> remaining_cleanup_duration deadline;
     e1 \<leftarrow> remove_owned_runtime_paths home runtime paths d;
     e2 \<leftarrow> (if ephemeral then do {
              d2 \<leftarrow> remaining_cleanup_duration deadline;
              remove_owned_instance_home home d2
            } else give None);
     give (err_join [e1, e2])
   }"

end
