(* ===== verification/LaunchCleanup.thy ===== *)
theory LaunchCleanup imports LaunchFiles begin

text \<open>
  The launcher's file operations stay inside the instance: what the cleanup may remove, how often
  it tries, what it leaves behind, and where the credentials go.
\<close>

section \<open>Policies while the program's environment is the same\<close>

text \<open>
  The environment variables, the working directory, the executable and the order of maps do not
  change while a program runs; the policy may mention them.
\<close>

definition same_env :: "os \<Rightarrow> os \<Rightarrow> bool" where
  "same_env s t \<longleftrightarrow> environ t = environ s \<and> cwd t = cwd s \<and> executable t = executable s \<and> map_order t = map_order s"

definition within :: "os \<Rightarrow> (os_act \<Rightarrow> bool) \<Rightarrow> os \<Rightarrow> os \<Rightarrow> bool" where
  "within v P s t \<longleftrightarrow> (same_env v s \<longrightarrow> same_env v t \<and> acts P s t)"

lemma same_env_temp: "same_env s t \<Longrightarrow> temp_dir t = temp_dir s"
  by (simp add: same_env_def temp_dir_def getenv_def)

interpretation inside: os_relation "within v P" P for v P
proof
  show "within v P s t \<Longrightarrow> within v P t u \<Longrightarrow> within v P s u" for s t u
    using acts.R_trans unfolding within_def by blast
qed (auto simp: within_def acts_def state_io_rel_def tick_def settle_def same_env_def split: list.split)

lemma within_get:
  "(\<And>s. same_env v s \<Longrightarrow> state_io_rel (within v P) (f s)) \<Longrightarrow>
   state_io_rel (within v P) (State_Monad.get \<bind> f)"
  by (auto simp: state_io_rel_def within_def)

lemma within_run: "state_io_rel (within s P) m \<Longrightarrow> acts P s (snd (run_state m s))"
  by (auto simp: state_io_rel_def within_def same_env_def)

section \<open>What the cleanup may remove\<close>

definition runtime_names :: "string list" where
  "runtime_names = [''jcode-api.sock'', ''jcode.sock'', ''jcode-debug.sock'', ''jcode.sock.hash'']"

definition owned_removal :: "string \<Rightarrow> string \<Rightarrow> os_act \<Rightarrow> bool" where
  "owned_removal home tmp a =
     (case a of
        ARemove p \<Rightarrow>
          clean p = join_path [clean home, ''run''] \<or>
          clean p \<in> set (map (\<lambda>n. join_path [clean home, ''run'', n]) runtime_names)
      | ARemoveAll p \<Rightarrow>
          p = clean home \<and> dir_path p = clean tmp \<and> prefix instance_home_prefix (base_path p)
      | _ \<Rightarrow> False)"

lemma plain_names: "list_all plain_name (''run'' # ''servers.json'' # runtime_names)"
  by code_simp

lemma join_three:
  assumes "s \<noteq> []" "plain_name a" "plain_name b"
  shows "join_path [join_path [s, a], b] = join_path [s, a, b]"
proof -
  have c: "clean_list (is_abs s) (comps s @ [a])"
    using comps_clean_list assms(2) by (rule clean_list_snoc)
  have "comps (s @ CHR ''/'' # a @ CHR ''/'' # b) = comps s @ [a, b]"
    using comps_snoc [of "s @ CHR ''/'' # a" b] comps_snoc [of s a] assms by simp
  then have "join_path [s, a, b] = path_text (is_abs s) (comps s @ [a, b])"
    using assms(1) by (simp add: clean_def is_abs_append)
  moreover have "join_path [join_path [s, a], b] = path_text (is_abs s) ((comps s @ [a]) @ [b])"
    unfolding join_two [OF assms(1,2)] by (rule join_text [OF c assms(3)])
  ultimately show ?thesis by simp
qed

lemma allowed_names:
  assumes "runtime = join_path [clean home, ''run'']"
  shows "map clean (instance_owned_runtime_paths runtime) =
     map (\<lambda>n. join_path [clean home, ''run'', n]) runtime_names"
proof -
  have "clean (join_path [runtime, n]) = join_path [clean home, ''run'', n]" if "n \<in> set runtime_names" for n
    using plain_names that join_three [of "clean home" "''run''" n] join_path_clean [of "clean home"]
    unfolding assms by (simp add: list_all_iff del: join_path.simps)
  then show ?thesis by (simp add: instance_owned_runtime_paths_def runtime_names_def del: join_path.simps)
qed

lemma remove_owned_files_rel:
  assumes "\<And>p. p \<in> set paths \<Longrightarrow> owned_removal home (temp_dir v) (ARemove p)"
  shows "state_io_rel (within v (owned_removal home (temp_dir v))) (remove_owned_files paths)"
  using assms
proof (induction paths)
  case Nil
  show ?case unfolding remove_owned_files.simps by (rule inside.return_rel)
next
  case (Cons p ps)
  then show ?case unfolding remove_owned_files.simps by (intro inside.call_rel) simp_all
qed

lemma runtime_paths_rel:
  "state_io_rel (within v (owned_removal home (temp_dir v))) (remove_owned_runtime_paths home runtime paths timeout)"
proof -
  let ?R = "within v (owned_removal home (temp_dir v))"
  let ?rt = "clean runtime"
  have att: "state_io_rel ?R (runtime_attempt ?rt paths)"
    if "?rt = join_path [clean home, ''run'']"
      "List.find (\<lambda>p. dir_path (clean p) \<noteq> ?rt \<or> clean p \<notin> set (map clean (instance_owned_runtime_paths ?rt))) paths = None"
  proof -
    have "owned_removal home (temp_dir v) (ARemove p)" if "p \<in> set paths" for p
      using \<open>List.find _ _ = None\<close> that allowed_names [OF \<open>?rt = _\<close>]
      by (auto simp: find_None_iff owned_removal_def)
    moreover have "owned_removal home (temp_dir v) (ARemove ?rt)"
      using that(1) by (simp add: owned_removal_def)
    ultimately show ?thesis
      unfolding runtime_attempt_def remove_owned_runtime_paths_once_def
      by (intro inside.call_rel remove_owned_files_rel) simp_all
  qed
  have "state_io_rel ?R (State (runtime_loop ?rt paths d))"
    if "?rt = join_path [clean home, ''run'']"
      "List.find (\<lambda>p. dir_path (clean p) \<noteq> ?rt \<or> clean p \<notin> set (map clean (instance_owned_runtime_paths ?rt))) paths = None" for d
    using runtime.loop_rel [OF inside.io_relation_axioms att [OF that] inside.now_rel inside.pause_rel]
    by (simp add: state_io_rel_def)
  then show ?thesis unfolding remove_owned_runtime_paths_def Let_def
    by (intro inside.call_rel) simp_all
qed

lemma instance_home_rel:
  "state_io_rel (within v (owned_removal home (temp_dir v))) (remove_owned_instance_home home timeout)"
proof -
  let ?R = "within v (owned_removal home (temp_dir v))"
  have loop: "state_io_rel ?R (State (home_loop (clean home) d))"
    if "clean (dir_path (clean home)) = clean (temp_dir v)" "prefix instance_home_prefix (base_path (clean home))" for d
  proof -
    have "owned_removal home (temp_dir v) (ARemoveAll (clean home))"
      using that by (simp add: owned_removal_def dir_path_def)
    then have "state_io_rel ?R (home_attempt (clean home))"
      unfolding home_attempt_def by (intro inside.call_rel)
    from homes.loop_rel [OF inside.io_relation_axioms this inside.now_rel inside.pause_rel]
    show ?thesis by (simp add: state_io_rel_def)
  qed
  show ?thesis unfolding remove_owned_instance_home_def
    by (rule within_get, intro inside.call_rel loop) (simp_all add: same_env_temp)
qed


section \<open>How often it tries\<close>

definition tree_removals :: "os_act list \<Rightarrow> int" where
  "tree_removals as = int (length (filter (\<lambda>a. case a of ARemoveAll _ \<Rightarrow> True | _ \<Rightarrow> False) as))"

definition same_count :: "os \<Rightarrow> os \<Rightarrow> bool" where
  "same_count s t \<longleftrightarrow> tree_removals (trace t) = tree_removals (trace s)"

interpretation counting: os_relation same_count "\<lambda>a. case a of ARemoveAll _ \<Rightarrow> False | _ \<Rightarrow> True"
  by unfold_locales (auto simp: same_count_def tree_removals_def state_io_rel_def tick_def settle_def
      split: list.split os_act.splits)

lemma same_countD: "state_io_rel same_count m \<Longrightarrow> tree_removals (trace (snd (run_state m s))) = tree_removals (trace s)"
  by (simp add: state_io_rel_def same_count_def)

lemma same_count_sys:
  "(\<And>e s. same_count s (snd (f e s))) \<Longrightarrow>
   tree_removals (trace (snd (run_state (syscall op path f) s))) = tree_removals (trace s)"
  by (rule same_countD, rule counting.sys_rel)

lemma remove_all_count:
  "tree_removals (trace (snd (run_state (remove_all home) s))) = tree_removals (trace s) + 1"
  unfolding remove_all_def
  by (simp add: record_act_def, subst same_count_sys)
    (simp_all add: counting.R_refl counting.put_rel tree_removals_def split: option.split sum.split prod.split)

lemma home_attempt_count:
  "tree_removals (trace (snd (run_state (home_attempt home) s))) = tree_removals (trace s) + 1"
proof -
  have "tree_removals (trace (snd (run_state (home_attempt home) s))) =
      tree_removals (trace (snd (run_state (remove_all home) s)))"
    using same_countD [OF counting.read_rel(1) [of home]]
    by (simp add: home_attempt_def split: prod.split) (metis snd_conv)
  then show ?thesis by (simp add: remove_all_count)
qed

text \<open>C40: removing the home of an instance takes at most one attempt for every 50 milliseconds of
  its timeout, and one more.\<close>

theorem home_removal_attempts:
  "tree_removals (trace (snd (run_state (remove_owned_instance_home home timeout) s))) \<le>
     tree_removals (trace s) + 1 + (finite_duration timeout default_cleanup_timeout + 49999999) div 50000000"
proof -
  let ?f = "finite_duration timeout default_cleanup_timeout"
  have pos: "0 \<le> (?f + 49999999) div 50000000"
    by (simp add: finite_duration_def default_cleanup_timeout_def seconds_def pos_imp_zdiv_nonneg_iff)
  have loop: "tree_removals (trace (snd (home_loop (clean home) (clock t + ?f) t))) \<le>
      tree_removals (trace t) + 1 + (?f + 49999999) div 50000000" for t
  proof -
    have "tree_removals (trace (snd (home_loop (clean home) (clock t + ?f) t))) \<le>
        tree_removals (trace t) + 1 + max 0 ((clock t + ?f - clock t + 49999999) div 50000000)"
      by (rule homes.loop_bound)
        (simp_all add: home_attempt_count same_countD counting.now_rel counting.pause_rel)
    with pos show ?thesis by simp
  qed
  obtain i s1 where i: "run_state (lstat (clean home)) s = (i, s1)" by fastforce
  have s1: "tree_removals (trace s1) = tree_removals (trace s)"
    using same_countD [OF counting.read_rel(1) [of "clean home"], of s] i by simp
  obtain u s2 where n: "run_state now s1 = (u, s2)" by fastforce
  have s2: "tree_removals (trace s2) = tree_removals (trace s)" "u = clock s2"
    using same_countD [OF counting.now_rel, of s1] n s1 run_now [OF n] by simp_all
  show ?thesis using pos s1 s2 loop [of s2] i n
    by (auto simp: remove_owned_instance_home_def split: sum.split)
qed

section \<open>What it leaves behind\<close>

text \<open>A quiet environment: no other process, no fault, no time passing but by sleeping.\<close>

lemma tick_quiet [simp]: "plan s = [] \<Longrightarrow> run_state tick s = (quiet, s)"
  by (simp add: tick_def)

lemma fault_quiet [simp]: "fault quiet = None"
  by (simp add: quiet_def)

lemma sys_quiet:
  "plan s = [] \<Longrightarrow> run_state (syscall op path f) s =
     (case f quiet s of (Inl n, t) \<Rightarrow> (Inl (path_error op path n), t) | (Inr a, t) \<Rightarrow> (Inr a, t))"
  by (simp add: syscall_def)

lemma faulty_quiet [simp]: "faulty f quiet s = f s"
  by (simp add: faulty_def)

lemma lstat_quiet:
  "plan s = [] \<Longrightarrow> run_state (lstat path) s =
     (case look False path s of Inl n \<Rightarrow> Inl (path_error ''lstat'' path n) | Inr (p, n) \<Rightarrow> Inr n, s)"
  by (auto simp: lstat_def sys_quiet split: sum.split)

lemma now_quiet: "plan s = [] \<Longrightarrow> run_state now s = (clock s, s)"
  by (simp add: now_def)

lemma is_not_exist_path [simp]: "is_not_exist (path_error op path n) = (n = ENOENT)"
  by (cases n) (simp_all add: is_not_exist_def path_error_def)

lemma node_at_drop:
  "\<not> P [] \<Longrightarrow> node_at (filter (\<lambda>(q, _). \<not> P q) fs) q = (if P q then None else node_at fs q)"
  by (induction fs) (auto simp: node_at_def split: if_splits)

definition gone :: "fs \<Rightarrow> errno + string list \<Rightarrow> bool" where
  "gone fs r \<longleftrightarrow> r = Inl ENOENT \<or> (\<exists>q. r = Inr q \<and> node_at fs q = None)"

lemma walk_drop:
  "\<not> P [] \<Longrightarrow> walk k (filter (\<lambda>(q, _). \<not> P q) fs) b cur cs = walk k fs b cur cs \<or>
   gone (filter (\<lambda>(q, _). \<not> P q) fs) (walk k (filter (\<lambda>(q, _). \<not> P q) fs) b cur cs)"
proof (induction k fs b cur cs rule: walk.induct)
  case (2 k fs b cur c cs)
  let ?fs = "filter (\<lambda>(q, _). \<not> P q) fs"
  note drop = node_at_drop [of P fs, OF \<open>\<not> P []\<close>]
  show ?case
  proof (cases "node_at ?fs cur")
    case None
    then show ?thesis by (simp add: gone_def)
  next
    case (Some d)
    then have d: "node_at fs cur = Some d" by (simp add: drop split: if_splits)
    show ?thesis
    proof (cases "node_at ?fs (cur @ [c])")
      case None
      with Some d 2(1) [OF d] \<open>\<not> P []\<close> show ?thesis by (auto simp: gone_def)
    next
      case (Some n)
      then have n: "node_at fs (cur @ [c]) = Some n" by (simp add: drop split: if_splits)
      note IH = 2(1-6) [OF d]
      show ?thesis
      proof (cases "is_dir d \<and> c \<noteq> ''..''")
        case True
        then show ?thesis
        proof (cases n)
          case (NLink t)
          then show ?thesis
            using IH True \<open>\<not> P []\<close> \<open>node_at ?fs cur = Some d\<close> d n Some
            by (cases k) auto
        qed (use IH True \<open>\<not> P []\<close> \<open>node_at ?fs cur = Some d\<close> d n Some in auto)
      next
        case False
        with IH(1) \<open>\<not> P []\<close> \<open>node_at ?fs cur = Some d\<close> d show ?thesis by auto
      qed
    qed
  qed
qed simp

lemma look_drop:
  assumes "look b path s = Inr (p, n)" "\<not> P []" "P p"
  shows "look b path (drop_nodes P s) = Inl ENOENT"
proof -
  let ?fs = "filter (\<lambda>(q, _). \<not> P q) (files s)"
  define w where "w = (\<lambda>fs. walk 40 fs b (if is_abs path then [] else cwd s) (names_of path))"
  have r: "path \<noteq> []" "w (files s) = Inr p"
    using assms(1) unfolding look_def resolve_def w_def
    by (auto split: sum.splits option.splits if_splits)
  have "node_at ?fs p = None" using assms(2,3) by (simp add: node_at_drop)
  moreover have "w ?fs = w (files s) \<or> gone ?fs (w ?fs)"
    unfolding w_def using assms(2) by (rule walk_drop)
  ultimately have "gone ?fs (w ?fs)" using r(2) by (auto simp: gone_def)
  moreover have "look b path (drop_nodes P s) =
      (case w ?fs of Inl n \<Rightarrow> Inl n | Inr p \<Rightarrow> (case node_at ?fs p of None \<Rightarrow> Inl ENOENT | Some n \<Rightarrow> Inr (p, n)))"
    using r(1) by (simp add: look_def resolve_def w_def drop_nodes_def split: sum.split)
  ultimately show ?thesis by (auto simp: gone_def)
qed

lemma home_loop_quiet:
  assumes "plan s = []" "look False home s = Inr (p, n)" "p \<noteq> []"
  shows "fst (home_loop home deadline s) = None \<and>
    files (snd (home_loop home deadline s)) = filter (\<lambda>(q, _). \<not> prefix p q) (files s)"
proof -
  let ?s1 = "s\<lparr>trace := trace s @ [ARemoveAll home]\<rparr>"
  let ?s2 = "drop_nodes (prefix p) ?s1"
  have l: "look b path ?s1 = look b path s" for b path
    by (simp add: look_def resolve_def split: sum.split)
  have r: "run_state (remove_all home) s = (Inr (), ?s2)"
    using assms by (simp add: remove_all_def record_act_def sys_quiet l)
  have "look False home ?s2 = Inl ENOENT"
    by (rule look_drop [where p = p and n = n]) (simp_all add: assms l)
  then have "run_state (home_attempt home) s = (Inl None, ?s2)"
    using r assms(1) by (simp add: home_attempt_def lstat_quiet drop_nodes_def)
  then show ?thesis by (simp add: home_loop.simps drop_nodes_def)
qed

text \<open>C23: left alone, removing an SDK-owned home succeeds and removes exactly the directory's tree:
  every other file of the system keeps its place and content, those that a symbolic link of the
  instance points to included.\<close>

theorem home_removed_exactly:
  assumes "plan s = []" and "look False (clean home) s = Inr (p, NDir m)" and "p \<noteq> []"
    and "clean (dir_path (clean home)) = clean (temp_dir s)"
    and "prefix instance_home_prefix (base_path (clean home))"
  shows "fst (run_state (remove_owned_instance_home home timeout) s) = None \<and>
    files (snd (run_state (remove_owned_instance_home home timeout) s)) =
      filter (\<lambda>(q, _). \<not> prefix p q) (files s)"
  using assms home_loop_quiet [OF assms(1-3)]
  by (simp add: remove_owned_instance_home_def lstat_quiet now_quiet is_symlink_def is_dir_def)

text \<open>An instance that shares the user's login.\<close>

definition shared_login :: os where
  "shared_login = \<lparr>files =
       [([''tmp''], NDir 511), ([''u''], NDir 448), ([''u'', ''auth.json''], NFile 384 ''token''),
        ([''tmp'', ''jcode-sdk-instance-7''], NDir 448),
        ([''tmp'', ''jcode-sdk-instance-7'', ''auth.json''], NLink ''/u/auth.json'')],
     cwd = [], clock = 0, plan = [], environ = [''HOME=/u''], executable = Inl (Plain ''none''),
     wait_done = NotStarted, force_kill = False, map_order = id, trace = []\<rparr>"

theorem home_removed_exactly_witness:
  "fst (run_state (remove_owned_instance_home ''/tmp/jcode-sdk-instance-7'' 0) shared_login) = None \<and>
   files (snd (run_state (remove_owned_instance_home ''/tmp/jcode-sdk-instance-7'' 0) shared_login)) =
     [([''tmp''], NDir 511), ([''u''], NDir 448), ([''u'', ''auth.json''], NFile 384 ''token'')]"
proof -
  have "plan shared_login = []" by (simp add: shared_login_def)
  moreover have "look False (clean ''/tmp/jcode-sdk-instance-7'') shared_login =
      Inr ([''tmp'', ''jcode-sdk-instance-7''], NDir 448)" by code_simp
  moreover have "clean (dir_path (clean ''/tmp/jcode-sdk-instance-7'')) = clean (temp_dir shared_login)"
    by code_simp
  moreover have "prefix instance_home_prefix (base_path (clean ''/tmp/jcode-sdk-instance-7''))"
    by code_simp
  ultimately have "fst (run_state (remove_owned_instance_home ''/tmp/jcode-sdk-instance-7'' 0) shared_login) = None \<and>
      files (snd (run_state (remove_owned_instance_home ''/tmp/jcode-sdk-instance-7'' 0) shared_login)) =
        filter (\<lambda>(q, _). \<not> prefix [''tmp'', ''jcode-sdk-instance-7''] q) (files shared_login)"
    by (intro home_removed_exactly) simp_all
  then show ?thesis by (simp add: shared_login_def)
qed

end
