(* ===== verification/LaunchCredentials.thy ===== *)
theory LaunchCredentials imports LaunchCleanup begin

text \<open>
  Where credentials and configuration go, what a private directory is when its preparation
  succeeds, and which process a registry may name.
\<close>

section \<open>Private directories\<close>

text \<open>What a walk sees of a node.\<close>

definition shape :: "node option \<Rightarrow> node option" where
  "shape n = (case n of Some (NDir _) \<Rightarrow> Some (NDir 0) | Some (NFile _ _) \<Rightarrow> Some (NFile 0 []) | _ \<Rightarrow> n)"

lemma shape_simps [simp]:
  "shape n = None \<longleftrightarrow> n = None" "shape n = Some (NLink t) \<longleftrightarrow> n = Some (NLink t)"
  "shape n = Some (NDir 0) \<longleftrightarrow> (\<exists>m. n = Some (NDir m))"
  by (auto simp: shape_def split: option.splits node.splits)

lemma shape_cases:
  assumes "shape m = shape n"
  obtains "m = None" "n = None" | k l where "m = Some (NDir k)" "n = Some (NDir l)"
  | k l c d where "m = Some (NFile k c)" "n = Some (NFile l d)"
  | x where "m = Some x" "n = Some x" "\<not> is_dir x"
  using assms by (auto simp: shape_def is_dir_def split: option.splits node.splits)

lemma walk_shape:
  assumes "\<And>q. shape (node_at fs' q) = shape (node_at fs q)"
  shows "walk k fs' b cur cs = walk k fs b cur cs"
  using assms
proof (induction k fs b cur cs rule: walk.induct)
  case (2 k fs b cur c cs)
  note IH = 2(1-6) and sh = 2(7)
  show ?case
  proof (cases rule: shape_cases [OF sh [of cur]])
    case (2 i j)
    note d = this
    show ?thesis
    proof (cases "c = ''..''")
      case True
      with d IH(1) sh show ?thesis by (simp add: is_dir_def)
    next
      case False
      note IH' = IH(2-6) [OF d(2) _ False]
      show ?thesis
      proof (cases rule: shape_cases [OF sh [of "cur @ [c]"]])
        case (4 x)
        with d False IH' show ?thesis
          by (cases x; cases k) (auto simp: is_dir_def sh)
      qed (use d False IH' in \<open>simp_all add: is_dir_def sh\<close>)
    qed
  qed (simp_all add: is_dir_def split: node.split)
qed simp

lemma walk_last:
  "walk k fs b cur cs = Inr p \<Longrightarrow> node_at fs p = Some n \<Longrightarrow> \<not> is_symlink n \<Longrightarrow> walk k fs True cur cs = Inr p"
proof (induction k fs b cur cs rule: walk.induct)
  case (2 k fs b cur c cs)
  note IH = 2(1-6) and w = 2(7) and n = 2(8,9)
  obtain d where d: "node_at fs cur = Some d" "is_dir d"
    using w by (cases "node_at fs cur") (auto split: if_splits)
  show ?case
  proof (cases "c = ''..''")
    case True
    with IH(1) [OF d(1)] d w n show ?thesis by simp
  next
    case False
    show ?thesis
    proof (cases "node_at fs (cur @ [c])")
      case None
      with d w False show ?thesis by (simp split: if_splits)
    next
      case (Some x)
      note IH' = IH(2-6) [OF d(1) _ False Some]
      show ?thesis
      proof (cases x)
        case (NLink t)
        show ?thesis
        proof (cases "cs = [] \<and> \<not> b")
          case True
          with NLink Some d w False n show ?thesis by (simp add: is_symlink_def)
        next
          case nl: False
          with NLink Some d w False obtain j where k: "k = Suc j" by (cases k) (auto simp: Let_def split: if_splits)
          show ?thesis using IH'(3) [OF _ NLink nl k] NLink Some d w False n nl k by (auto split: if_splits)
        qed
      qed (use IH' Some d w False n in simp_all)
    qed
  qed
qed simp

lemma look_last:
  "look False path s = Inr (p, n) \<Longrightarrow> \<not> is_symlink n \<Longrightarrow> look True path s = Inr (p, n)"
  by (auto simp: look_def resolve_def walk_last split: sum.splits option.splits if_splits)

lemma node_at_put [simp]: "node_at (files (put_node p n s)) q = (if q = p then Some n else node_at (files s) q)"
proof -
  have f: "map_of (filter (\<lambda>(q, _). q \<noteq> p) fs) r = (if r = p then None else map_of fs r)" for fs r
    by (induction fs) auto
  show ?thesis by (cases "q = p") (simp_all add: node_at_def put_node_def f split: option.split)
qed

lemma look_put_shape:
  assumes "look b path s = Inr (p, n)" "shape (Some m) = shape (Some n)"
  shows "look b path (put_node p m s) = Inr (p, m)"
proof -
  have n: "node_at (files s) p = Some n"
    using assms(1) by (auto simp: look_def split: sum.splits option.splits)
  have "walk k (files (put_node p m s)) b' cur cs = walk k (files s) b' cur cs" for k b' cur cs
    by (rule walk_shape) (simp add: n assms(2))
  then have "resolve b path (put_node p m s) = resolve b path s"
    by (simp add: resolve_def) (simp add: put_node_def)
  with assms(1) show ?thesis by (auto simp: look_def split: sum.splits option.splits)
qed



section \<open>Credentials\<close>

definition credential_write :: "string \<Rightarrow> string \<Rightarrow> os_act \<Rightarrow> bool" where
  "credential_write from to a =
     (let legacy = join_path [to, legacy_codex_auth_destination] in
      case a of
        AMkdir p m \<Rightarrow> m = 448 \<and> (prefix p to \<or> prefix p (dir_path legacy))
      | AChmod p m \<Rightarrow> m = 448 \<and> (p = to \<or> p = dir_path legacy)
      | ARemove p \<Rightarrow> p \<in> set (map (\<lambda>n. join_path [to, n]) credential_files)
      | ASymlink t p \<Rightarrow>
          (t, p) \<in> set (map (\<lambda>n. (join_path [from, n], join_path [to, n])) (butlast credential_files))
      | AOpenTrunc p m \<Rightarrow> m = 384 \<and> (p = join_path [to, last credential_files] \<or> p = legacy)
      | _ \<Rightarrow> False)"

lemma ensure_private_rel:
  assumes "\<And>q. prefix q path \<Longrightarrow> P (AMkdir q 448)" "P (AChmod path 448)"
  shows "state_io_rel (within v P) (ensure_private_directory path)"
  unfolding ensure_private_directory_def using assms by (intro inside.call_rel)

lemma copy_owner_rel: "P (AOpenTrunc to 384) \<Longrightarrow> state_io_rel (within v P) (copy_owner_only from to)"
  unfolding copy_owner_only_def by (intro inside.call_rel)

lemma inherit_files_rel:
  assumes "set names \<subseteq> set credential_files"
  shows "state_io_rel (within v (credential_write from to)) (inherit_files from to acc names)"
  using assms
proof (induction names arbitrary: acc)
  case Nil
  show ?case unfolding inherit_files.simps by (rule inside.return_rel)
next
  case (Cons n ns)
  have c: "credential_write from to (ARemove (join_path [to, n]))"
    using Cons.prems by (simp add: credential_write_def Let_def del: join_path.simps)
  have d: "credential_write from to (AOpenTrunc (join_path [to, n]) 384)" if "n = ''config.toml''"
    using that by (simp add: credential_write_def credential_files_def)
  have e: "credential_write from to (ASymlink (join_path [from, n]) (join_path [to, n]))" if "n \<noteq> ''config.toml''"
  proof -
    have "n \<in> set (butlast credential_files)"
      using that Cons.prems unfolding credential_files_def by (simp; blast)
    then show ?thesis by (force simp: credential_write_def Let_def)
  qed
  show ?case unfolding inherit_files.simps using Cons c d e
    by (intro inside.call_rel copy_owner_rel) simp_all
qed

lemma inherit_legacy_rel:
  "state_io_rel (within v (credential_write from to)) (inherit_legacy_codex_auth from to)"
  unfolding inherit_legacy_codex_auth_def Let_def
  by (intro inside.call_rel ensure_private_rel copy_owner_rel)
    (simp_all add: credential_write_def Let_def del: join_path.simps)



section \<open>Which process a registry may name\<close>

lemma registry_pid_cases:
  "registry_pid order wanted entries = 0 \<or>
   (\<exists>k socket. map_of entries k = Some (socket, registry_pid order wanted entries) \<and>
      clean socket = wanted \<and> 1 < registry_pid order wanted entries)"
  by (auto simp: registry_pid_def find_Some_iff split: option.splits)

lemma real_directories_quiet:
  "plan s = [] \<Longrightarrow> snd (run_state (real_directories ds) s) = s"
  by (induction ds) (auto simp: lstat_quiet split: sum.split)

lemma read_file_quiet:
  "plan s = [] \<Longrightarrow> look True path s = Inr (p, NFile m c) \<Longrightarrow> run_state (read_file path) s = (Inr c, s)"
  by (simp add: read_file_def sys_quiet)


text \<open>A registry with one entry, for the instance's own socket.\<close>

definition demo_registry :: string where
  "demo_registry = map (\<lambda>c. if c = CHR ''~'' then CHR 0x22 else c)
     ''{~a~:{~socket~:~/h/run/jcode.sock~,~pid~:42}}''"

definition registry_machine :: os where
  "registry_machine = shared_login\<lparr>files := [([''h''], NDir 448), ([''h'', ''run''], NDir 448),
     ([''h'', ''servers.json''], NFile 384 demo_registry)]\<rparr>"

lemma registry_read: "fst (run_state (read_daemon_pid ''/h'' ''/h/run'') registry_machine) = 42"
  by code_simp

section \<open>Where the code does not do what it means to\<close>

text \<open>\<^verbatim>\<open>copyOwnerOnly\<close> gives its mode to a new file only: an existing destination keeps the mode it
  has, here one that everybody may read.\<close>

theorem copy_keeps_mode:
  "files (snd (run_state (copy_owner_only ''/s'' ''/d'')
     (shared_login\<lparr>files := [([''s''], NFile 384 ''secret''), ([''d''], NFile 420 ''old'')]\<rparr>))) =
   [([''d''], NFile 420 ''secret''), ([''s''], NFile 384 ''secret'')]"
  by code_simp

text \<open>The legacy login is copied through a symbolic link that is already at its destination.\<close>

theorem legacy_copy_follows_link:
  "files (snd (run_state (inherit_legacy_codex_auth ''/u/.jcode'' ''/h'')
     (shared_login\<lparr>files := [([''u''], NDir 448), ([''u'', ''.codex''], NDir 448),
       ([''u'', ''.codex'', ''auth.json''], NFile 384 ''secret''), ([''h''], NDir 448),
       ([''h'', ''external''], NDir 448), ([''h'', ''external'', ''.codex''], NDir 448),
       ([''h'', ''external'', ''.codex'', ''auth.json''], NLink ''/public''), ([''public''], NFile 420 [])]\<rparr>))) =
   [([''public''], NFile 420 ''secret''), ([''h'', ''external'', ''.codex''], NDir 448),
    ([''u''], NDir 448), ([''u'', ''.codex''], NDir 448), ([''u'', ''.codex'', ''auth.json''], NFile 384 ''secret''),
    ([''h''], NDir 448), ([''h'', ''external''], NDir 448),
    ([''h'', ''external'', ''.codex'', ''auth.json''], NLink ''/public'')]"
  by code_simp

text \<open>
  A user's home named relative to the working directory is linked by that same relative name,
  which the link's own directory gives another meaning: the login is reported as inherited and
  is not there.
\<close>

theorem relative_home_dangles:
  "(case run_state (inherit_credentials ''.jcode'' ''/h'')
      (shared_login\<lparr>cwd := [''u''], files := [([''u''], NDir 448), ([''u'', ''.jcode''], NDir 448),
         ([''u'', ''.jcode'', ''auth.json''], NFile 384 ''token''), ([''h''], NDir 448)]\<rparr>) of
    (r, t) \<Rightarrow> (r, look True ''/h/auth.json'' t)) = (Inr [''auth.json''], Inl ENOENT)"
  by code_simp

text \<open>With a relative temporary directory no home of an instance is ever recognised as the SDK's own.\<close>

theorem relative_tmpdir_never_removed:
  assumes "\<not> is_abs (temp_dir s)" and "is_abs home"
  shows "run_state (remove_owned_instance_home home timeout) s =
    (Some (Plain ''ephemeral instance home is outside the SDK ownership boundary''), s)"
proof -
  have "is_abs (dir_part (clean home))"
  proof -
    have "is_abs (clean home)" using assms(2) by simp
    then obtain r where r: "clean home = CHR ''/'' # r" by (cases "clean home") (auto simp: is_abs_def)
    show ?thesis unfolding dir_part_def r by (simp add: is_abs_def dropWhile_append3)
  qed
  then have "is_abs (clean (dir_path (clean home)))" by (simp add: dir_path_def)
  with assms(1) have "clean (dir_path (clean home)) \<noteq> clean (temp_dir s)" by (metis is_abs_clean)
  then show ?thesis by (simp add: remove_owned_instance_home_def)
qed

end
