(* ===== verification/Process.thy ===== *)
theory Process imports LaunchFiles begin

text \<open>
  Starting and stopping the bridge process on Unix (\<^verbatim>\<open>process_unix.go\<close>).  A \<^verbatim>\<open>select\<close> gives the
  environment one step and then takes a ready case, which the environment picks when several are;
  when none is ready it waits for its timer.  The channel of the wait result holds one value.
\<close>

section \<open>Calls\<close>

definition emit_launch :: "bool \<Rightarrow> string \<Rightarrow> string \<Rightarrow> unit io" where
  "emit_launch observed kind err = (if observed then record_act (AObserve kind err) else give ())"

definition kill :: "int \<Rightarrow> signal \<Rightarrow> (gerr + unit) io" where
  "kill pid sig = do {
     record_act (AKill pid sig);
     syscall ''kill'' [] (faulty (\<lambda>s. (Inr (), s)))
   }"

definition probe :: "int \<Rightarrow> (gerr + unit) io" where
  "probe pid = syscall ''kill'' [] (faulty (\<lambda>s. (Inr (), s)))"

text \<open>The environment picks the process number of a started child.\<close>

definition start_process :: "string \<Rightarrow> string list \<Rightarrow> string \<Rightarrow> string list \<Rightarrow> (gerr + int) io" where
  "start_process binary args dir env = do {
     record_act (AStart binary args dir env);
     r \<leftarrow> syscall ''exec'' binary (\<lambda>e s. (case fault e of Some n \<Rightarrow> Inl n | None \<Rightarrow> Inr (int (pick e)), s));
     case r of
       Inl e \<Rightarrow> give (Inl e)
     | Inr pid \<Rightarrow>
         if pid \<le> 1 then do {
           record_act (AKillChild pid);
           give (Inl (Plain (''invalid owned process group '' @ int_text pid)))
         }
         else give (Inr pid)
   }"

definition wait_for_command_exit :: "unit io" where
  "wait_for_command_exit = State (\<lambda>s. ((), s\<lparr>wait_done := Running\<rparr>))"

text \<open>A receive from the wait channel that does not block.\<close>

definition poll_wait :: "bool io" where
  "poll_wait = do {
     _ \<leftarrow> tick;
     State (\<lambda>s. case wait_done s of
         Exited _ \<Rightarrow> (True, s\<lparr>wait_done := Reaped\<rparr>)
       | _ \<Rightarrow> (False, s))
   }"

text \<open>The same receive where the received error counts.\<close>

definition receive_wait :: "gerr option option io" where
  "receive_wait = do {
     _ \<leftarrow> tick;
     State (\<lambda>s. case wait_done s of
         Exited e \<Rightarrow> (Some e, s\<lparr>wait_done := Reaped\<rparr>)
       | _ \<Rightarrow> (None, s))
   }"

datatype ready = WaitReady | TimerReady | ForceReady

definition ready_cases :: "int \<Rightarrow> bool \<Rightarrow> os \<Rightarrow> ready list" where
  "ready_cases deadline forcible s =
     (case wait_done s of Exited _ \<Rightarrow> [WaitReady] | _ \<Rightarrow> []) @
     (if deadline \<le> clock s then [TimerReady] else []) @
     (if forcible \<and> force_kill s then [ForceReady] else [])"

definition select_wait :: "int \<Rightarrow> bool \<Rightarrow> ready io" where
  "select_wait timeout forcible = do {
     s0 \<leftarrow> State_Monad.get;
     e \<leftarrow> tick;
     State (\<lambda>s. case ready_cases (clock s0 + timeout) forcible s of
         [] \<Rightarrow> (TimerReady, s\<lparr>clock := clock s0 + timeout\<rparr>)
       | rs \<Rightarrow> (case rs ! (pick e mod length rs) of
           WaitReady \<Rightarrow> (WaitReady, s\<lparr>wait_done := Reaped\<rparr>)
         | r \<Rightarrow> (r, s)))
   }"

section \<open>Signals\<close>

definition signal_process_group :: "int \<Rightarrow> signal \<Rightarrow> gerr option io" where
  "signal_process_group pgid sig =
     (if pgid \<le> 1 then give (Some (Plain (''invalid owned process group '' @ int_text pgid)))
      else do {
        r \<leftarrow> kill (- pgid) sig;
        give (case r of Inl e \<Rightarrow> if err_is e Sys_ESRCH then None else Some e | Inr _ \<Rightarrow> None)
      })"

definition process_group_alive :: "int \<Rightarrow> (bool \<times> gerr option) io" where
  "process_group_alive pgid =
     (if pgid \<le> 1 then give (False, Some (Plain (''invalid owned process group '' @ int_text pgid)))
      else do {
        r \<leftarrow> probe (- pgid);
        give (case r of
            Inr _ \<Rightarrow> (True, None)
          | Inl e \<Rightarrow> if err_is e Sys_ESRCH then (False, None) else (True, Some e))
      })"

definition stop_process :: "int \<Rightarrow> gerr option io" where
  "stop_process pid =
     (if pid \<le> 1 then give (Some (Plain (''invalid owned daemon PID '' @ int_text pid)))
      else do {
        r \<leftarrow> kill pid SIGTERM;
        give (case r of Inl e \<Rightarrow> if err_is e Sys_ESRCH then None else Some e | Inr _ \<Rightarrow> None)
      })"

section \<open>Termination\<close>

record process_group_operations =
  signal_op :: "int \<Rightarrow> signal \<Rightarrow> gerr option io"
  alive_op :: "int \<Rightarrow> (bool \<times> gerr option) io"

definition wait_for_process_reap :: "int \<Rightarrow> int \<Rightarrow> gerr option io" where
  "wait_for_process_reap pgid timeout = do {
     r \<leftarrow> select_wait timeout False;
     give (if r = WaitReady then None
          else Some (Plain (''reap owned process group '' @ int_text pgid @ '': timeout'')))
   }"

text \<open>The last step of both ends: wait for the child and report.\<close>

definition reap_and_report :: "bool \<Rightarrow> int \<Rightarrow> int \<Rightarrow> bool \<Rightarrow> gerr list \<Rightarrow> (bool \<times> gerr option) io" where
  "reap_and_report observed pgid reap triggered errs = do {
     r \<leftarrow> wait_for_process_reap pgid reap;
     case r of
       Some e \<Rightarrow> give (triggered, join_all (errs @ [e]))
     | None \<Rightarrow> do { emit_launch observed ''shutdown_reap_complete'' []; give (triggered, join_all errs) }
   }"

definition errors_of :: "string \<Rightarrow> gerr option \<Rightarrow> gerr list" where
  "errors_of what e = (case e of Some x \<Rightarrow> [WrapE what x] | None \<Rightarrow> [])"

definition terminate_process_group ::
    "int \<Rightarrow> int \<Rightarrow> int \<Rightarrow> bool \<Rightarrow> process_group_operations \<Rightarrow> bool \<Rightarrow> (bool \<times> gerr option) io" where
  "terminate_process_group pgid grace0 reap0 forcible ops observed =
     (if pgid \<le> 1 then give (False, Some (Plain (''invalid owned process group '' @ int_text pgid)))
      else
        let grace = finite_duration grace0 default_shutdown_grace_period;
            reap = finite_duration reap0 default_shutdown_reap_timeout;
            group = ''owned process group '' @ int_text pgid
        in do {
          done \<leftarrow> poll_wait;
          if done then do { emit_launch observed ''shutdown_reap_complete'' []; give (False, None) }
          else do {
            t \<leftarrow> signal_op ops pgid SIGTERM;
            let errs = errors_of (''signal '' @ group @ '' with SIGTERM'') t;
            emit_launch observed ''shutdown_grace_start'' [];
            r \<leftarrow> select_wait grace forcible;
            let triggered = (r = ForceReady);
            emit_launch observed ''shutdown_grace_complete'' [];
            if r = WaitReady then do {
              emit_launch observed ''shutdown_reap_complete'' [];
              give (triggered, join_all errs)
            } else do {
              done1 \<leftarrow> poll_wait;
              if done1 then do {
                emit_launch observed ''shutdown_reap_complete'' [];
                give (triggered, join_all errs)
              } else do {
                (alive, alive_err) \<leftarrow> alive_op ops pgid;
                let errs = errs @ errors_of (''check '' @ group @ '' after SIGTERM'') alive_err;
                if \<not> alive then reap_and_report observed pgid reap triggered errs
                else do {
                  done2 \<leftarrow> poll_wait;
                  if done2 then do {
                    emit_launch observed ''shutdown_reap_complete'' [];
                    give (triggered, join_all errs)
                  } else do {
                    emit_launch observed ''shutdown_force_kill'' [];
                    k \<leftarrow> signal_op ops pgid SIGKILL;
                    reap_and_report observed pgid reap triggered
                      (errs @ errors_of (''signal '' @ group @ '' with SIGKILL'') k)
                  }
                }
              }
            }
          }
        })"

definition terminate_process_observed ::
    "int \<Rightarrow> int \<Rightarrow> int \<Rightarrow> bool \<Rightarrow> bool \<Rightarrow> (bool \<times> gerr option) io" where
  "terminate_process_observed pgid grace reap forcible observed =
     terminate_process_group pgid grace reap forcible
       \<lparr>signal_op = signal_process_group, alive_op = process_group_alive\<rparr> observed"

definition terminate_process :: "int \<Rightarrow> int \<Rightarrow> int \<Rightarrow> bool \<Rightarrow> (bool \<times> gerr option) io" where
  "terminate_process pgid grace reap forcible = terminate_process_observed pgid grace reap forcible False"

end
