(* ===== verification/Shutdown.thy ===== *)
theory Shutdown imports Process begin

text \<open>
  Shutting down an instance (\<^verbatim>\<open>launch.go\<close>).  Any number of goroutines may call it at the same
  time, each with its own context; the first owns the shutdown and performs its phases, the others
  wait for its result.  A call is the list of the actions it still has to perform; every action
  is atomic.  The phases of the owner are one action: they only share the force-kill channel with
  the other goroutines, and the environment may close that channel at any of their steps.
\<close>

section \<open>Error values\<close>

text \<open>\<open>err_matches e t\<close> is \<^verbatim>\<open>errors.Is(e, t)\<close> for any target.\<close>

fun err_nodes :: "gerr \<Rightarrow> gerr list" where
  "err_nodes (WrapE m e) = WrapE m e # err_nodes e"
| "err_nodes (JoinE es) = JoinE es # concat (map err_nodes es)"
| "err_nodes (LaunchErr c b t (Some e)) = LaunchErr c b t (Some e) # err_nodes e"
| "err_nodes e = [e]"

definition err_matches :: "gerr \<Rightarrow> gerr \<Rightarrow> bool" where
  "err_matches e t \<longleftrightarrow> t \<in> set (err_nodes e) \<or> (case t of Sent s \<Rightarrow> err_is e s | _ \<Rightarrow> False)"

lemma err_nodes_size: "t \<in> set (err_nodes e) \<Longrightarrow> t = e \<or> size t < size e"
proof (induction e rule: err_nodes.induct)
  case (2 es)
  have "size t < size (JoinE es)" if "x \<in> set es" "t \<in> set (err_nodes x)" for x
    using 2(1) [OF that] size_list_estimation' [OF that(1) order_refl, of size] by auto
  with 2(2) show ?case by auto
qed auto

lemma err_matches_refl [simp]: "err_matches e e"
  by (cases e rule: err_nodes.cases) (auto simp: err_matches_def)

text \<open>Two errors that match each other are the same error.\<close>

lemma err_matches_antisym:
  assumes "err_matches a b" "err_matches b a" shows "a = b"
proof -
  have sent: "x = Sent s" if "err_matches (Sent s) x" for s x
    using that by (auto simp: err_matches_def split: gerr.splits)
  show ?thesis
  proof (cases "(\<exists>s. a = Sent s) \<or> (\<exists>s. b = Sent s)")
    case True
    then show ?thesis using assms sent by metis
  next
    case False
    then have "b \<in> set (err_nodes a)" "a \<in> set (err_nodes b)"
      using assms by (auto simp: err_matches_def split: gerr.splits)
    then show ?thesis using err_nodes_size by (metis less_asym)
  qed
qed

section \<open>The instance\<close>

record launched =
  socket_path :: string
  jcode_home :: string
  runtime_dir :: string
  owned_paths :: "string list"
  ephemeral :: bool
  cleanup_timeout :: int
  grace_period :: int
  reap_timeout :: int
  has_cmd :: bool
  process_group_id :: int
  daemon_pid :: int
  observed :: bool
  shutdown_started :: bool
  shutdown_finished :: bool
  shutdown_done :: "closes option"
  shutdown_force_kill :: "closes option"
  force_kill_once :: bool
  context_errs :: "gerr list"
  shutdown_err :: "gerr option"

definition bridge_done :: "os \<Rightarrow> bool" where
  "bridge_done s = (case wait_done s of Exited _ \<Rightarrow> True | Reaped \<Rightarrow> True | _ \<Rightarrow> False)"

section \<open>The phases\<close>

text \<open>The phases once the daemon's process number is known.\<close>

definition run_phases :: "launched \<Rightarrow> int \<Rightarrow> (gerr option \<times> int) io" where
  "run_phases i pid = do {
     e1 \<leftarrow> (if 1 < pid then do { e \<leftarrow> stop_process pid; give (errors_of ''stop private daemon'' e) } else give []);
     s \<leftarrow> State_Monad.get;
     e2 \<leftarrow> (if has_cmd i \<or> wait_done s \<noteq> NotStarted \<or> process_group_id i \<noteq> 0
           then do {
             r \<leftarrow> terminate_process_observed (process_group_id i)
                   (finite_duration (grace_period i) default_shutdown_grace_period)
                   (finite_duration (reap_timeout i) default_shutdown_reap_timeout) True (observed i);
             give (case snd r of Some x \<Rightarrow> [x] | None \<Rightarrow> [])
           } else give []);
     c \<leftarrow> cleanup_owned_instance_paths (jcode_home i) (runtime_dir i) (owned_paths i) (ephemeral i) (cleanup_timeout i);
     case c of
       Some e \<Rightarrow> give (join_all (e1 @ e2 @ [e]), pid)
     | None \<Rightarrow> do { emit_launch (observed i) ''shutdown_cleanup_complete'' []; give (join_all (e1 @ e2), pid) }
   }"

definition run_shutdown :: "launched \<Rightarrow> (gerr option \<times> int) io" where
  "run_shutdown i = do {
     pid \<leftarrow> (if daemon_pid i \<le> 1 \<and> jcode_home i \<noteq> [] \<and> runtime_dir i \<noteq> []
            then read_daemon_pid (jcode_home i) (runtime_dir i) else give (daemon_pid i));
     run_phases i pid
   }"

section \<open>Callers\<close>

datatype sact =
    SBegin bool
  | SContext bool
  | SRequest gerr
  | SForce
  | SWatch
  | SRun
  | SFinish
  | SAwait
  | SRead

datatype svalue = SIdle | SPhase "gerr option" | SResult "gerr option"

record shutdown_state =
  inst :: launched
  machine :: os

text \<open>What the environment decides at a step: the cause of the caller's context, when it is done,
  and the plan under which the phases run.\<close>

record shutdown_choice =
  cause :: "gerr option"
  steps :: "env_step list"

text \<open>A context that cannot be cancelled, as of \<^verbatim>\<open>Shutdown\<close> and \<^verbatim>\<open>Close\<close>, never has a cause.\<close>

definition shutdown_acts :: "bool \<Rightarrow> sact list" where
  "shutdown_acts cancellable = [SBegin cancellable]"

definition begin_shutdown :: "launched \<Rightarrow> launched \<times> bool \<times> bool" where
  "begin_shutdown i =
     (let i1 = (if shutdown_done i = None
                then i\<lparr>shutdown_done := Some 0, shutdown_force_kill := Some 0\<rparr> else i)
      in if shutdown_finished i1 then (i1, True, False)
         else (i1\<lparr>shutdown_started := True\<rparr>, False, \<not> shutdown_started i1))"

definition request_shutdown_escalation :: "gerr \<Rightarrow> launched \<Rightarrow> launched \<times> bool" where
  "request_shutdown_escalation c i =
     (if shutdown_finished i then (i, False)
      else (if list_ex (\<lambda>e. err_matches e c \<and> err_matches c e) (context_errs i) then i
            else i\<lparr>context_errs := context_errs i @ [c]\<rparr>, True))"

definition close_force_kill :: "launched \<Rightarrow> launched" where
  "close_force_kill i =
     (if force_kill_once i then i
      else i\<lparr>force_kill_once := True, shutdown_force_kill := map_option ch_close (shutdown_force_kill i)\<rparr>)"

definition finish_shutdown :: "gerr option \<Rightarrow> launched \<Rightarrow> launched" where
  "finish_shutdown phase_err i = i\<lparr>
     shutdown_err := join_all ((case phase_err of Some e \<Rightarrow> [e] | None \<Rightarrow> []) @ context_errs i),
     shutdown_finished := True,
     shutdown_done := map_option ch_close (shutdown_done i)\<rparr>"

definition observe_shutdown :: "launched \<Rightarrow> string \<Rightarrow> string \<Rightarrow> os \<Rightarrow> os" where
  "observe_shutdown i kind err s = snd (run_state (emit_launch (observed i) kind err) s)"

definition shutdown_step ::
    "(shutdown_choice, svalue, sact, shutdown_state) runner" where
  "shutdown_step ch r a s =
     (case a of
        SBegin cancellable \<Rightarrow>
          (case begin_shutdown (inst s) of (i, finished, owner) \<Rightarrow>
             Some (s\<lparr>inst := i\<rparr>, r,
               (if finished then [] else [SContext cancellable]) @
               (if owner then [SRun, SFinish] else []) @ [SAwait, SRead], []))
      | SContext cancellable \<Rightarrow>
          (if \<not> cancellable then Some (s, r, [], [])
           else case cause ch of
             Some c \<Rightarrow> Some (s, r, [SRequest c], [])
           | None \<Rightarrow> Some (s, r, [], [[SWatch]]))
      | SWatch \<Rightarrow>
          (case cause ch of
             Some c \<Rightarrow> Some (s, r, [SRequest c], [])
           | None \<Rightarrow> if shutdown_done (inst s) \<in> {None, Some 0} then None else Some (s, r, [], []))
      | SRequest c \<Rightarrow>
          (case request_shutdown_escalation c (inst s) of (i, force) \<Rightarrow>
             Some (s\<lparr>inst := i\<rparr>, r, if force then [SForce] else [], []))
      | SForce \<Rightarrow> Some (s\<lparr>inst := close_force_kill (inst s)\<rparr>, r, [], [])
      | SRun \<Rightarrow>
          (case run_state (run_shutdown (inst s))
                 (observe_shutdown (inst s) ''shutdown_start'' []
                   ((machine s)\<lparr>plan := steps ch, force_kill := shutdown_force_kill (inst s) \<notin> {None, Some 0}\<rparr>)) of
             ((e, pid), m) \<Rightarrow> Some (s\<lparr>inst := (inst s)\<lparr>daemon_pid := pid\<rparr>, machine := m\<rparr>, SPhase e, [], []))
      | SFinish \<Rightarrow>
          (let i = finish_shutdown (case r of SPhase e \<Rightarrow> e | _ \<Rightarrow> None) (inst s)
           in Some (\<lparr>inst = i, machine = observe_shutdown i ''shutdown_complete''
                 (if shutdown_err i = None then [] else ''shutdown_failed'') (machine s)\<rparr>, SIdle, [], []))
      | SAwait \<Rightarrow>
          (if shutdown_done (inst s) \<in> {None, Some 0} then None else Some (s, r, [], []))
      | SRead \<Rightarrow> Some (s, SResult (shutdown_err (inst s)), [], []))"

text \<open>\<^verbatim>\<open>ShutdownInstance\<close>: the caller's context counts for the SDK's own instances; a foreign
  instance's error is joined with the context's cause.\<close>

datatype instance_ref = NilInstance | OwnInstance | ForeignInstance "gerr option"

definition shutdown_instance :: "bool \<Rightarrow> gerr option \<Rightarrow> instance_ref \<Rightarrow> sact list + gerr option" where
  "shutdown_instance cancellable ctx_cause ref =
     (case ref of
        NilInstance \<Rightarrow> Inr (Some (Plain ''nil instance''))
      | OwnInstance \<Rightarrow> Inl (shutdown_acts cancellable)
      | ForeignInstance None \<Rightarrow> Inr None
      | ForeignInstance (Some e) \<Rightarrow> Inr (err_join [ctx_cause, Some e]))"

end
