(* ===== verification/Launch.thy ===== *)
theory Launch imports Shutdown Session "HOL-Library.AList" begin

text \<open>
  Launching an instance and connecting to one (\<^verbatim>\<open>launch.go\<close>, \<^verbatim>\<open>connect.go\<close>): the options, the child's
  arguments and environment, its diagnostics, the start-up loop and the error paths.
\<close>

section \<open>Text\<close>

fun contains_text :: "string \<Rightarrow> string \<Rightarrow> bool" where
  "contains_text sub s = (prefix sub s \<or> (case s of [] \<Rightarrow> False | _ # t \<Rightarrow> contains_text sub t))"

declare contains_text.simps [simp del]

text \<open>\<^verbatim>\<open>strings.ReplaceAll\<close> of a text that is not empty.\<close>

function replace_all :: "string \<Rightarrow> string \<Rightarrow> string \<Rightarrow> string" where
  "replace_all old new s =
     (case s of
        [] \<Rightarrow> []
      | c # t \<Rightarrow>
          if old \<noteq> [] \<and> prefix old (c # t) then new @ replace_all old new (drop (length old) (c # t))
          else c # replace_all old new t)"
  by pat_completeness auto
termination
  by (relation "measure (\<lambda>(_, _, s). length s)") (auto simp: neq_Nil_conv)

declare replace_all.simps [simp del]

text \<open>\<^verbatim>\<open>strings.TrimSpace\<close>\<close>

fun trim_left :: "string \<Rightarrow> string" where
  "trim_left [] = []"
| "trim_left (a # s) =
     (let (r, n) = decode_rune (a # s) in if is_space_rune r then trim_left (drop (n - 1) s) else a # s)"

fun trim_right :: "string \<Rightarrow> string" where
  "trim_right [] = []"
| "trim_right (a # s) =
     (let (r, n) = decode_rune (a # s); rest = trim_right (drop (n - 1) s)
      in if rest = [] \<and> is_space_rune r then [] else take n (a # s) @ rest)"

definition trim_space :: "string \<Rightarrow> string" where
  "trim_space s = trim_right (trim_left s)"

text \<open>\<^verbatim>\<open>strings.ToLower\<close>, as far as ASCII letters of the result go: the Kelvin sign becomes a k.\<close>

fun lower_text :: "string \<Rightarrow> string" where
  "lower_text [] = []"
| "lower_text (c # s) =
     (if byte c = 226 \<and> take 2 s = [char_of (132::nat), char_of (170::nat)]
      then CHR ''k'' # lower_text (drop 2 s)
      else (if 65 \<le> byte c \<and> byte c \<le> 90 then char_of (byte c + 32) else c) # lower_text s)"

section \<open>Options\<close>

record launch_options =
  l_jcode_home :: string
  working_dir :: string
  inherit_logins_opt :: "bool option"
  binary :: string
  provider :: string
  model :: string
  l_env :: "(string \<times> string) list"
  startup_timeout :: int
  l_cleanup_timeout :: int
  l_grace_period :: int
  l_reap_timeout :: int
  inherit_stderr :: bool
  client_observed :: bool
  l_observed :: bool

definition launch_with_defaults :: "launch_options \<Rightarrow> launch_options" where
  "launch_with_defaults o1 = o1\<lparr>
     startup_timeout := if startup_timeout o1 \<le> 0 then 30 * seconds else startup_timeout o1,
     l_cleanup_timeout := if l_cleanup_timeout o1 \<le> 0 then default_cleanup_timeout else l_cleanup_timeout o1,
     l_grace_period := if l_grace_period o1 \<le> 0 then default_shutdown_grace_period else l_grace_period o1,
     l_reap_timeout := if l_reap_timeout o1 \<le> 0 then default_shutdown_reap_timeout else l_reap_timeout o1\<rparr>"

definition inherit_logins :: "launch_options \<Rightarrow> bool" where
  "inherit_logins o1 = (case inherit_logins_opt o1 of None \<Rightarrow> True | Some b \<Rightarrow> b)"

definition launch_args :: "launch_options \<Rightarrow> string \<Rightarrow> string list" where
  "launch_args o1 socket =
     (if trim_space (provider o1) \<noteq> [] then [''--provider'', trim_space (provider o1)] else []) @
     (if trim_space (model o1) \<noteq> [] then [''--model'', trim_space (model o1)] else []) @
     [''api-bridge'', ''--api-socket'', socket]"

section \<open>The child's environment\<close>

text \<open>A Go map with text keys: one entry for each key.\<close>

interpretation env_map: keyed_map AList.update map_of
  by unfold_locales (simp add: update_conv')

definition inherited_values :: "string list \<Rightarrow> (string \<times> string) list" where
  "inherited_values entries = fold (\<lambda>(k, v). AList.update k v) (List.map_filter cut_eq entries) []"

definition instance_values :: "string \<Rightarrow> string \<Rightarrow> string \<Rightarrow> (string \<times> string) list" where
  "instance_values home runtime socket =
     [(''JCODE_HOME'', home), (''JCODE_RUNTIME_DIR'', runtime), (''JCODE_API_SOCKET'', socket),
      (''JCODE_SOCKET'', join_path [runtime, ''jcode.sock''])]"

definition environment_values ::
    "string list \<Rightarrow> string \<Rightarrow> string \<Rightarrow> string \<Rightarrow> (string \<times> string) list \<Rightarrow> (string \<times> string) list" where
  "environment_values entries home runtime socket overrides =
     fold (\<lambda>(k, v). AList.update k v) (instance_values home runtime socket @ overrides) (inherited_values entries)"

definition launch_environment ::
    "string \<Rightarrow> string \<Rightarrow> string \<Rightarrow> (string \<times> string) list \<Rightarrow> os \<Rightarrow> string list" where
  "launch_environment home runtime socket overrides s =
     (let values = environment_values (environ s) home runtime socket overrides
      in map (\<lambda>k. k @ ''='' @ the (map_of values k)) (map_order s (map fst values)))"

definition clone_environment :: "(string \<times> string) list \<Rightarrow> (string \<times> string) list" where
  "clone_environment source = fold (\<lambda>(k, v). AList.update k v) source []"

section \<open>Diagnostics\<close>

definition secret_key :: "string \<Rightarrow> bool" where
  "secret_key k =
     (contains_text ''key'' (lower_text k) \<or> contains_text ''token'' (lower_text k) \<or>
      contains_text ''secret'' (lower_text k))"

definition redact_one :: "string \<times> string \<Rightarrow> string \<Rightarrow> string" where
  "redact_one kv text =
     (if snd kv \<noteq> [] \<and> secret_key (fst kv) then replace_all (snd kv) ''[REDACTED]'' text else text)"

definition redact_secrets :: "(string list \<Rightarrow> string list) \<Rightarrow> string \<Rightarrow> (string \<times> string) list \<Rightarrow> string" where
  "redact_secrets order text overrides =
     fold redact_one (map (\<lambda>k. (k, the (map_of overrides k))) (order (map fst overrides))) text"

definition read_tail :: "string \<Rightarrow> nat \<Rightarrow> string" where
  "read_tail data limit = trim_space (drop (length data - limit) data)"

text \<open>
  The goroutine that reads the child's standard error delivers its text when the environment says
  so; a timeout closes the pipe and looks once more.
\<close>

definition collect_stderr :: "bool \<Rightarrow> int \<Rightarrow> string io" where
  "collect_stderr piped timeout =
     (if \<not> piped then give []
      else do {
        s0 \<leftarrow> State_Monad.get;
        e \<leftarrow> tick;
        case stderr_out e of
          Some data \<Rightarrow> give (read_tail data 4000)
        | None \<Rightarrow> do {
            State (\<lambda>s. ((), s\<lparr>clock := max (clock s) (clock s0 + finite_duration timeout default_shutdown_reap_timeout)\<rparr>));
            e2 \<leftarrow> tick;
            give (case stderr_out e2 of Some data \<Rightarrow> read_tail data 4000 | None \<Rightarrow> [])
          }
      })"

definition launch_code_text :: "launch_code \<Rightarrow> string" where
  "launch_code_text c = (case c of
       LaunchMissingBinary \<Rightarrow> ''missing_binary''
     | LaunchStartupFailed \<Rightarrow> ''startup_failed''
     | LaunchStartupTimeout \<Rightarrow> ''startup_timeout''
     | LaunchHandshakeFailed \<Rightarrow> ''handshake_failed''
     | LaunchTransportFailed \<Rightarrow> ''transport_failed'')"

definition launch_error_code :: "gerr \<Rightarrow> launch_code" where
  "launch_error_code e = (case err_as_launch e of Some c \<Rightarrow> c | None \<Rightarrow> LaunchStartupFailed)"

section \<open>The binary and the socket\<close>

definition select_binary :: "string \<Rightarrow> string io" where
  "select_binary explicit =
     (if explicit \<noteq> [] then give explicit
      else do {
        s \<leftarrow> State_Monad.get;
        case executable s of
          Inl _ \<Rightarrow> give ''jcode''
        | Inr current \<Rightarrow> do {
            i \<leftarrow> stat (join_path [dir_path current, ''jcode'']);
            give (case i of
                Inr n \<Rightarrow> if is_dir n then ''jcode'' else join_path [dir_path current, ''jcode'']
              | Inl _ \<Rightarrow> ''jcode'')
          }
      })"

definition dial_unix :: "string \<Rightarrow> (gerr + unit) io" where
  "dial_unix path = syscall ''dial'' path (faulty (\<lambda>s. (case look True path s of
       Inl n \<Rightarrow> Inl n
     | Inr (_, n) \<Rightarrow> if is_socket n then Inr () else Inl ENXIO, s)))"

definition socket_accepts :: "string \<Rightarrow> bool io" where
  "socket_accepts path = do {
     r \<leftarrow> dial_unix path;
     give (case r of Inl _ \<Rightarrow> False | Inr _ \<Rightarrow> True)
   }"

definition api_socket_path :: "os \<Rightarrow> string" where
  "api_socket_path s =
     (if getenv ''JCODE_API_SOCKET'' s \<noteq> [] then getenv ''JCODE_API_SOCKET'' s
      else if getenv ''JCODE_RUNTIME_DIR'' s \<noteq> [] then join_path [getenv ''JCODE_RUNTIME_DIR'' s, ''jcode-api.sock'']
      else if getenv ''XDG_RUNTIME_DIR'' s \<noteq> [] then join_path [getenv ''XDG_RUNTIME_DIR'' s, ''jcode-api.sock'']
      else case user_home_dir s of
        Inr home \<Rightarrow> join_path [home, ''.jcode'', ''run'', ''jcode-api.sock'']
      | Inl _ \<Rightarrow> join_path [temp_dir s, ''jcode-api.sock''])"

end
