(* ===== verification/LaunchDiagnostics.thy ===== *)
theory LaunchDiagnostics imports Launch begin

text \<open>
  What the child gets and what of it may come back: its environment, and the redaction of secrets in
  its diagnostics.
\<close>

section \<open>Environment\<close>

lemma distinct_fold_update:
  "distinct (map fst m) \<Longrightarrow> distinct (map fst (fold (\<lambda>(k, v). AList.update k v) kvs m))"
  by (induction kvs arbitrary: m) (auto simp: distinct_update)

lemma map_of_rev_distinct: "distinct (map fst xs) \<Longrightarrow> map_of (rev xs) = map_of xs"
proof (induction xs)
  case (Cons x xs)
  then have "map_of xs (fst x) = None" by (simp add: map_of_eq_None_iff)
  with Cons show ?case
    by (cases x) (auto simp: map_of_append map_add_def fun_eq_iff split: option.split)
qed simp

lemma environment_lookup:
  assumes "distinct (map fst overrides)"
  shows "map_of (environment_values entries home runtime socket overrides) =
    map_of (rev (List.map_filter cut_eq entries)) ++ map_of (instance_values home runtime socket) ++ map_of overrides"
proof -
  have d: "distinct (map fst (instance_values home runtime socket))"
    by (simp add: instance_values_def)
  have lookup: "map_of (fold (\<lambda>(k, v). AList.update k v) kvs m) = map_of m ++ map_of (rev kvs)" for kvs m :: "(string \<times> string) list"
    by (intro ext) (simp add: env_map.get_fold_put map_add_def)
  show ?thesis
    using map_of_rev_distinct [OF assms] map_of_rev_distinct [OF d]
    by (simp add: environment_values_def inherited_values_def lookup)
qed

text \<open>C22: the child's environment has one entry for each variable, and its value is the caller's if the
  caller set one, else the instance's if it is one of the instance's four, else the last one the
  parent had.\<close>

theorem launch_environment_exact:
  assumes "distinct (map fst overrides)" and "\<forall>xs. mset (map_order s xs) = mset xs"
  shows "\<exists>vals. mset (launch_environment home runtime socket overrides s) = mset (map (\<lambda>(k, v). k @ ''='' @ v) vals) \<and>
    distinct (map fst vals) \<and>
    map_of vals = map_of (rev (List.map_filter cut_eq (environ s))) ++
      map_of (instance_values home runtime socket) ++ map_of overrides"
proof -
  let ?v = "environment_values (environ s) home runtime socket overrides"
  let ?f = "\<lambda>k. k @ ''='' @ the (map_of ?v k)"
  have d: "distinct (map fst ?v)"
    by (simp add: environment_values_def inherited_values_def distinct_fold_update)
  have "mset (launch_environment home runtime socket overrides s) = image_mset ?f (mset (map_order s (map fst ?v)))"
    by (simp add: launch_environment_def Let_def)
  also have "\<dots> = mset (map ?f (map fst ?v))" using assms(2) by (simp add: multiset.map_comp)
  also have "map ?f (map fst ?v) = map (\<lambda>(k, v). k @ ''='' @ v) ?v"
    using d by (auto simp: map_of_is_SomeI)
  finally show ?thesis using d environment_lookup [OF assms(1)] by blast
qed

theorem launch_environment_exact_witness:
  "\<exists>vals. mset (launch_environment ''/h'' ''/h/run'' ''/h/run/jcode-api.sock'' [(''JCODE_HOME'', ''/x''), (''K'', ''v'')]
       \<lparr>files = [], cwd = [], clock = 0, plan = [], environ = [''A=1'', ''A=2'', ''bad''], executable = Inr ''/b'',
        wait_done = NotStarted, force_kill = False, map_order = rev, trace = []\<rparr>) =
     mset (map (\<lambda>(k, v). k @ ''='' @ v) vals) \<and>
   map_of vals ''A'' = Some ''2'' \<and> map_of vals ''JCODE_HOME'' = Some ''/x'' \<and>
   map_of vals ''JCODE_RUNTIME_DIR'' = Some ''/h/run''"
proof -
  let ?s = "\<lparr>files = [], cwd = [], clock = 0, plan = [], environ = [''A=1'', ''A=2'', ''bad''], executable = Inr ''/b'',
      wait_done = NotStarted, force_kill = False, map_order = rev, trace = []\<rparr>"
  have "distinct (map fst [(''JCODE_HOME'', ''/x''), (''K'', ''v'')])" by simp
  moreover have "\<forall>xs. mset (map_order ?s xs) = mset xs" by simp
  ultimately obtain vals where v: "mset (launch_environment ''/h'' ''/h/run'' ''/h/run/jcode-api.sock''
       [(''JCODE_HOME'', ''/x''), (''K'', ''v'')] ?s) = mset (map (\<lambda>(k, v). k @ ''='' @ v) vals)"
    and m: "map_of vals = map_of (rev (List.map_filter cut_eq (environ ?s))) ++
      map_of (instance_values ''/h'' ''/h/run'' ''/h/run/jcode-api.sock'') ++
      map_of [(''JCODE_HOME'', ''/x''), (''K'', ''v'')]"
    using launch_environment_exact [of "[(''JCODE_HOME'', ''/x''), (''K'', ''v'')]" ?s] by blast
  have "List.map_filter cut_eq (environ ?s) = [(''A'', ''1''), (''A'', ''2'')]"
    by code_simp
  with m have "map_of vals ''A'' = Some ''2'' \<and> map_of vals ''JCODE_HOME'' = Some ''/x'' \<and>
      map_of vals ''JCODE_RUNTIME_DIR'' = Some ''/h/run''"
    by (simp add: instance_values_def map_add_def)
  with v show ?thesis by blast
qed

section \<open>Redaction\<close>

lemma contains_text_iff: "contains_text sub s \<longleftrightarrow> (\<exists>a b. s = a @ sub @ b)"
proof (induction s)
  case Nil
  show ?case by (subst contains_text.simps) (auto simp: prefix_def)
next
  case (Cons c s)
  have "(\<exists>a b. c # s = a @ sub @ b) \<longleftrightarrow> (\<exists>b. c # s = sub @ b) \<or> (\<exists>a b. s = a @ sub @ b)"
    by (metis append_Cons append_Nil neq_Nil_conv list.inject)
  with Cons show ?case by (subst contains_text.simps) (auto simp: prefix_def)
qed

text \<open>The parts of a text between the occurrences that are replaced.\<close>

function pieces :: "string \<Rightarrow> string \<Rightarrow> string list" where
  "pieces old s =
     (case s of
        [] \<Rightarrow> [[]]
      | c # t \<Rightarrow>
          if old \<noteq> [] \<and> prefix old (c # t) then [] # pieces old (drop (length old) (c # t))
          else case pieces old t of p # ps \<Rightarrow> (c # p) # ps | [] \<Rightarrow> [[c]])"
  by pat_completeness auto
termination
  by (relation "measure (\<lambda>(_, s). length s)") (auto simp: neq_Nil_conv)

declare pieces.simps [simp del]

fun join_with :: "string \<Rightarrow> string list \<Rightarrow> string" where
  "join_with m [] = []"
| "join_with m [p] = p"
| "join_with m (p # q # ps) = p @ m @ join_with m (q # ps)"

lemma pieces_ne: "pieces old s \<noteq> []"
  by (cases s; subst pieces.simps) (auto split: list.split)

lemma join_with_Cons: "ps \<noteq> [] \<Longrightarrow> join_with m (p # ps) = p @ m @ join_with m ps"
  by (cases ps) simp_all

lemma join_with_head: "join_with m ((c # p) # ps) = c # join_with m (p # ps)"
  by (cases ps) simp_all

lemma join_pieces:
  "join_with new (pieces old s) = replace_all old new s \<and> join_with old (pieces old s) = s"
proof (induction old s rule: pieces.induct)
  case (1 old s)
  show ?case
  proof (cases s)
    case Nil
    then show ?thesis by (simp add: pieces.simps [of old "[]"] replace_all.simps [of old new "[]"])
  next
    case (Cons c t)
    show ?thesis
    proof (cases "old \<noteq> [] \<and> prefix old (c # t)")
      case True
      then have "old @ drop (length old) s = s" using Cons by (auto simp: prefix_def)
      with True Cons 1(1) [OF Cons True] show ?thesis
        by (subst (1 2) pieces.simps, subst replace_all.simps) (simp add: join_with_Cons pieces_ne)
    next
      case False
      obtain p ps where p: "pieces old t = p # ps" using pieces_ne by (cases "pieces old t") auto
      have "pieces old s = (c # p) # ps" using Cons False p by (subst pieces.simps) auto
      moreover have "replace_all old new s = c # replace_all old new t"
        using Cons False by (subst replace_all.simps) auto
      ultimately show ?thesis using 1(2) [OF Cons False] p Cons by (simp add: join_with_head)
    qed
  qed
qed

lemma first_piece: "pieces old s = p # ps \<Longrightarrow> \<exists>r. s = p @ r"
  using join_pieces [of "[]" old s] by (cases ps) auto

lemma pieces_free: "old \<noteq> [] \<Longrightarrow> p \<in> set (pieces old s) \<Longrightarrow> \<not> contains_text old p"
proof (induction old s arbitrary: p rule: pieces.induct)
  case (1 old s)
  have nil: "\<not> contains_text old []" using 1(3) by (simp add: contains_text_iff)
  show ?case
  proof (cases s)
    case Nil
    with 1(4) nil show ?thesis by (simp add: pieces.simps [of old "[]"])
  next
    case (Cons c t)
    show ?thesis
    proof (cases "old \<noteq> [] \<and> prefix old (c # t)")
      case True
      then have "pieces old s = [] # pieces old (drop (length old) (c # t))"
        using Cons by (subst pieces.simps) simp
      with 1(1) [OF Cons True 1(3)] 1(4) nil show ?thesis by auto
    next
      case False
      obtain q ps where q: "pieces old t = q # ps" using pieces_ne by (cases "pieces old t") auto
      have e: "pieces old s = (c # q) # ps" using Cons False q by (subst pieces.simps) auto
      note IH = 1(2) [OF Cons False 1(3)]
      show ?thesis
      proof (cases "p = c # q")
        case True
        obtain r where "t = q @ r" using first_piece [OF q] by blast
        then have "\<not> prefix old (c # q)" using False 1(3) prefix_prefix [of old "c # q" r] by auto
        then show ?thesis unfolding True using IH [of q] q by (subst contains_text.simps) simp
      next
        case False
        with e 1(4) q IH show ?thesis by auto
      qed
    qed
  qed
qed

text \<open>A text without the marker's brackets lies on one side of a bracket.\<close>

lemma contains_split:
  assumes "contains_text w (x @ b # y)" "b \<notin> set w" "w \<noteq> []"
  shows "contains_text w x \<or> contains_text w y"
proof -
  obtain l r where "x @ b # y = l @ w @ r" using assms(1) by (auto simp: contains_text_iff)
  then consider us where "x @ us = l" "b # y = us @ w @ r" | us where "x = l @ us" "us @ b # y = w @ r"
    by (auto simp: append_eq_append_conv2)
  then show ?thesis
  proof cases
    case 1
    with assms(2,3) show ?thesis by (cases us; cases w) (auto simp: contains_text_iff)
  next
    case 2
    then consider vs where "us @ vs = w" "b # y = vs @ r" | vs where "us = w @ vs"
      by (auto simp: append_eq_append_conv2)
    then show ?thesis
    proof cases
      case 1
      with assms(2) have "vs = []" by (cases vs) auto
      with 1 2(1) show ?thesis unfolding contains_text_iff by (metis append_Nil2)
    next
      case (2 vs)
      with \<open>x = l @ us\<close> show ?thesis by (auto simp: contains_text_iff)
    qed
  qed
qed

lemma contains_self: "contains_text w (a @ w @ b)"
  by (auto simp: contains_text_iff)

lemma contains_mono: "contains_text w s \<Longrightarrow> contains_text w (a @ s @ b)"
  unfolding contains_text_iff by (metis append.assoc)

lemma piece_in_text: "p \<in> set ps \<Longrightarrow> contains_text p (join_with m ps)"
proof (induction m ps rule: join_with.induct)
  case (3 m p' q ps)
  then show ?case
    using contains_self [of p "[]" "m @ join_with m (q # ps)"] contains_mono [of p "join_with m (q # ps)" "p' @ m" "[]"]
    by auto
qed (auto simp: contains_text_iff intro: exI [of _ "[]"])

lemma contains_trans: "contains_text a b \<Longrightarrow> contains_text b c \<Longrightarrow> contains_text a c"
  using contains_mono by (metis contains_text_iff)

definition hidden :: "string \<Rightarrow> bool" where
  "hidden w \<longleftrightarrow> w \<noteq> [] \<and> CHR ''['' \<notin> set w \<and> CHR '']'' \<notin> set w \<and> \<not> contains_text w ''REDACTED''"

lemma contains_marked:
  assumes "hidden w" "ps \<noteq> []" "contains_text w (join_with ''[REDACTED]'' ps)"
  shows "\<exists>p \<in> set ps. contains_text w p"
  using assms(2,3)
proof (induction "''[REDACTED]''" ps rule: join_with.induct)
  case (3 p q ps)
  let ?r = "join_with ''[REDACTED]'' (q # ps)"
  have "contains_text w (p @ CHR ''['' # (''REDACTED'' @ CHR '']'' # ?r))" using 3(3) by simp
  then have "contains_text w p \<or> contains_text w (''REDACTED'' @ CHR '']'' # ?r)"
    using contains_split [of w p "CHR ''[''" "''REDACTED'' @ CHR '']'' # ?r"] assms(1)
    unfolding hidden_def by blast
  then have "contains_text w p \<or> contains_text w ?r"
    using contains_split [of w "''REDACTED''" "CHR '']''" ?r] assms(1) unfolding hidden_def by blast
  with 3 show ?case by auto
qed auto

lemma replace_marked:
  assumes "hidden w" "contains_text w (replace_all old ''[REDACTED]'' s)"
  shows "contains_text w s \<and> (old \<noteq> [] \<longrightarrow> w \<noteq> old)"
proof -
  have "contains_text w (join_with ''[REDACTED]'' (pieces old s))" using assms(2) join_pieces by simp
  then obtain p where p: "p \<in> set (pieces old s)" "contains_text w p"
    using contains_marked [OF assms(1) pieces_ne] by blast
  have "contains_text p s" using piece_in_text [OF p(1), of old] conjunct2 [OF join_pieces] by metis
  with p pieces_free [OF _ p(1)] show ?thesis by (blast intro: contains_trans)
qed

lemma redact_keeps: "hidden w \<Longrightarrow> contains_text w (fold redact_one kvs s) \<Longrightarrow> contains_text w s"
proof (induction kvs arbitrary: s)
  case (Cons kv kvs)
  then have c: "contains_text w (redact_one kv s)" by simp
  show ?case
  proof (cases "snd kv \<noteq> [] \<and> secret_key (fst kv)")
    case True
    with c have "contains_text w (replace_all (snd kv) ''[REDACTED]'' s)" by (simp only: redact_one_def if_True not_False_eq_True simp_thms)
    with replace_marked [OF Cons.prems(1)] show ?thesis by blast
  next
    case False
    with c show ?thesis by (simp only: redact_one_def if_False)
  qed
qed simp

lemma redact_removes:
  assumes "hidden v" "secret_key k" "(k, v) \<in> set kvs" shows "\<not> contains_text v (fold redact_one kvs text)"
proof -
  obtain xs ys where kvs: "kvs = xs @ (k, v) # ys" using assms(3) by (meson split_list)
  have "\<not> contains_text v (redact_one (k, v) (fold redact_one xs text))"
  proof -
    have "v \<noteq> []" using assms(1) by (simp add: hidden_def)
    then show ?thesis using replace_marked [OF assms(1), of v] assms(2) by (auto simp: redact_one_def)
  qed
  with redact_keeps [OF assms(1)] show ?thesis by (auto simp: kvs)
qed

text \<open>C21: no secret that the caller passes in the environment of the child comes back whole in an error:
  in whatever order the secrets are replaced, none of them is in the redacted text, unless it
  has a bracket or is a part of the marker itself.\<close>

theorem redaction_hides:
  assumes "\<forall>xs. set (order xs) = set xs" and "distinct (map fst overrides)"
    and "(k, v) \<in> set overrides" and "secret_key k" and "hidden v"
  shows "\<not> contains_text v (redact_secrets order text overrides)"
proof -
  have "map_of overrides k = Some v" using assms(2,3) by simp
  moreover have "k \<in> set (order (map fst overrides))" using assms(1,3) by force
  ultimately have "(k, v) \<in> set (map (\<lambda>k. (k, the (map_of overrides k))) (order (map fst overrides)))"
    by (auto intro!: image_eqI [of _ _ k])
  then show ?thesis unfolding redact_secrets_def using assms(4,5) by (intro redact_removes)
qed

theorem redaction_hides_witness:
  "\<not> contains_text ''sk1'' (redact_secrets rev ''sk1 t2'' [(''KEY'', ''sk1''), (''TOKEN'', ''t2'')])"
proof -
  have "secret_key ''KEY'' \<and> hidden ''sk1''" by code_simp
  then show ?thesis
    by (intro redaction_hides [where k = "''KEY''"]) simp_all
qed

text \<open>Secrets that overlap: replacing the shorter one first leaves the rest of the longer one readable.\<close>

theorem overlapping_secret_leaks:
  "redact_secrets id ''ab42'' [(''KEY'', ''ab''), (''TOKEN'', ''ab42'')] = ''[REDACTED]42'' \<and>
   redact_secrets rev ''ab42'' [(''KEY'', ''ab''), (''TOKEN'', ''ab42'')] = ''[REDACTED]''"
  by code_simp

end
