(* ===== verification/ProcessLaws.thy ===== *)
theory ProcessLaws imports Process LaunchCleanup begin

text \<open>
  Termination of a process group: which signals are sent in which order, that a nil error means
  the child was waited for, and how long an unresponsive child is given.
\<close>

section \<open>Relations kept by process calls\<close>

locale process_relation = os_relation R Q for R Q +
  assumes wait_rel: "R s (s\<lparr>wait_done := w\<rparr>)"
begin

lemma poll_rel: "state_io_rel R poll_wait"
  unfolding poll_wait_def
  by (rule bind_rel [OF tick_rel]) (auto simp: state_io_rel_def R_refl wait_rel split: wait_chan.split)

lemma receive_rel: "state_io_rel R receive_wait"
  unfolding receive_wait_def
  by (rule bind_rel [OF tick_rel]) (auto simp: state_io_rel_def R_refl wait_rel split: wait_chan.split)

lemma select_rel: "state_io_rel R (select_wait timeout forcible)"
  unfolding state_io_rel_def
proof
  fix s
  obtain e s1 where t: "run_state tick s = (e, s1)" by fastforce
  then have "R s s1" using tick_rel by (auto dest: state_io_relD)
  let ?d = "clock s + timeout"
  have "R s1 (s1\<lparr>clock := ?d\<rparr>)" if "\<not> ?d \<le> clock s1"
    using clock_rel [of "?d - clock s1" s1] that by simp
  moreover have "\<not> ?d \<le> clock s1" if "ready_cases ?d forcible s1 = []"
    using that by (auto simp: ready_cases_def split: if_splits)
  ultimately have "R s1 (snd (run_state (select_wait timeout forcible) s))"
    by (auto simp: select_wait_def t R_refl wait_rel split: list.split ready.split)
  with \<open>R s s1\<close> show "R s (snd (run_state (select_wait timeout forcible) s))" by (rule R_trans)
qed

lemma emit_rel: "Q (AObserve kind err) \<Longrightarrow> state_io_rel R (emit_launch observed kind err)"
  unfolding emit_launch_def by (intro if_rel record_rel return_rel)

lemma kill_rel: "Q (AKill pid sig) \<Longrightarrow> state_io_rel R (kill pid sig)"
  unfolding kill_def by (intro bind_rel record_rel sys_rel faulty_rel) (simp_all add: R_refl)

lemma probe_rel: "state_io_rel R (probe pid)"
  unfolding probe_def by (intro sys_rel faulty_rel) (simp add: R_refl)

lemma wait_start_rel: "state_io_rel R wait_for_command_exit"
  by (simp add: wait_for_command_exit_def state_io_rel_def wait_rel)

end

interpretation clk_process: process_relation later "\<lambda>_. True"
  by unfold_locales (simp add: later_def)

interpretation acts_process: process_relation "acts P" P for P
  by unfold_locales (auto simp: acts_def)

interpretation inside_process: process_relation "within v P" P for v P
  by unfold_locales (auto simp: within_def acts_def same_env_def)

section \<open>Signals\<close>

definition is_kill :: "os_act \<Rightarrow> bool" where
  "is_kill a = (case a of AKill _ _ \<Rightarrow> True | _ \<Rightarrow> False)"

definition kills :: "os \<Rightarrow> os_act list" where
  "kills s = filter is_kill (trace s)"

definition silent :: "os \<Rightarrow> os \<Rightarrow> bool" where
  "silent s t \<longleftrightarrow> kills t = kills s"

interpretation silent: process_relation silent "\<lambda>a. \<not> is_kill a"
  by unfold_locales (auto simp: silent_def kills_def state_io_rel_def tick_def settle_def split: list.split)

definition emits :: "'a io \<Rightarrow> os_act list set \<Rightarrow> bool" where
  "emits m X \<longleftrightarrow> (\<forall>s. \<exists>xs \<in> X. kills (snd (run_state m s)) = kills s @ xs)"

lemma emits_silent: "state_io_rel silent m \<Longrightarrow> [] \<in> X \<Longrightarrow> emits m X"
  by (auto simp: emits_def state_io_rel_def silent_def intro!: bexI [of _ "[]"])

lemma emits_bind:
  assumes "emits m X" "\<And>r. emits (f r) {ys. \<forall>xs \<in> X. xs @ ys \<in> Z}" shows "emits (m \<bind> f) Z"
  unfolding emits_def
proof
  fix s
  obtain r t where m: "run_state m s = (r, t)" by fastforce
  obtain xs where xs: "xs \<in> X" "kills t = kills s @ xs" using assms(1) m by (metis emits_def snd_conv)
  obtain ys where "\<forall>xs \<in> X. xs @ ys \<in> Z" "kills (snd (run_state (f r) t)) = kills t @ ys"
    using assms(2) [of r] unfolding emits_def by blast
  with xs m show "\<exists>xs \<in> Z. kills (snd (run_state (m \<bind> f) s)) = kills s @ xs" by auto
qed

lemma emits_bind_silent:
  "state_io_rel silent m \<Longrightarrow> (\<And>r. emits (f r) Z) \<Longrightarrow> emits (m \<bind> f) Z"
  by (rule emits_bind [where X = "{[]}"]) (auto intro: emits_silent)

lemma emits_if: "(b \<Longrightarrow> emits m X) \<Longrightarrow> (\<not> b \<Longrightarrow> emits n X) \<Longrightarrow> emits (if b then m else n) X"
  by simp

lemma emits_prod: "(\<And>a b. x = (a, b) \<Longrightarrow> emits (f a b) X) \<Longrightarrow> emits (case x of (a, b) \<Rightarrow> f a b) X"
  by (cases x) simp

lemma emits_signal:
  assumes "1 < pgid" shows "emits (signal_process_group pgid sig) {[AKill (- pgid) sig]}"
proof -
  have "kills (snd (run_state (kill pid sig) s)) = kills s @ [AKill pid sig]" for pid s
  proof -
    have "state_io_rel silent (syscall ''kill'' [] (faulty (\<lambda>s. (Inr (), s))))"
      by (intro silent.sys_rel silent.faulty_rel) (simp add: silent.R_refl)
    from this [unfolded state_io_rel_def silent_def, rule_format, of "s\<lparr>trace := trace s @ [AKill pid sig]\<rparr>"]
    show ?thesis by (simp add: kill_def record_act_def kills_def is_kill_def)
  qed
  then show ?thesis using assms
    by (simp add: emits_def signal_process_group_def split: prod.split) (metis snd_conv)
qed

lemma silent_rules:
  "state_io_rel silent (emit_launch observed kind err)" "state_io_rel silent (process_group_alive pgid)"
  "state_io_rel silent (reap_and_report observed pgid reap triggered errs)"
proof -
  show e: "state_io_rel silent (emit_launch observed kind err)" for observed kind err
    by (rule silent.emit_rel) (simp add: is_kill_def)
  show "state_io_rel silent (process_group_alive pgid)"
    unfolding process_group_alive_def by (intro silent.control_rel silent.probe_rel)
  show "state_io_rel silent (reap_and_report observed pgid reap triggered errs)"
    unfolding reap_and_report_def wait_for_process_reap_def
    by (intro silent.control_rel silent.select_rel e)
qed

text \<open>C13: terminating a process group signals that group alone, and nothing at all for a group
  number that could name other processes: it asks with SIGTERM first, and forces with SIGKILL
  only after that, each at most once.\<close>

theorem termination_signals:
  "\<exists>l \<in> (if pgid \<le> 1 then {[]}
       else {[], [AKill (- pgid) SIGTERM], [AKill (- pgid) SIGTERM, AKill (- pgid) SIGKILL]}).
     kills (snd (run_state (terminate_process_observed pgid grace reap forcible observed) s)) = kills s @ l"
proof (cases "pgid \<le> 1")
  case True
  then show ?thesis by (simp add: terminate_process_observed_def terminate_process_group_def)
next
  case False
  let ?T = "AKill (- pgid) SIGTERM" and ?K = "AKill (- pgid) SIGKILL"
  have sig: "emits (signal_process_group pgid x) {[AKill (- pgid) x]}" for x
    using emits_signal False by simp
  have "emits (terminate_process_observed pgid grace reap forcible observed) {[], [?T], [?T, ?K]}"
    using False
    unfolding terminate_process_observed_def terminate_process_group_def Let_def
    by (simp only: if_False process_group_operations.simps)
      (intro emits_bind_silent [OF silent.poll_rel] emits_bind_silent [OF silent.select_rel]
        emits_bind_silent [OF silent_rules(1)] emits_bind_silent [OF silent_rules(2)] emits_bind [OF sig]
        emits_if emits_prod emits_silent silent.return_rel silent_rules; simp)
  with False show ?thesis by (simp add: emits_def)
qed

section \<open>A nil error means the child was waited for\<close>

definition hoare :: "(os \<Rightarrow> bool) \<Rightarrow> 'a io \<Rightarrow> ('a \<Rightarrow> os \<Rightarrow> bool) \<Rightarrow> bool" where
  "hoare P m Q \<longleftrightarrow> (\<forall>s. P s \<longrightarrow> Q (fst (run_state m s)) (snd (run_state m s)))"

abbreviation reaped :: "bool \<Rightarrow> os \<Rightarrow> bool" where
  "reaped b s \<equiv> b \<longrightarrow> wait_done s = Reaped"

lemma hoare_bind:
  "hoare P m B \<Longrightarrow> (\<And>r. hoare (B r) (f r) Q) \<Longrightarrow> hoare P (m \<bind> f) Q"
  by (auto simp: hoare_def split: prod.split)

lemma join_all_None [simp]: "join_all es = None \<longleftrightarrow> es = []"
  by (cases es) simp_all

lemma hoare_ret: "(\<And>s. P s \<Longrightarrow> Q x s) \<Longrightarrow> hoare P (give x) Q"
  by (simp add: hoare_def)

lemma hoare_if: "(b \<Longrightarrow> hoare P m Q) \<Longrightarrow> (\<not> b \<Longrightarrow> hoare P n Q) \<Longrightarrow> hoare P (if b then m else n) Q"
  by simp

lemma hoare_prod: "(\<And>a b. x = (a, b) \<Longrightarrow> hoare P (f a b) Q) \<Longrightarrow> hoare P (case x of (a, b) \<Rightarrow> f a b) Q"
  by (cases x) simp

lemma hoare_option: "(x = None \<Longrightarrow> hoare P m Q) \<Longrightarrow> (\<And>b. x = Some b \<Longrightarrow> hoare P (g b) Q) \<Longrightarrow>
    hoare P (case x of None \<Rightarrow> m | Some b \<Rightarrow> g b) Q"
  by (cases x) simp_all

lemma hoare_any: "(\<And>r. hoare (reaped False) (f r) Q) \<Longrightarrow> hoare P (m \<bind> f) Q"
  by (rule hoare_bind [where B = "\<lambda>_. reaped False"]) (simp_all add: hoare_def)

lemma hoare_poll: "(\<And>r. hoare (reaped r) (f r) Q) \<Longrightarrow> hoare P (poll_wait \<bind> f) Q"
  by (rule hoare_bind [where B = reaped])
    (simp_all add: hoare_def poll_wait_def split: prod.split wait_chan.split)

lemma hoare_select:
  "(\<And>r. hoare (reaped (r = WaitReady)) (f r) Q) \<Longrightarrow> hoare P (select_wait timeout forcible \<bind> f) Q"
  by (rule hoare_bind [where B = "\<lambda>r. reaped (r = WaitReady)"])
    (simp_all add: hoare_def select_wait_def split: prod.split list.split ready.split)

lemma hoare_emit: "hoare (reaped b) (f ()) Q \<Longrightarrow> hoare (reaped b) (emit_launch observed kind err \<bind> f) Q"
  by (rule hoare_bind [where B = "\<lambda>_. reaped b"])
    (simp_all add: hoare_def emit_launch_def record_act_def)

lemma hoare_reap:
  "hoare P (reap_and_report observed pgid reap triggered errs) (\<lambda>r. reaped (snd r = None))"
  unfolding reap_and_report_def wait_for_process_reap_def bind_assoc
  by (rule hoare_select, simp only: State_Monad.bind_left_identity, rule hoare_option)
    (auto simp: hoare_def emit_launch_def record_act_def split: if_splits)

text \<open>C24: when terminating a process group reports no error, the child's wait result has been received:
  no child is left behind as a zombie.\<close>

theorem termination_reaps:
  assumes "run_state (terminate_process_observed pgid grace reap forcible observed) s = ((triggered, None), t)"
  shows "wait_done t = Reaped"
proof -
  have "hoare (reaped False) (terminate_process_observed pgid grace reap forcible observed) (\<lambda>r. reaped (snd r = None))"
    unfolding terminate_process_observed_def terminate_process_group_def Let_def
    by (simp only: process_group_operations.simps)
      (intro hoare_if hoare_poll hoare_select hoare_emit hoare_prod hoare_reap hoare_any; auto intro: hoare_ret)
  with assms show ?thesis by (auto simp: hoare_def split_def) (metis fst_conv snd_conv)
qed

text \<open>A child that exits during the grace period.\<close>

definition exiting_child :: os where
  "exiting_child = shared_login\<lparr>wait_done := Running,
     plan := [quiet, quiet, quiet\<lparr>exits := Some None\<rparr>]\<rparr>"

theorem termination_reaps_witness:
  "wait_done (snd (run_state (terminate_process_observed 7 0 0 True False) exiting_child)) = Reaped"
proof -
  have "fst (run_state (terminate_process_observed 7 0 0 True False) exiting_child) = (False, None)"
    by code_simp
  then have "run_state (terminate_process_observed 7 0 0 True False) exiting_child =
      ((False, None), snd (run_state (terminate_process_observed 7 0 0 True False) exiting_child))"
    by (metis prod.collapse)
  then show ?thesis by (rule termination_reaps)
qed

section \<open>How long an unresponsive child is given\<close>

lemma finite_positive: "0 < d \<Longrightarrow> 0 < finite_duration v d"
  by (simp add: finite_duration_def)

lemma defaults_positive:
  "0 < default_shutdown_grace_period" "0 < default_shutdown_reap_timeout" "0 < default_cleanup_timeout"
  by (simp_all add: default_shutdown_grace_period_def default_shutdown_reap_timeout_def
      default_cleanup_timeout_def seconds_def)



end
