(* ===== verification/LaunchInstance.thy ===== *)
theory LaunchInstance imports Launch ProcessLaws begin

text \<open>
  Starting an instance, step by step as \<^verbatim>\<open>launchInstanceWithObserver\<close> does it, and the calls built on it:
  \<^verbatim>\<open>LaunchInstance\<close>, \<^verbatim>\<open>Launch\<close> and \<^verbatim>\<open>Connect\<close>.  The handshake of the client is a choice of the environment
  here; the client itself is the subject of the theory \<^verbatim>\<open>Client\<close>.
\<close>

section \<open>The instance's home\<close>

text \<open>\<^verbatim>\<open>os.MkdirTemp\<close>: the environment picks the random number; a name in use is tried again.\<close>

definition temp_prefix :: "string \<Rightarrow> os \<Rightarrow> string" where
  "temp_prefix pre s =
     (let d = temp_dir s in if last d = CHR ''/'' then d @ pre else d @ CHR ''/'' # pre)"

function mkdir_temp_tries :: "nat \<Rightarrow> string \<Rightarrow> (gerr + string) io" where
  "mkdir_temp_tries n pre = do {
     e \<leftarrow> tick;
     let name = pre @ nat_text (pick e mod 4294967296);
     r \<leftarrow> make_dir name 448;
     case r of
       Inr _ \<Rightarrow> give (Inr name)
     | Inl err \<Rightarrow>
         if is_exist err \<and> Suc n < 10000 then mkdir_temp_tries (Suc n) pre
         else give (Inl err)
   }"
  by pat_completeness auto
termination
  by (relation "measure (\<lambda>(n, _). 10000 - n)") auto

declare mkdir_temp_tries.simps [simp del]

definition mkdir_temp :: "string \<Rightarrow> (gerr + string) io" where
  "mkdir_temp pre = do { s \<leftarrow> State_Monad.get; mkdir_temp_tries 0 (temp_prefix pre s) }"

definition absolute_path :: "string \<Rightarrow> (gerr + string) io" where
  "absolute_path path =
     (if is_abs path then give (Inr (clean path))
      else syscall ''getwd'' [] (faulty (\<lambda>s. (Inr (join_path [path_text True (cwd s), path]), s))))"

definition startup_failed :: "gerr \<Rightarrow> gerr" where
  "startup_failed e = LaunchErr LaunchStartupFailed [] [] (Some e)"

definition remove_if_ephemeral :: "bool \<Rightarrow> string \<Rightarrow> unit io" where
  "remove_if_ephemeral eph home =
     (if eph then do { _ \<leftarrow> remove_owned_instance_home home default_cleanup_timeout; give () } else give ())"

definition prepare_home :: "launch_options \<Rightarrow> (gerr + string) io" where
  "prepare_home o1 = (let eph = (l_jcode_home o1 = []) in do {
     h \<leftarrow> (if eph then mkdir_temp instance_home_prefix else give (Inr (l_jcode_home o1)));
     case h of
       Inl e \<Rightarrow> give (Inl (startup_failed e))
     | Inr home0 \<Rightarrow> do {
         a \<leftarrow> absolute_path home0;
         case a of
           Inl e \<Rightarrow> do {
             remove_if_ephemeral eph home0;
             give (Inl (startup_failed (WrapE ''resolve instance home'' e)))
           }
         | Inr home \<Rightarrow> do {
             p \<leftarrow> ensure_private_directory home;
             case p of
               Some e \<Rightarrow> do { remove_if_ephemeral eph home; give (Inl (startup_failed e)) }
             | None \<Rightarrow> do {
                 q \<leftarrow> ensure_private_directory (join_path [home, ''run'']);
                 case q of
                   Some e \<Rightarrow> do {
                     remove_if_ephemeral eph home;
                     give (Inl (startup_failed (WrapE ''prepare instance runtime directory'' e)))
                   }
                 | None \<Rightarrow> give (Inr home)
               }
           }
       }
   })"

definition inherit_launch_credentials :: "launch_options \<Rightarrow> string \<Rightarrow> (gerr + launch_options) io" where
  "inherit_launch_credentials o1 home = do {
     s \<leftarrow> State_Monad.get;
     r \<leftarrow> inherit_credentials (user_jcode_home s) home;
     give (case r of
         Inl e \<Rightarrow> Inl e
       | Inr inherited \<Rightarrow>
           if legacy_codex_auth_destination \<notin> set inherited then Inr o1
           else let env = clone_environment (l_env o1) in
             Inr (o1\<lparr>l_env := if map_of env allow_legacy_codex_auth_env = None
                 then AList.update allow_legacy_codex_auth_env ''1'' env else env\<rparr>))
   }"

section \<open>Waiting for the socket\<close>

datatype startup = SocketReady | ChildExited "gerr option" | StartupTimeout

lemma wait_advances:
  assumes "(t, s1) = run_state now s" "t < deadline" "(acc, s2) = run_state (socket_accepts socket) s1"
    "(r, s3) = run_state receive_wait s2"
  shows "clock s < deadline \<and> clock s < clock (snd (run_state (sleep 25000000) s3))"
proof -
  have "state_io_rel later (socket_accepts socket)"
    unfolding socket_accepts_def dial_unix_def
    by (intro clk.control_rel clk.sys_rel clk.faulty_rel) (simp_all add: clk.R_refl)
  from laterD [OF this assms(3) [symmetric]] laterD [OF clk_process.receive_rel assms(4) [symmetric]]
    run_now [OF assms(1) [symmetric]] run_sleep [of 25000000 s3] assms(2)
  show ?thesis by (auto simp: prod_eq_iff)
qed

function launch_wait :: "string \<Rightarrow> int \<Rightarrow> os \<Rightarrow> startup \<times> os" where
  "launch_wait socket deadline s =
     (case run_state now s of (t, s1) \<Rightarrow>
        if t < deadline then
          (case run_state (socket_accepts socket) s1 of (accepted, s2) \<Rightarrow>
             if accepted then (SocketReady, s2)
             else (case run_state receive_wait s2 of
                 (Some e, s3) \<Rightarrow> (ChildExited e, s3)
               | (None, s3) \<Rightarrow> launch_wait socket deadline (snd (run_state (sleep 25000000) s3))))
        else (StartupTimeout, s1))"
  by pat_completeness auto
termination
  by (relation "measure (\<lambda>(_, d, s). nat (d - clock s))") (simp_all, use wait_advances in blast)

declare launch_wait.simps [simp del]

section \<open>Starting the bridge\<close>

definition new_instance :: "launch_options \<Rightarrow> string \<Rightarrow> bool \<Rightarrow> bool \<Rightarrow> int \<Rightarrow> int \<Rightarrow> launched" where
  "new_instance o1 home eph obs pgid pid =
     (let runtime = join_path [home, ''run''] in
      \<lparr>socket_path = join_path [runtime, ''jcode-api.sock''], jcode_home = home, runtime_dir = runtime,
       owned_paths = instance_owned_runtime_paths runtime, ephemeral = eph,
       cleanup_timeout = l_cleanup_timeout o1, grace_period = l_grace_period o1,
       reap_timeout = l_reap_timeout o1, has_cmd = True, process_group_id = pgid, daemon_pid = pid,
       observed = obs, shutdown_started = False, shutdown_finished = False, shutdown_done = None,
       shutdown_force_kill = None, force_kill_once = False, context_errs = [], shutdown_err = None\<rparr>)"

definition clean_up_instance :: "launch_options \<Rightarrow> string \<Rightarrow> bool \<Rightarrow> unit io" where
  "clean_up_instance o1 home eph = do {
     _ \<leftarrow> cleanup_owned_instance_paths home (join_path [home, ''run''])
            (instance_owned_runtime_paths (join_path [home, ''run''])) eph (l_cleanup_timeout o1);
     give ()
   }"

definition stderr_pipe :: "bool \<Rightarrow> (gerr + unit) io" where
  "stderr_pipe inherit = (if inherit then give (Inr ()) else syscall ''pipe'' [] (faulty (\<lambda>s. (Inr (), s))))"

text \<open>From the started process to the instance or the error.\<close>

definition await_bridge ::
    "launch_options \<Rightarrow> string \<Rightarrow> bool \<Rightarrow> bool \<Rightarrow> string \<Rightarrow> int \<Rightarrow> (gerr + launched) io" where
  "await_bridge o1 home eph obs bin pgid =
     (let runtime = join_path [home, ''run'']; socket = join_path [runtime, ''jcode-api.sock''] in do {
        emit_launch obs ''launch_process_started'' [];
        wait_for_command_exit;
        emit_launch obs ''launch_wait_socket'' [];
        t \<leftarrow> now;
        r \<leftarrow> State (launch_wait socket (t + startup_timeout o1));
        s \<leftarrow> State_Monad.get;
        case r of
          SocketReady \<Rightarrow> do {
            emit_launch obs ''launch_socket_ready'' [];
            pid \<leftarrow> read_daemon_pid home runtime;
            give (Inr (new_instance o1 home eph obs pgid pid))
          }
        | ChildExited err \<Rightarrow> do {
            text \<leftarrow> collect_stderr (\<not> inherit_stderr o1) (l_reap_timeout o1);
            clean_up_instance o1 home eph;
            emit_launch obs ''launch_process_error'' (launch_code_text LaunchStartupFailed);
            give (Inl (LaunchErr LaunchStartupFailed bin (redact_secrets (map_order s) text (l_env o1)) err))
          }
        | StartupTimeout \<Rightarrow> do {
            e \<leftarrow> terminate_process pgid (l_grace_period o1) (l_reap_timeout o1) False;
            text \<leftarrow> collect_stderr (\<not> inherit_stderr o1) (l_reap_timeout o1);
            clean_up_instance o1 home eph;
            emit_launch obs ''launch_socket_timeout'' (launch_code_text LaunchStartupTimeout);
            give (Inl (LaunchErr LaunchStartupTimeout bin (redact_secrets (map_order s) text (l_env o1))
              (err_join [Some (Plain (''no API socket at '' @ socket)), snd e])))
          }
      })"

definition start_bridge :: "launch_options \<Rightarrow> string \<Rightarrow> bool \<Rightarrow> bool \<Rightarrow> (gerr + launched) io" where
  "start_bridge o1 home eph obs =
     (let runtime = join_path [home, ''run'']; socket = join_path [runtime, ''jcode-api.sock''] in do {
        bin \<leftarrow> select_binary (binary o1);
        s \<leftarrow> State_Monad.get;
        p \<leftarrow> stderr_pipe (inherit_stderr o1);
        case p of
          Inl e \<Rightarrow> do {
            clean_up_instance o1 home eph;
            give (Inl (LaunchErr LaunchStartupFailed bin [] (Some e)))
          }
        | Inr _ \<Rightarrow> do {
            r \<leftarrow> start_process bin (launch_args o1 socket)
                  (if working_dir o1 = [] then ''.'' else working_dir o1)
                  (launch_environment home runtime socket (l_env o1) s);
            case r of
              Inl e \<Rightarrow> do {
                clean_up_instance o1 home eph;
                give (Inl (LaunchErr (if err_is e Os_ErrNotExist then LaunchMissingBinary else LaunchStartupFailed)
                  bin [] (Some e)))
              }
            | Inr pgid \<Rightarrow> await_bridge o1 home eph obs bin pgid
          }
      })"

fun remove_stale :: "string list \<Rightarrow> unit io" where
  "remove_stale [] = give ()"
| "remove_stale (p # ps) = do { _ \<leftarrow> remove_path p; remove_stale ps }"

definition launch_instance_with_observer :: "launch_options \<Rightarrow> bool \<Rightarrow> (gerr + launched) io" where
  "launch_instance_with_observer options obs =
     (let o1 = launch_with_defaults options; eph = (l_jcode_home options = []) in do {
        emit_launch obs ''launch_prepare'' [];
        h \<leftarrow> prepare_home o1;
        case h of
          Inl e \<Rightarrow> give (Inl e)
        | Inr home \<Rightarrow> do {
            remove_stale (instance_owned_runtime_paths (join_path [home, ''run'']));
            c \<leftarrow> (if inherit_logins o1 then inherit_launch_credentials o1 home else give (Inr o1));
            case c of
              Inl e \<Rightarrow> do { clean_up_instance o1 home eph; give (Inl (startup_failed e)) }
            | Inr o2 \<Rightarrow> start_bridge o2 home eph obs
          }
      })"

section \<open>The exported calls\<close>

definition launch_observed :: "launch_options \<Rightarrow> bool" where
  "launch_observed o1 = (l_observed o1 \<or> client_observed o1)"

definition launch_instance :: "launch_options \<Rightarrow> (gerr + launched) io" where
  "launch_instance o1 = (let obs = launch_observed o1 in do {
     emit_launch obs ''launch_start'' [];
     r \<leftarrow> launch_instance_with_observer o1 obs;
     case r of
       Inl e \<Rightarrow> do { emit_launch obs ''launch_error'' (launch_code_text (launch_error_code e)); give (Inl e) }
     | Inr i \<Rightarrow> do { emit_launch obs ''launch_ready'' []; give (Inr i) }
   })"

text \<open>A shutdown by the only caller there is, with a context that is never cancelled.\<close>

definition shutdown_alone :: "launched \<Rightarrow> launched io" where
  "shutdown_alone i = (let j = fst (begin_shutdown i) in do {
     emit_launch (observed j) ''shutdown_start'' [];
     r \<leftarrow> run_shutdown j;
     let k = finish_shutdown (fst r) (j\<lparr>daemon_pid := snd r\<rparr>);
     emit_launch (observed k) ''shutdown_complete'' (if shutdown_err k = None then [] else ''shutdown_failed'');
     give k
   })"

definition new_client_outcome :: "gerr option io" where
  "new_client_outcome = do { e \<leftarrow> tick; give (handshake e) }"

definition launch :: "launch_options \<Rightarrow> (gerr + launched) io" where
  "launch o1 = (let obs = launch_observed o1 in do {
     r \<leftarrow> launch_instance o1;
     case r of
       Inl e \<Rightarrow> give (Inl e)
     | Inr i \<Rightarrow> do {
         d \<leftarrow> dial_unix (socket_path i);
         case d of
           Inl e \<Rightarrow> do {
             _ \<leftarrow> shutdown_alone i;
             emit_launch obs ''launch_error'' (launch_code_text LaunchTransportFailed);
             give (Inl (LaunchErr LaunchTransportFailed [] [] (Some e)))
           }
         | Inr _ \<Rightarrow> do {
             c \<leftarrow> new_client_outcome;
             case c of
               Some e \<Rightarrow> do {
                 _ \<leftarrow> shutdown_alone i;
                 emit_launch obs ''launch_error'' (launch_code_text LaunchHandshakeFailed);
                 give (Inl (LaunchErr LaunchHandshakeFailed [] [] (Some e)))
               }
             | None \<Rightarrow> give (Inr i)
           }
       }
   })"

definition connect :: "string \<Rightarrow> (gerr + unit) io" where
  "connect socket0 = do {
     s \<leftarrow> State_Monad.get;
     d \<leftarrow> dial_unix (if socket0 = [] then api_socket_path s else socket0);
     case d of
       Inl e \<Rightarrow> give (Inl e)
     | Inr _ \<Rightarrow> do {
         c \<leftarrow> new_client_outcome;
         give (case c of Some e \<Rightarrow> Inl e | None \<Rightarrow> Inr ())
       }
   }"

end
