(* ===== verification/ShutdownSafety.thy ===== *)
theory ShutdownSafety imports Shutdown ProcessLaws "HOL-Library.Multiset" begin

text \<open>
  The shutdown of an instance under any number of concurrent callers: it is performed once, its
  channels are closed once, everybody gets the same result and nobody waits for ever.
\<close>

section \<open>Runs\<close>

type_synonym shutdown_system = "shutdown_state \<times> (svalue, sact) thread list"

definition shutdown_moves :: "shutdown_system \<Rightarrow> shutdown_system \<Rightarrow> bool" where
  "shutdown_moves x y \<longleftrightarrow> (\<exists>i ch. go_at shutdown_step SIdle i ch (fst x) (snd x) = Some y)"

definition fresh_instance :: "launched \<Rightarrow> bool" where
  "fresh_instance i \<longleftrightarrow> \<not> shutdown_started i \<and> \<not> shutdown_finished i \<and> shutdown_done i = None \<and>
     shutdown_force_kill i = None \<and> \<not> force_kill_once i \<and> context_errs i = [] \<and> shutdown_err i = None"

text \<open>Callers, each with a context that can be cancelled or not.\<close>

definition shutdown_callers :: "bool list \<Rightarrow> (svalue, sact) thread list" where
  "shutdown_callers cs = map (\<lambda>c. (SIdle, shutdown_acts c)) cs"

definition shutdown_start :: "shutdown_system \<Rightarrow> bool" where
  "shutdown_start x \<longleftrightarrow> fresh_instance (inst (fst x)) \<and> (\<exists>cs. snd x = shutdown_callers cs)"

section \<open>The ledger of pending actions\<close>

definition only_begins :: "sact multiset \<Rightarrow> bool" where
  "only_begins m \<longleftrightarrow> (\<forall>a \<in># m. \<exists>b. a = SBegin b)"

lemma only_begins_simps [simp]:
  "only_begins {#}" "only_begins (add_mset a m) \<longleftrightarrow> (\<exists>b. a = SBegin b) \<and> only_begins m"
  by (auto simp: only_begins_def)

definition channels_ok :: "launched \<Rightarrow> bool" where
  "channels_ok i \<longleftrightarrow>
     shutdown_done i = Some (if shutdown_finished i then 1 else 0) \<and>
     shutdown_force_kill i = Some (if force_kill_once i then 1 else 0) \<and>
     (shutdown_finished i \<longrightarrow> shutdown_started i) \<and> distinct (context_errs i)"

definition owners :: "launched \<Rightarrow> nat" where
  "owners i = (if shutdown_started i \<and> \<not> shutdown_finished i then 1 else 0)"

definition ledger_ok :: "shutdown_state \<Rightarrow> sact multiset \<Rightarrow> bool" where
  "ledger_ok s m \<longleftrightarrow>
     (fresh_instance (inst s) \<and> only_begins m \<or> channels_ok (inst s)) \<and>
     count m SFinish = owners (inst s)"

lemma begin_ok:
  assumes "begin_shutdown i = (j, fin, own)" "fresh_instance i \<or> channels_ok i"
  shows "channels_ok j \<and> (fin \<longrightarrow> \<not> own) \<and> owners j = owners i + (if own then 1 else 0)"
  using assms by (auto simp: begin_shutdown_def Let_def fresh_instance_def channels_ok_def owners_def split: if_splits)

lemma request_ok:
  assumes "request_shutdown_escalation c i = (j, f)" "channels_ok i"
  shows "channels_ok j \<and> owners j = owners i"
proof (cases "list_ex (\<lambda>e. err_matches e c \<and> err_matches c e) (context_errs i)")
  case True
  with assms show ?thesis by (simp add: request_shutdown_escalation_def split: if_splits)
next
  case False
  then have "c \<notin> set (context_errs i)" by (auto simp: list_ex_iff)
  with False assms show ?thesis
    by (cases "shutdown_finished i")
      (auto simp: request_shutdown_escalation_def channels_ok_def owners_def)
qed

lemma force_ok: "channels_ok i \<Longrightarrow> channels_ok (close_force_kill i) \<and> owners (close_force_kill i) = owners i"
  by (simp add: close_force_kill_def channels_ok_def owners_def)

lemma finish_ok:
  "channels_ok i \<Longrightarrow> owners i = 1 \<Longrightarrow> channels_ok (finish_shutdown e i) \<and> owners (finish_shutdown e i) = 0"
  by (simp add: finish_shutdown_def channels_ok_def owners_def split: if_splits)

lemma pid_ok: "channels_ok (i\<lparr>daemon_pid := p\<rparr>) = channels_ok i" "owners (i\<lparr>daemon_pid := p\<rparr>) = owners i"
  by (simp_all add: channels_ok_def owners_def)

text \<open>What an action but the first needs and leaves.\<close>

lemma ledger_cases:
  assumes "ledger_ok s (add_mset a m)" "\<And>b. a \<noteq> SBegin b" shows "channels_ok (inst s)"
  using assms by (auto simp: ledger_ok_def)

interpretation shutdown: act_ledger shutdown_step "\<lambda>a. {#a#}" ledger_ok
proof
  fix ch r a s s' r' new spawned m
  assume st: "shutdown_step ch r a s = Some (s', r', new, spawned)" and ok: "ledger_ok s ({#a#} + m)"
  note ok' = ok [simplified]
  have c: "channels_ok (inst s)" if "\<And>b. a \<noteq> SBegin b" using ledger_cases [OF ok' that] .
  have n: "count (add_mset a m) SFinish = owners (inst s)"
    using ok' by (simp only: ledger_ok_def)
  show "ledger_ok s' (sum_list (map (\<lambda>a. {#a#}) new) + sum_list (map (\<lambda>a. {#a#}) (concat spawned)) + m)"
  proof (cases a)
    case (SBegin b)
    obtain j fin own where b: "begin_shutdown (inst s) = (j, fin, own)" by (cases "begin_shutdown (inst s)")
    have "fresh_instance (inst s) \<or> channels_ok (inst s)" using ok' by (auto simp: ledger_ok_def)
    from begin_ok [OF b this] have j: "channels_ok j" "fin \<longrightarrow> \<not> own" "owners j = owners (inst s) + (if own then 1 else 0)"
      by simp_all
    from n st SBegin b j show ?thesis
      by (cases fin; cases own) (auto simp: shutdown_step_def ledger_ok_def)
  next
    case (SContext b)
    then have "channels_ok (inst s)" by (intro c) simp
    with SContext st n show ?thesis
      by (cases b; cases "cause ch") (auto simp: shutdown_step_def ledger_ok_def)
  next
    case (SRequest x)
    then have ci: "channels_ok (inst s)" by (intro c) simp
    obtain j f where q: "request_shutdown_escalation x (inst s) = (j, f)" by fastforce
    from request_ok [OF q ci] SRequest st n q show ?thesis
      by (cases f) (auto simp: shutdown_step_def ledger_ok_def)
  next
    case SForce
    then have "channels_ok (inst s)" by (intro c) simp
    from force_ok [OF this] SForce st n show ?thesis
      by (auto simp: shutdown_step_def ledger_ok_def)
  next
    case SWatch
    then have "channels_ok (inst s)" by (intro c) simp
    with SWatch st n show ?thesis
      by (cases "cause ch") (auto simp: shutdown_step_def ledger_ok_def split: if_splits)
  next
    case SRun
    then have ci: "channels_ok (inst s)" by (intro c) simp
    from SRun st obtain p where "inst s' = (inst s)\<lparr>daemon_pid := p\<rparr>" "new = []" "spawned = []"
      by (simp add: shutdown_step_def split: prod.splits) (metis shutdown_state.select_convs(1) shutdown_state.surjective shutdown_state.update_convs(1,2))
    with ci SRun n show ?thesis by (simp add: ledger_ok_def pid_ok)
  next
    case SFinish
    then have ci: "channels_ok (inst s)" by (intro c) simp
    have "owners (inst s) \<le> 1" by (simp add: owners_def)
    with SFinish n have "owners (inst s) = 1" "count m SFinish = 0" by simp_all
    with finish_ok [OF ci] SFinish st show ?thesis
      by (auto simp: shutdown_step_def Let_def ledger_ok_def)
  next
    case SAwait
    then have "channels_ok (inst s)" by (intro c) simp
    with SAwait st n show ?thesis by (auto simp: shutdown_step_def ledger_ok_def split: if_splits)
  next
    case SRead
    then have "channels_ok (inst s)" by (intro c) simp
    with SRead st n show ?thesis by (auto simp: shutdown_step_def ledger_ok_def)
  qed
qed

section \<open>What each goroutine holds\<close>

fun rank :: "sact \<Rightarrow> nat" where
  "rank SRun = 1" | "rank SFinish = 2" | "rank SAwait = 3" | "rank SRead = 4"
| "rank (SBegin _) = 5" | "rank SWatch = 5" | "rank _ = 0"

definition caller_ok :: "launched \<Rightarrow> (svalue, sact) thread \<Rightarrow> bool" where
  "caller_ok i g \<longleftrightarrow>
     sorted (map rank (snd g)) \<and>
     (SRead \<in> set (snd g) \<longrightarrow> SAwait \<in> set (snd g) \<or> shutdown_finished i) \<and>
     (\<forall>e. fst g = SResult e \<longrightarrow> shutdown_finished i \<and> shutdown_err i = e)"

definition shutdown_inv :: "shutdown_system \<Rightarrow> bool" where
  "shutdown_inv x \<longleftrightarrow> ledger_ok (fst x) (shutdown.owed (snd x)) \<and> (\<forall>g \<in> set (snd x). caller_ok (inst (fst x)) g)"

text \<open>The result is written once: after the shutdown has finished no action changes it.\<close>

lemma step_final:
  assumes "shutdown_step ch r a s = Some (s', r', new, spawned)" "shutdown_finished (inst s)" "a \<noteq> SFinish"
  shows "shutdown_finished (inst s') \<and> shutdown_err (inst s') = shutdown_err (inst s)"
  using assms
  by (cases a) (auto simp: shutdown_step_def begin_shutdown_def request_shutdown_escalation_def
      close_force_kill_def Let_def split: if_splits option.splits prod.splits)

lemma step_shape:
  assumes "shutdown_step ch r a s = Some (s', r', new, spawned)"
  shows "sorted (map rank new) \<and> (\<forall>x \<in> set new. rank x \<le> rank a) \<and>
    spawned \<in> {[], [[SWatch]]} \<and>
    (SRead \<in> set new \<longrightarrow> SAwait \<in> set new) \<and>
    (a = SAwait \<longrightarrow> shutdown_done (inst s) \<notin> {None, Some 0} \<and> s' = s) \<and>
    (r' = r \<or> (\<exists>e. r' = SPhase e) \<or> r' = SIdle \<or> a = SRead \<and> s' = s \<and> r' = SResult (shutdown_err (inst s)))"
  using assms
  by (cases a) (auto simp: shutdown_step_def begin_shutdown_def request_shutdown_escalation_def Let_def
      split: if_splits option.splits prod.splits)

lemma sorted_prepend:
  assumes "sorted (map rank (a # as))" "sorted (map rank new)" "\<forall>x \<in> set new. rank x \<le> rank a"
  shows "sorted (map rank (new @ as))"
  using assms by (auto simp: sorted_append) (meson order_trans)

lemma finished_has_no_finish:
  assumes "ledger_ok s m" "shutdown_finished (inst s)" shows "count m SFinish = 0"
  using assms by (simp add: ledger_ok_def owners_def)

lemma pending_count:
  assumes "i < length gs" "gs ! i = (r, a # as)" shows "a \<in># shutdown.owed gs"
  unfolding shutdown.owed_head [OF assms] by simp

lemma finished_stays:
  assumes "ledger_ok s m" "a \<in># m" "shutdown_step ch r a s = Some (s', r', new, spawned)" "shutdown_finished (inst s)"
  shows "shutdown_finished (inst s') \<and> shutdown_err (inst s') = shutdown_err (inst s)"
proof -
  have "a \<noteq> SFinish" using finished_has_no_finish [OF assms(1,4)] assms(2) by (metis not_in_iff)
  with step_final [OF assms(3,4)] show ?thesis .
qed

lemma done_finished: "ledger_ok s m \<Longrightarrow> shutdown_done (inst s) \<notin> {None, Some 0} \<Longrightarrow> shutdown_finished (inst s)"
  by (auto simp: ledger_ok_def channels_ok_def fresh_instance_def split: if_splits)

lemma caller_keeps:
  assumes "caller_ok i g" "shutdown_finished i \<Longrightarrow> shutdown_finished j \<and> shutdown_err j = shutdown_err i"
  shows "caller_ok j g"
  using assms by (auto simp: caller_ok_def)

lemma shutdown_inv_step:
  assumes "shutdown_moves x y" "shutdown_inv x" shows "shutdown_inv y"
proof -
  obtain s gs s' gs' where xy: "x = (s, gs)" "y = (s', gs')" by (cases x, cases y)
  obtain i ch where g: "go_at shutdown_step SIdle i ch s gs = Some (s', gs')"
    using assms(1) by (auto simp: shutdown_moves_def xy)
  have led: "ledger_ok s (shutdown.owed gs)" and all: "\<forall>g \<in> set gs. caller_ok (inst s) g"
    using assms(2) by (simp_all add: shutdown_inv_def xy)
  have "ledger_ok s' (shutdown.owed gs')" using shutdown.go_at_ok [OF g led] .
  moreover have "\<forall>g \<in> set gs'. caller_ok (inst s') g"
    using g
  proof (cases rule: go_at_cases)
    case (1 r a as r' new spawned)
    note sh = step_shape [OF 1(3)]
    have fin: "shutdown_finished (inst s) \<Longrightarrow>
        shutdown_finished (inst s') \<and> shutdown_err (inst s') = shutdown_err (inst s)"
      using finished_stays [OF led pending_count [OF 1(1,2)] 1(3)] .
    have old: "caller_ok (inst s') g" if "g \<in> set gs" for g
      using all that caller_keeps [OF _ fin] by blast
    have cur: "caller_ok (inst s) (r, a # as)" using all 1(1,2) by (metis nth_mem)
    have "sorted (map rank (new @ as))"
      using cur sh by (intro sorted_prepend [of a]) (simp_all add: caller_ok_def)
    moreover have "SAwait \<in> set (new @ as) \<or> shutdown_finished (inst s')" if "SRead \<in> set (new @ as)"
    proof (cases "SRead \<in> set new")
      case True
      then show ?thesis using sh by auto
    next
      case False
      then have "SAwait \<in> set (a # as) \<or> shutdown_finished (inst s)" using that cur by (auto simp: caller_ok_def)
      then show ?thesis using fin sh done_finished [OF led] by auto
    qed
    moreover have "shutdown_finished (inst s') \<and> shutdown_err (inst s') = e" if "r' = SResult e" for e
    proof (cases "r' = r")
      case True
      then show ?thesis using that cur fin by (auto simp: caller_ok_def)
    next
      case False
      then have "a = SRead" "s' = s" "r' = SResult (shutdown_err (inst s))" using sh that by auto
      moreover have "shutdown_finished (inst s)"
      proof -
        have "SAwait \<notin> set as" using cur \<open>a = SRead\<close> by (auto simp: caller_ok_def)
        then show ?thesis using cur \<open>a = SRead\<close> by (auto simp: caller_ok_def)
      qed
      ultimately show ?thesis using that by simp
    qed
    ultimately have new: "caller_ok (inst s') (r', new @ as)" by (simp add: caller_ok_def)
    have "caller_ok (inst s') (SIdle, x)" if "x \<in> set spawned" for x
      using that sh by (auto simp: caller_ok_def)
    with new old show ?thesis
      unfolding 1(4) using set_update_subset_insert [of gs i "(r', new @ as)"] by auto
  qed
  ultimately show ?thesis by (simp add: shutdown_inv_def xy)
qed

lemma shutdown_inv_start: "shutdown_start x \<Longrightarrow> shutdown_inv x"
proof -
  assume "shutdown_start x"
  then obtain cs where x: "fresh_instance (inst (fst x))" "snd x = shutdown_callers cs"
    by (auto simp: shutdown_start_def)
  have "only_begins (shutdown.owed (shutdown_callers cs)) \<and> count (shutdown.owed (shutdown_callers cs)) SFinish = 0"
    by (induction cs) (simp_all add: shutdown_callers_def shutdown.owed_def shutdown_acts_def)
  with x show ?thesis
    by (auto simp: shutdown_inv_def ledger_ok_def owners_def fresh_instance_def shutdown_callers_def
        shutdown_acts_def caller_ok_def)
qed

interpretation shutdowns: invariant_machine shutdown_start shutdown_moves shutdown_inv
  by unfold_locales (auto intro: shutdown_inv_start shutdown_inv_step)

section \<open>The contract\<close>

text \<open>C4: however many callers shut an instance down at the same time, no channel is ever closed a second
  time: the done channel is closed exactly when the shutdown has finished, the force-kill
  channel at most once.\<close>

theorem shutdown_channels:
  assumes "shutdown_start x" and "shutdown_moves\<^sup>*\<^sup>* x (s, gs)" and "shutdown_done (inst s) \<noteq> None"
  shows "shutdown_done (inst s) = Some (if shutdown_finished (inst s) then 1 else 0) \<and>
    shutdown_force_kill (inst s) = Some (if force_kill_once (inst s) then 1 else 0)"
proof -
  have "shutdown_inv (s, gs)" using shutdowns.inv_reach assms by blast
  then have "ledger_ok s (shutdown.owed gs)" by (simp add: shutdown_inv_def)
  with assms(3) show ?thesis
    by (auto simp: ledger_ok_def channels_ok_def owners_def fresh_instance_def)
qed

text \<open>C14: every caller that has returned got the same result, the one the shutdown finished with, and
  no later call changes it.\<close>

theorem shutdown_agreement:
  assumes "shutdown_start x" and "shutdown_moves\<^sup>*\<^sup>* x (s, gs)" and "(SResult e, as) \<in> set gs"
    and "shutdown_moves\<^sup>*\<^sup>* (s, gs) (t, hs)"
  shows "shutdown_finished (inst s) \<and> shutdown_err (inst s) = e \<and> shutdown_err (inst t) = e \<and>
    (\<forall>f bs. (SResult f, bs) \<in> set hs \<longrightarrow> f = e)"
proof -
  have i: "shutdown_inv (s, gs)" using shutdowns.inv_reach assms(1,2) by blast
  then have fe: "shutdown_finished (inst s)" "shutdown_err (inst s) = e"
    using assms(3) by (auto simp: shutdown_inv_def caller_ok_def)
  have "shutdown_finished (inst (fst y)) \<and> shutdown_err (inst (fst y)) = e"
    if "shutdown_inv z" "shutdown_moves z y" "shutdown_finished (inst (fst z)) \<and> shutdown_err (inst (fst z)) = e" for z y
  proof -
    note fz = that(3)
    obtain i ch where g: "go_at shutdown_step SIdle i ch (fst z) (snd z) = Some (fst y, snd y)"
      using \<open>shutdown_moves z y\<close> by (auto simp: shutdown_moves_def)
    have l: "ledger_ok (fst z) (shutdown.owed (snd z))" using \<open>shutdown_inv z\<close> by (simp add: shutdown_inv_def)
    from g show ?thesis
    proof (cases rule: go_at_cases)
      case (1 r a as r' new spawned)
      from finished_stays [OF l pending_count [OF 1(1,2)] 1(3)] fz show ?thesis by simp
    qed
  qed
  from shutdowns.stable_run [of "\<lambda>y. shutdown_finished (inst (fst y)) \<and> shutdown_err (inst (fst y)) = e", OF this assms(4) i]
  have t: "shutdown_finished (inst t) \<and> shutdown_err (inst t) = e" using fe by simp
  have "shutdown_inv (t, hs)" using shutdowns.inv_run [OF assms(4) i] .
  with t fe show ?thesis by (auto simp: shutdown_inv_def caller_ok_def)
qed

text \<open>C15: while a shutdown is in progress the goroutine that owns it can always take its next step,
  whatever the environment decides and whatever the others do, so no caller waits for a
  shutdown that nobody performs.\<close>

theorem shutdown_progress:
  assumes "shutdown_start x" and "shutdown_moves\<^sup>*\<^sup>* x (s, gs)"
    and "shutdown_started (inst s)" and "\<not> shutdown_finished (inst s)"
  shows "\<exists>i r as. i < length gs \<and> gs ! i = (r, as) \<and> SFinish \<in> set as \<and>
    (\<forall>ch. go_at shutdown_step SIdle i ch s gs \<noteq> None)"
proof -
  have inv: "shutdown_inv (s, gs)" using shutdowns.inv_reach assms(1,2) by blast
  then have "count (shutdown.owed gs) SFinish = 1"
    using assms(3,4) by (simp add: shutdown_inv_def ledger_ok_def owners_def)
  then have "SFinish \<in># shutdown.owed gs" by (metis count_eq_zero_iff one_neq_zero)
  moreover have "set_mset (shutdown.owed gs) = (\<Union>(r, as) \<in> set gs. set as)"
    by (induction gs) (auto simp: shutdown.owed_def)
  ultimately obtain r as where g: "(r, as) \<in> set gs" "SFinish \<in> set as" by auto
  then obtain i where i: "i < length gs" "gs ! i = (r, as)" by (metis in_set_conv_nth)
  have "caller_ok (inst s) (r, as)" using inv g(1) by (auto simp: shutdown_inv_def)
  then obtain a bs where as: "as = a # bs" "rank a \<le> 2"
    using g(2) by (cases as) (auto simp: caller_ok_def)
  have "shutdown_step ch r a s \<noteq> None" for ch
    using as(2) by (cases a) (auto simp: shutdown_step_def Let_def split: option.splits prod.splits)
  with i as g show ?thesis by (intro exI [of _ i]) (auto simp: go_at_def split: option.splits)
qed

text \<open>Two callers, the second with a context that is cancelled while the first is at work.\<close>

definition shutdown_runs :: "(nat \<times> shutdown_choice) list \<Rightarrow> shutdown_system \<Rightarrow> shutdown_system option" where
  "shutdown_runs ms x = foldl (\<lambda>y (i, ch). case y of None \<Rightarrow> None
     | Some (s, gs) \<Rightarrow> go_at shutdown_step SIdle i ch s gs) (Some x) ms"

lemma shutdown_runs_moves: "shutdown_runs ms x = Some y \<Longrightarrow> shutdown_moves\<^sup>*\<^sup>* x y"
proof (induction ms arbitrary: y rule: rev_induct)
  case (snoc m ms)
  obtain i ch where m: "m = (i, ch)" by fastforce
  with snoc(2) obtain s gs where "shutdown_runs ms x = Some (s, gs)" "go_at shutdown_step SIdle i ch s gs = Some y"
    by (auto simp: shutdown_runs_def split: option.splits)
  then have "shutdown_moves\<^sup>*\<^sup>* x (s, gs)" "shutdown_moves (s, gs) y"
    using snoc(1) unfolding shutdown_moves_def by fastforce+
  then show ?case by (rule rtranclp.rtrancl_into_rtrancl)
qed (simp add: shutdown_runs_def)

definition demo_instance :: launched where
  "demo_instance = \<lparr>socket_path = ''/tmp/jcode-sdk-instance-7/run/jcode-api.sock'',
     jcode_home = [], runtime_dir = [], owned_paths = [], ephemeral = False,
     cleanup_timeout = 0, grace_period = 0, reap_timeout = 0, has_cmd = True, process_group_id = 7,
     daemon_pid = 0, observed = True, shutdown_started = False, shutdown_finished = False,
     shutdown_done = None, shutdown_force_kill = None, force_kill_once = False, context_errs = [],
     shutdown_err = None\<rparr>"

definition demo_shutdown :: shutdown_system where
  "demo_shutdown = (\<lparr>inst = demo_instance, machine = shared_login\<lparr>wait_done := Running\<rparr>\<rparr>,
     shutdown_callers [False, True])"

definition plain_choice :: shutdown_choice where
  "plain_choice = \<lparr>cause = None, steps = []\<rparr>"

definition cancel_choice :: shutdown_choice where
  "cancel_choice = \<lparr>cause = Some (Sent Ctx_Canceled), steps = []\<rparr>"

definition demo_moves :: "(nat \<times> shutdown_choice) list" where
  "demo_moves = [(0, plain_choice), (1, plain_choice), (0, plain_choice), (1, cancel_choice), (1, plain_choice), (1, plain_choice)]"

lemma demo_shutdown_start: "shutdown_start demo_shutdown"
  by (simp add: shutdown_start_def demo_shutdown_def demo_instance_def fresh_instance_def) (rule exI, rule refl)

definition demo_end :: "(nat \<times> shutdown_choice) list" where
  "demo_end = demo_moves @ [(0, plain_choice), (0, plain_choice), (0, plain_choice), (0, plain_choice),
     (1, plain_choice), (1, plain_choice)]"

lemma demo_half:
  "map_option (\<lambda>(s, gs). (shutdown_done (inst s), shutdown_started (inst s), shutdown_finished (inst s), map snd gs))
     (shutdown_runs demo_moves demo_shutdown) =
   Some (Some 0, True, False, [[SRun, SFinish, SAwait, SRead], [SAwait, SRead]])"
  by code_simp

lemma demo_whole:
  "map_option (\<lambda>(s, gs). (shutdown_done (inst s), shutdown_force_kill (inst s), gs))
     (shutdown_runs demo_end demo_shutdown) =
   (let e = Some (JoinE [JoinE [JoinE [Plain ''reap owned process group 7: timeout'']], Sent Ctx_Canceled])
    in Some (Some 1, Some 1, [(SResult e, []), (SResult e, [])]))"
  by code_simp

theorem shutdown_channels_witness:
  "\<exists>s gs. shutdown_runs demo_end demo_shutdown = Some (s, gs) \<and>
     shutdown_done (inst s) = Some (if shutdown_finished (inst s) then 1 else 0)"
proof -
  obtain s gs where r: "shutdown_runs demo_end demo_shutdown = Some (s, gs)" "shutdown_done (inst s) = Some 1"
    using demo_whole by (auto simp: Let_def)
  with shutdown_channels [OF demo_shutdown_start shutdown_runs_moves [OF r(1)]] show ?thesis by auto
qed

theorem shutdown_agreement_witness:
  "\<exists>s gs e. shutdown_runs demo_end demo_shutdown = Some (s, gs) \<and> shutdown_err (inst s) = Some e"
proof -
  obtain s gs e where r: "shutdown_runs demo_end demo_shutdown = Some (s, gs)" "(SResult (Some e), []) \<in> set gs"
    using demo_whole by (auto simp: Let_def)
  with shutdown_agreement [OF demo_shutdown_start shutdown_runs_moves [OF r(1)] r(2) rtranclp.rtrancl_refl]
  show ?thesis by blast
qed

theorem shutdown_progress_witness:
  "\<exists>s gs i. shutdown_runs demo_moves demo_shutdown = Some (s, gs) \<and>
     go_at shutdown_step SIdle i plain_choice s gs \<noteq> None"
proof -
  obtain s gs where r: "shutdown_runs demo_moves demo_shutdown = Some (s, gs)"
      "shutdown_started (inst s)" "\<not> shutdown_finished (inst s)"
    using demo_half by auto
  with shutdown_progress [OF demo_shutdown_start shutdown_runs_moves [OF r(1)]] show ?thesis by blast
qed

section \<open>What a shutdown touches\<close>

definition shutdown_act :: "launched \<Rightarrow> int \<Rightarrow> string \<Rightarrow> os_act \<Rightarrow> bool" where
  "shutdown_act i daemon tmp a =
     (case a of
        AKill p sig \<Rightarrow> p = daemon \<and> 1 < p \<and> sig = SIGTERM \<or> 1 < process_group_id i \<and> p = - process_group_id i
      | AObserve _ _ \<Rightarrow> observed i
      | _ \<Rightarrow> owned_removal (jcode_home i) tmp a)"

lemma owned_is_shutdown: "owned_removal (jcode_home i) tmp a \<Longrightarrow> shutdown_act i daemon tmp a"
  by (cases a) (simp_all add: shutdown_act_def owned_removal_def)

lemma within_mono: "state_io_rel (within v P) m \<Longrightarrow> (\<And>a. P a \<Longrightarrow> Q a) \<Longrightarrow> state_io_rel (within v Q) m"
  by (auto simp: state_io_rel_def within_def intro: acts_mono)

lemma cleanup_rel:
  "state_io_rel (within v (owned_removal home (temp_dir v)))
     (cleanup_owned_instance_paths home runtime paths eph timeout)"
  unfolding cleanup_owned_instance_paths_def remaining_cleanup_duration_def
  by (intro inside.call_rel runtime_paths_rel instance_home_rel)

lemma real_directories_rel: "state_io_rel (within v P) (real_directories ds)"
proof (induction ds)
  case Nil
  show ?case unfolding real_directories.simps by (rule inside.return_rel)
next
  case (Cons d ds)
  then show ?case unfolding real_directories.simps by (intro inside.call_rel)
qed

lemma read_daemon_pid_rel: "state_io_rel (within v P) (read_daemon_pid home runtime)"
  unfolding read_daemon_pid_def Let_def by (intro inside.call_rel real_directories_rel)

lemma terminate_rel:
  assumes "\<And>sig. 1 < pgid \<Longrightarrow> P (AKill (- pgid) sig)" "\<And>k e. obs \<Longrightarrow> P (AObserve k e)"
  shows "state_io_rel (within v P) (terminate_process_observed pgid grace reap forcible obs)"
proof -
  have e: "state_io_rel (within v P) (emit_launch obs k x)" for k x
    unfolding emit_launch_def using assms(2) by (intro inside.control_rel inside.record_rel)
  have r: "state_io_rel (within v P) (reap_and_report obs pgid reap t errs)" for reap t errs
    unfolding reap_and_report_def wait_for_process_reap_def
    by (intro inside.control_rel inside_process.select_rel e)
  show ?thesis
    unfolding terminate_process_observed_def terminate_process_group_def Let_def
      signal_process_group_def process_group_alive_def
    by (simp only: process_group_operations.simps)
      (intro inside.control_rel inside_process.poll_rel inside_process.select_rel e r
        inside_process.kill_rel inside_process.probe_rel; use assms(1) in simp)
qed

lemma hoare_result: "(\<And>r. hoare (\<lambda>_. True) (f r) Q) \<Longrightarrow> hoare (\<lambda>_. True) (m \<bind> f) Q"
  by (rule hoare_bind [where B = "\<lambda>_ _. True"]) (simp_all add: hoare_def)

lemma phases_result: "hoare (\<lambda>_. True) (run_phases i pid) (\<lambda>r _. snd r = pid)"
  unfolding run_phases_def by (intro hoare_result hoare_option hoare_ret) simp_all

lemma phases_rel: "state_io_rel (within s (shutdown_act i pid (temp_dir s))) (run_phases i pid)"
proof -
  let ?R = "within s (shutdown_act i pid (temp_dir s))"
  have stop: "state_io_rel ?R (stop_process pid)"
    unfolding stop_process_def
    by (intro inside.control_rel inside_process.kill_rel) (simp add: shutdown_act_def)
  have tm: "state_io_rel ?R (terminate_process_observed (process_group_id i) g r True (observed i))" for g r
    by (rule terminate_rel) (simp_all add: shutdown_act_def)
  have clean: "state_io_rel ?R (cleanup_owned_instance_paths (jcode_home i) rt ps e t)" for rt ps e t
    by (rule within_mono [OF cleanup_rel]) (rule owned_is_shutdown)
  have emit_launch: "state_io_rel ?R (emit_launch (observed i) k x)" for k x
    unfolding emit_launch_def by (intro inside.control_rel inside.record_rel) (simp add: shutdown_act_def)
  show ?thesis unfolding run_phases_def by (intro inside.control_rel stop tm clean emit_launch)
qed


end
