(* ===== verification/LaunchSafety.thy ===== *)
theory LaunchSafety imports LaunchInstance ShutdownSafety begin

text \<open>
  What a launch returns: an instance that is ready to be shut down, or an error with no child left
  alone.
\<close>

section \<open>Results\<close>

definition yields :: "'a io \<Rightarrow> ('a \<Rightarrow> bool) \<Rightarrow> bool" where
  "yields m Q \<longleftrightarrow> (\<forall>s. Q (fst (run_state m s)))"

lemma yields_ret: "Q x \<Longrightarrow> yields (give x) Q"
  by (simp add: yields_def)

lemma yields_bind: "(\<And>r. yields (f r) Q) \<Longrightarrow> yields (m \<bind> f) Q"
  by (auto simp: yields_def split: prod.split)

lemma yields_bind_info: "yields m P \<Longrightarrow> (\<And>r. P r \<Longrightarrow> yields (f r) Q) \<Longrightarrow> yields (m \<bind> f) Q"
  by (auto simp: yields_def split: prod.split) (metis fst_conv)

lemma yields_sum: "(\<And>a. x = Inl a \<Longrightarrow> yields (f a) Q) \<Longrightarrow> (\<And>b. x = Inr b \<Longrightarrow> yields (g b) Q) \<Longrightarrow>
    yields (case x of Inl a \<Rightarrow> f a | Inr b \<Rightarrow> g b) Q"
  by (cases x) simp_all

lemma yields_option: "(x = None \<Longrightarrow> yields m Q) \<Longrightarrow> (\<And>b. x = Some b \<Longrightarrow> yields (g b) Q) \<Longrightarrow>
    yields (case x of None \<Rightarrow> m | Some b \<Rightarrow> g b) Q"
  by (cases x) simp_all

lemma yields_if: "(b \<Longrightarrow> yields m Q) \<Longrightarrow> (\<not> b \<Longrightarrow> yields n Q) \<Longrightarrow> yields (if b then m else n) Q"
  by simp

lemma yields_startup: "(x = SocketReady \<Longrightarrow> yields a Q) \<Longrightarrow> (\<And>e. x = ChildExited e \<Longrightarrow> yields (b e) Q) \<Longrightarrow>
    (x = StartupTimeout \<Longrightarrow> yields c Q) \<Longrightarrow>
    yields (case x of SocketReady \<Rightarrow> a | ChildExited e \<Rightarrow> b e | StartupTimeout \<Rightarrow> c) Q"
  by (cases x) simp_all

section \<open>A launched instance\<close>

definition ready_instance :: "launch_options \<Rightarrow> launched \<Rightarrow> bool" where
  "ready_instance o1 i \<longleftrightarrow>
     fresh_instance i \<and> 1 < process_group_id i \<and> has_cmd i \<and> is_abs (jcode_home i) \<and>
     clean (jcode_home i) = jcode_home i \<and>
     runtime_dir i = join_path [jcode_home i, ''run''] \<and>
     owned_paths i = instance_owned_runtime_paths (runtime_dir i) \<and>
     socket_path i \<in> set (owned_paths i) \<and>
     0 < cleanup_timeout i \<and> 0 < grace_period i \<and> 0 < reap_timeout i \<and>
     ephemeral i = (l_jcode_home o1 = [])"

definition positive_options :: "launch_options \<Rightarrow> bool" where
  "positive_options o1 \<longleftrightarrow>
     0 < startup_timeout o1 \<and> 0 < l_cleanup_timeout o1 \<and> 0 < l_grace_period o1 \<and> 0 < l_reap_timeout o1"

lemma defaults_are_positive: "positive_options (launch_with_defaults o1)"
  using defaults_positive by (simp add: positive_options_def launch_with_defaults_def seconds_def)

lemma absolute_yields: "yields (absolute_path p) (\<lambda>r. \<forall>h. r = Inr h \<longrightarrow> is_abs h \<and> clean h = h)"
proof (cases "is_abs p")
  case True
  then show ?thesis by (simp add: absolute_path_def yields_def)
next
  case False
  have "is_abs (path_text True (cwd s))" for s :: os by (simp add: path_text_def is_abs_def)
  moreover have "path_text True (cwd s) \<noteq> []" for s :: os by (simp add: path_text_def)
  ultimately have "is_abs (join_path [path_text True (cwd s), p])" for s :: os
    by (simp add: is_abs_append)
  moreover have "clean (join_path [path_text True (cwd s), p]) = join_path [path_text True (cwd s), p]" for s :: os
    by (rule join_path_clean [OF refl]) (simp add: path_text_def)
  ultimately show ?thesis using False
    by (auto simp: absolute_path_def yields_def syscall_def faulty_def simp del: join_path.simps
        split: prod.split option.split)
qed

lemma prepare_yields: "yields (prepare_home o1) (\<lambda>r. \<forall>h. r = Inr h \<longrightarrow> is_abs h \<and> clean h = h)"
  unfolding prepare_home_def Let_def
  by (intro yields_bind yields_sum yields_bind_info [OF absolute_yields] yields_option yields_ret; simp)

lemma start_yields: "yields (start_process b a d e) (\<lambda>r. \<forall>p. r = Inr p \<longrightarrow> 1 < p)"
  unfolding start_process_def by (intro yields_bind yields_sum yields_if yields_ret; simp)

lemma inherit_yields:
  "yields (inherit_launch_credentials o1 home) (\<lambda>r. \<forall>p. r = Inr p \<longrightarrow> positive_options p = positive_options o1)"
  unfolding inherit_launch_credentials_def
  by (intro yields_bind yields_ret) (auto simp: positive_options_def Let_def split: sum.splits if_splits)

lemma new_instance_ready:
  assumes "positive_options o1" "is_abs home" "clean home = home" "1 < pgid"
  shows "ready_instance o2 (new_instance o1 home (l_jcode_home o2 = []) obs pgid pid)"
  using assms
  by (simp add: ready_instance_def new_instance_def Let_def fresh_instance_def positive_options_def
      instance_owned_runtime_paths_def del: join_path.simps)

lemma launch_instance_yields: "yields (launch_instance o1) (\<lambda>r. \<forall>i. r = Inr i \<longrightarrow> ready_instance o1 i)"
proof -
  have await: "yields (await_bridge o2 home (l_jcode_home o1 = []) obs bin pgid) (\<lambda>r. \<forall>i. r = Inr i \<longrightarrow> ready_instance o1 i)"
    if "positive_options o2" "is_abs home" "clean home = home" "1 < pgid" for o2 home obs bin pgid
    unfolding await_bridge_def Let_def
    by (intro yields_bind yields_startup yields_ret) (use new_instance_ready [OF that] in auto)
  have start: "yields (start_bridge o2 home (l_jcode_home o1 = []) obs) (\<lambda>r. \<forall>i. r = Inr i \<longrightarrow> ready_instance o1 i)"
    if "positive_options o2" "is_abs home" "clean home = home" for o2 home obs
    unfolding start_bridge_def Let_def
    by (intro yields_bind_info [OF start_yields] yields_bind yields_sum yields_ret await that; simp)
  have creds: "yields (if b then inherit_launch_credentials (launch_with_defaults o1) home else give (Inr (launch_with_defaults o1)))
      (\<lambda>r. \<forall>p. r = Inr p \<longrightarrow> positive_options p)" for b home
    using inherit_yields [of "launch_with_defaults o1" home] defaults_are_positive [of o1]
    by (cases b) (auto simp: yields_def)
  have obs: "yields (launch_instance_with_observer o1 obs) (\<lambda>r. \<forall>i. r = Inr i \<longrightarrow> ready_instance o1 i)" for obs
    unfolding launch_instance_with_observer_def Let_def
    by (rule yields_bind, rule yields_bind_info [OF prepare_yields], rule yields_sum, rule yields_ret, simp,
        rule yields_bind, rule yields_bind_info [OF creds], rule yields_sum,
        rule yields_bind, rule yields_ret, simp, rule start; simp)
  show ?thesis
    unfolding launch_instance_def Let_def
    by (rule yields_bind, rule yields_bind_info [OF obs], rule yields_sum)
      (rule yields_bind, rule yields_ret, simp)+
qed

text \<open>C8: a launch that succeeds returns an instance in good order: its home is an absolute clean path,
  its runtime directory and files are the ones its cleanup accepts, its process group is a real
  one, all its timeouts are positive, and its shutdown has not begun.\<close>

theorem launched_instance_ready:
  assumes "run_state (launch_instance o1) s = (Inr i, t)"
  shows "ready_instance o1 i"
  using launch_instance_yields [of o1] assms by (auto simp: yields_def) (metis fst_conv)

text \<open>A bridge that starts and creates its socket.\<close>

definition demo_options :: launch_options where
  "demo_options = \<lparr>l_jcode_home = ''/h'', working_dir = [], inherit_logins_opt = Some False, binary = ''b'',
     provider = [], model = [], l_env = [], startup_timeout = 0, l_cleanup_timeout = 0,
     l_grace_period = 0, l_reap_timeout = 0, inherit_stderr = False, client_observed = False, l_observed = False\<rparr>"

definition loud_options :: launch_options where
  "loud_options = demo_options\<lparr>inherit_stderr := True\<rparr>"

definition demo_machine :: "env_step \<Rightarrow> os" where
  "demo_machine e = shared_login\<lparr>files := [([''h''], NDir 448), ([''h'', ''run''], NDir 448)], environ := [],
     plan := replicate 40 (e\<lparr>pick := 7\<rparr>)\<rparr>"

definition socket_env :: env_step where
  "socket_env = quiet\<lparr>others := AList.update [''h'', ''run'', ''jcode-api.sock''] NSocket\<rparr>"

text \<open>The bridge's socket accepts twice, and then the handshake fails.\<close>

definition refusing_machine :: os where
  "refusing_machine = (demo_machine quiet)\<lparr>plan := replicate 18 (socket_env\<lparr>pick := 7\<rparr>) @
     [quiet\<lparr>handshake := Some (Plain ''no hello'')\<rparr>]\<rparr>"

section \<open>Relations that every call keeps\<close>

text \<open>A relation that asks nothing of the recorded calls is kept by all the launcher's file work.\<close>

locale free_relation = os_relation R "\<lambda>_. True" for R
begin

lemmas free_rel = TrueI call_rel

lemma remove_owned_files_free: "state_io_rel R (remove_owned_files paths)"
proof (induction paths)
  case Nil
  show ?case unfolding remove_owned_files.simps by (rule return_rel)
next
  case (Cons p ps)
  then show ?case unfolding remove_owned_files.simps by (intro free_rel)
qed

lemma runtime_attempt_free: "state_io_rel R (runtime_attempt runtime paths)"
  unfolding runtime_attempt_def remove_owned_runtime_paths_once_def
  by (intro free_rel remove_owned_files_free)

lemma runtime_loop_free: "state_io_rel R (State (runtime_loop runtime paths d))"
  using runtime.loop_rel [OF io_relation_axioms runtime_attempt_free now_rel pause_rel]
  by (simp add: state_io_rel_def)

lemma home_loop_free: "state_io_rel R (State (home_loop home d))"
proof -
  have "state_io_rel R (home_attempt home)" unfolding home_attempt_def by (intro free_rel)
  from homes.loop_rel [OF io_relation_axioms this now_rel pause_rel] show ?thesis
    by (simp add: state_io_rel_def)
qed

lemma instance_home_free: "state_io_rel R (remove_owned_instance_home home timeout)"
  unfolding remove_owned_instance_home_def by (intro free_rel home_loop_free)

lemma cleanup_free: "state_io_rel R (cleanup_owned_instance_paths home rt ps eph timeout)"
  unfolding cleanup_owned_instance_paths_def remaining_cleanup_duration_def remove_owned_runtime_paths_def Let_def
  by (intro free_rel runtime_loop_free instance_home_free)

lemma ensure_free: "state_io_rel R (ensure_private_directory path)"
  unfolding ensure_private_directory_def by (intro free_rel)

lemma copy_owner_free: "state_io_rel R (copy_owner_only from to)"
  unfolding copy_owner_only_def by (intro free_rel)

lemma inherit_files_free: "state_io_rel R (inherit_files from to acc names)"
proof (induction names arbitrary: acc)
  case Nil
  show ?case unfolding inherit_files.simps by (rule return_rel)
next
  case (Cons n ns)
  show ?case unfolding inherit_files.simps by (intro free_rel copy_owner_free Cons)
qed

lemma inherit_free: "state_io_rel R (inherit_launch_credentials o1 home)"
  unfolding inherit_launch_credentials_def inherit_credentials_def inherit_legacy_codex_auth_def Let_def
  by (intro free_rel ensure_free copy_owner_free inherit_files_free)

lemma mkdir_temp_free: "state_io_rel R (mkdir_temp pre)"
proof -
  have "state_io_rel R (mkdir_temp_tries n q)" for n q
  proof (induction n q rule: mkdir_temp_tries.induct)
    case (1 n q)
    then show ?case by (subst mkdir_temp_tries.simps) (auto intro!: free_rel tick_rel simp: Let_def)
  qed
  then show ?thesis unfolding mkdir_temp_def by (intro free_rel)
qed

lemma prepare_free: "state_io_rel R (prepare_home o1)"
  unfolding prepare_home_def absolute_path_def remove_if_ephemeral_def Let_def
  by (intro free_rel mkdir_temp_free ensure_free instance_home_free sys_rel faulty_rel) (simp add: R_refl)

lemma remove_stale_free: "state_io_rel R (remove_stale ps)"
proof (induction ps)
  case Nil
  show ?case unfolding remove_stale.simps by (rule return_rel)
next
  case (Cons p ps)
  then show ?case unfolding remove_stale.simps by (intro free_rel)
qed

lemma emit_free: "state_io_rel R (emit_launch obs k e)"
  unfolding emit_launch_def by (intro free_rel record_rel)

lemma clean_up_free: "state_io_rel R (clean_up_instance o1 home eph)"
  unfolding clean_up_instance_def by (intro free_rel cleanup_free)

lemma collect_free: "state_io_rel R (collect_stderr piped timeout)"
proof -
  have "R s (s\<lparr>clock := max (clock s) c\<rparr>)" for s c
    using clock_rel [of "max (clock s) c - clock s" s] by simp
  then have "state_io_rel R (State (\<lambda>s. ((), s\<lparr>clock := max (clock s) c\<rparr>)))" for c
    by (simp add: state_io_rel_def)
  then show ?thesis unfolding collect_stderr_def by (intro free_rel tick_rel)
qed

lemma binary_free: "state_io_rel R (select_binary b)" "state_io_rel R (stderr_pipe inherit)"
  "state_io_rel R (start_process c a d e)"
  unfolding select_binary_def stderr_pipe_def start_process_def
  by (intro free_rel sys_rel faulty_rel record_rel; simp add: R_refl split: option.split)+

end

section \<open>No child left alone\<close>

text \<open>The child was waited for, or its group was asked to end.\<close>

definition ended :: "os \<Rightarrow> bool" where
  "ended s \<longleftrightarrow> wait_done s = Reaped \<or> (\<exists>p. 1 < p \<and> AKill (- p) SIGTERM \<in> set (trace s))"

definition steady :: "os \<Rightarrow> os \<Rightarrow> bool" where
  "steady s t \<longleftrightarrow> (wait_done s = NotStarted \<longrightarrow> wait_done t = NotStarted) \<and> (ended s \<longrightarrow> ended t)"

interpretation steady: free_relation steady
  by unfold_locales
    (auto simp: steady_def ended_def state_io_rel_def tick_def settle_def split: list.split option.split)

definition safe_end :: "os \<Rightarrow> bool" where
  "safe_end s \<longleftrightarrow> wait_done s = NotStarted \<or> ended s"

lemma steady_safe: "state_io_rel steady m \<Longrightarrow> hoare safe_end m (\<lambda>_. safe_end)"
  by (auto simp: hoare_def state_io_rel_def steady_def safe_end_def)

lemma steady_ended: "state_io_rel steady m \<Longrightarrow> hoare ended m (\<lambda>_. ended)"
  by (auto simp: hoare_def state_io_rel_def steady_def)

lemma steady_process:
  "state_io_rel steady poll_wait" "state_io_rel steady receive_wait" "state_io_rel steady (select_wait d f)"
  "state_io_rel steady (kill p sig)" "state_io_rel steady (probe p)"
proof -
  have w: "steady s (s\<lparr>wait_done := Reaped\<rparr>)" if "\<exists>e. wait_done s = Exited e" for s
    using that by (auto simp: steady_def ended_def)
  have c: "steady s (s\<lparr>clock := d\<rparr>)" for s d by (simp add: steady_def ended_def)
  show "state_io_rel steady poll_wait" "state_io_rel steady receive_wait"
    unfolding poll_wait_def receive_wait_def
    by (rule steady.bind_rel [OF steady.tick_rel];
        simp add: state_io_rel_def steady.R_refl w split: wait_chan.split)+
  have "ready_cases d f s ! n = WaitReady \<Longrightarrow> n < length (ready_cases d f s) \<Longrightarrow> \<exists>e. wait_done s = Exited e" for d f s n
    using nth_mem [of n "ready_cases d f s"] by (auto simp: ready_cases_def split: wait_chan.splits if_splits)
  then have r: "ready_cases d f s = x # xs \<Longrightarrow> (x # xs) ! (k mod Suc (length xs)) = WaitReady \<Longrightarrow> \<exists>e. wait_done s = Exited e" for d f s x xs k
    by (metis length_Cons mod_less_divisor zero_less_Suc)
  show "state_io_rel steady (select_wait d f)"
    unfolding select_wait_def
    by (intro steady.bind_rel steady.get_rel steady.tick_rel)
      (auto simp: state_io_rel_def steady.R_refl c intro!: w dest: r split: list.split ready.split)
  show "state_io_rel steady (kill p sig)" "state_io_rel steady (probe p)"
    unfolding kill_def probe_def
    by (intro steady.free_rel steady.record_rel steady.sys_rel steady.faulty_rel; simp add: steady.R_refl)+
qed

lemma steady_signal:
  "state_io_rel steady (signal_process_group p sig)" "state_io_rel steady (process_group_alive p)"
  "state_io_rel steady (reap_and_report obs p reap t errs)"
  unfolding signal_process_group_def process_group_alive_def reap_and_report_def wait_for_process_reap_def
  by (intro steady.free_rel steady_process steady.emit_free)+

lemma signal_ends: "1 < p \<Longrightarrow> hoare (\<lambda>_. True) (signal_process_group p SIGTERM) (\<lambda>_. ended)"
proof -
  assume p: "1 < p"
  have "hoare (\<lambda>_. True) (kill (- p) SIGTERM) (\<lambda>_. ended)"
    unfolding kill_def
  proof (rule hoare_bind)
    show "hoare (\<lambda>_. True) (record_act (AKill (- p) SIGTERM)) (\<lambda>_. ended)"
      using p by (auto simp: hoare_def record_act_def ended_def)
    show "hoare ended (syscall ''kill'' [] (faulty (\<lambda>s. (Inr (), s)))) (\<lambda>_. ended)"
      by (intro steady_ended steady.sys_rel steady.faulty_rel) (simp add: steady.R_refl)
  qed
  with p show ?thesis unfolding signal_process_group_def
    by (simp, intro hoare_bind [where B = "\<lambda>_. ended"]) (simp_all add: hoare_def)
qed

lemma terminate_ends:
  assumes "1 < p" shows "hoare (\<lambda>_. True) (terminate_process_observed p g r f b) (\<lambda>_. ended)"
proof -
  have poll: "hoare (\<lambda>_. True) poll_wait (\<lambda>d s. d \<longrightarrow> ended s)"
    by (simp add: hoare_def poll_wait_def ended_def split: prod.split wait_chan.split)
  show ?thesis
    using assms
    unfolding terminate_process_observed_def terminate_process_group_def Let_def
    by (simp only: process_group_operations.simps not_le [symmetric] if_False)
      (rule hoare_bind [OF poll], rule hoare_if,
        simp only: simp_thms, rule steady_ended, intro steady.free_rel steady.emit_free,
        simp only: simp_thms not_le, rule hoare_bind [OF signal_ends], assumption,
        rule steady_ended, intro steady.free_rel steady_process steady_signal steady.emit_free)
qed

lemma launch_wait_reaped:
  "run_state (State (launch_wait socket d)) s = (ChildExited e, t) \<Longrightarrow> wait_done t = Reaped"
proof (induction socket d s rule: launch_wait.induct)
  case (1 socket d s)
  obtain u s1 where n: "run_state now s = (u, s1)" by fastforce
  obtain acc s2 where a: "run_state (socket_accepts socket) s1 = (acc, s2)" by fastforce
  obtain r s3 where r: "run_state receive_wait s2 = (r, s3)" by fastforce
  have reap: "wait_done s3 = Reaped" if "r = Some x" for x
    using r that by (auto simp: receive_wait_def split: prod.splits wait_chan.splits)
  show ?case
  proof (cases "u < d \<and> \<not> acc \<and> r = None")
    case True
    with n a r have "launch_wait socket d s = launch_wait socket d (snd (run_state (sleep 25000000) s3))"
      by (subst launch_wait.simps) simp
    with 1(1) [OF n [symmetric] _ a [symmetric] _ r [symmetric]] 1(2) n a r True show ?thesis by auto
  next
    case False
    with 1(2) n a r reap show ?thesis
      by (subst (asm) state.sel, subst (asm) launch_wait.simps) (auto split: if_splits option.splits)
  qed
qed

lemma hoare_weaken: "hoare (\<lambda>_. True) m Q \<Longrightarrow> hoare P m Q"
  by (simp add: hoare_def)

lemma hoare_unknown: "(\<And>r. hoare (\<lambda>_. True) (f r) Q) \<Longrightarrow> hoare P (m \<bind> f) Q"
  by (rule hoare_bind [where B = "\<lambda>_ _. True"]) (simp_all add: hoare_def)

lemma hoare_sum: "(\<And>a. x = Inl a \<Longrightarrow> hoare P (f a) Q) \<Longrightarrow> (\<And>b. x = Inr b \<Longrightarrow> hoare P (g b) Q) \<Longrightarrow>
    hoare P (case x of Inl a \<Rightarrow> f a | Inr b \<Rightarrow> g b) Q"
  by (cases x) simp_all

definition error_safe :: "gerr + 'a \<Rightarrow> os \<Rightarrow> bool" where
  "error_safe r t \<longleftrightarrow> (\<exists>e. r = Inl e) \<longrightarrow> safe_end t"

lemma error_ended: "state_io_rel steady m \<Longrightarrow> (\<And>x. hoare ended (f x) error_safe) \<Longrightarrow> hoare ended (m \<bind> f) error_safe"
  by (rule hoare_bind [OF steady_ended])

lemma error_safe_bind: "state_io_rel steady m \<Longrightarrow> (\<And>x. hoare safe_end (f x) error_safe) \<Longrightarrow> hoare safe_end (m \<bind> f) error_safe"
  by (rule hoare_bind [OF steady_safe])

lemma await_safe:
  assumes "1 < pgid" shows "hoare P (await_bridge o2 home eph obs bin pgid) error_safe"
proof -
  let ?child = "\<lambda>r s. \<forall>e. r = ChildExited e \<longrightarrow> ended s"
  have wait: "hoare P (State (launch_wait sk d)) ?child" for P sk d
    using launch_wait_reaped [of sk d] unfolding hoare_def ended_def by (metis prod.collapse)
  have get: "hoare (?child r) State_Monad.get (\<lambda>_. ?child r)" for r by (simp add: hoare_def)
  have exited: "hoare (?child (ChildExited x)) (collect_stderr c d \<bind> (\<lambda>text. clean_up_instance o2 home eph \<bind>
      (\<lambda>_. emit_launch obs k v \<bind> (\<lambda>_. give (Inl (f text)))))) error_safe" for x c d k v f
    by (simp, intro error_ended steady.collect_free steady.clean_up_free steady.emit_free hoare_ret)
      (simp add: error_safe_def safe_end_def)
  have timeout: "hoare Q (terminate_process pgid g r False \<bind> (\<lambda>e. collect_stderr c d \<bind> (\<lambda>text.
      clean_up_instance o2 home eph \<bind> (\<lambda>_. emit_launch obs k v \<bind> (\<lambda>_. give (Inl (f e text))))))) error_safe" for Q g r c d k v f
    unfolding terminate_process_def
    by (rule hoare_bind [OF hoare_weaken [OF terminate_ends [OF assms]]],
        intro error_ended steady.collect_free steady.clean_up_free steady.emit_free hoare_ret)
      (simp add: error_safe_def safe_end_def)
  have ready: "hoare Q (emit_launch obs k v \<bind> (\<lambda>_. read_daemon_pid home rt \<bind> (\<lambda>pid. give (Inr (f pid))))) error_safe" for Q k v rt f
    by (intro hoare_unknown hoare_ret) (simp add: error_safe_def)
  have branch: "hoare (?child r) (case r of SocketReady \<Rightarrow> a | ChildExited e \<Rightarrow> b e | StartupTimeout \<Rightarrow> c) error_safe"
    if "hoare (?child SocketReady) a error_safe" "\<And>e. hoare (?child (ChildExited e)) (b e) error_safe"
      "hoare (?child StartupTimeout) c error_safe" for r a b c
    using that by (cases r) simp_all
  show ?thesis
    unfolding await_bridge_def Let_def
    by (rule hoare_unknown, rule hoare_unknown, rule hoare_unknown, rule hoare_unknown,
        rule hoare_bind [OF wait], rule hoare_bind [OF get], rule branch, rule ready, rule exited, rule timeout)
qed

lemma start_safe: "hoare safe_end (start_bridge o2 home eph obs) error_safe"
proof -
  have proc: "hoare safe_end (start_process b a d e) (\<lambda>r s. safe_end s \<and> (\<forall>p. r = Inr p \<longrightarrow> 1 < p))" for b a d e
    using steady_safe [OF steady.binary_free(3), of b a d e] start_yields [of b a d e]
    by (simp add: hoare_def yields_def)
  have get: "hoare safe_end State_Monad.get (\<lambda>_. safe_end)" by (simp add: hoare_def)
  have fail: "hoare safe_end (clean_up_instance o2 home eph \<bind> (\<lambda>_. give (Inl x))) error_safe" for x
    by (intro error_safe_bind steady.clean_up_free hoare_ret) (simp add: error_safe_def)
  have branch: "hoare (\<lambda>s. safe_end s \<and> (\<forall>p. r = Inr p \<longrightarrow> 1 < p)) (case r of Inl e \<Rightarrow> a e | Inr p \<Rightarrow> b p) error_safe"
    if "\<And>e. hoare safe_end (a e) error_safe" "\<And>p. 1 < p \<Longrightarrow> hoare safe_end (b p) error_safe" for r a b
    using that by (cases r) (auto simp: hoare_def)
  show ?thesis
    unfolding start_bridge_def Let_def
    by (rule error_safe_bind [OF steady.binary_free(1)], rule error_safe_bind [OF steady.get_rel],
        rule error_safe_bind [OF steady.binary_free(2)], rule hoare_sum, rule fail,
        rule hoare_bind [OF proc], rule branch, rule fail, rule await_safe)
qed

lemma launch_instance_safe: "hoare safe_end (launch_instance o1) error_safe"
proof -
  have creds: "state_io_rel steady (if b then inherit_launch_credentials o2 home else give (Inr o2))" for b o2 home
    by (intro steady.free_rel steady.inherit_free)
  have fail: "hoare safe_end (clean_up_instance o2 home eph \<bind> (\<lambda>_. give (Inl x))) error_safe" for o2 home eph x
    by (intro error_safe_bind steady.clean_up_free hoare_ret) (simp add: error_safe_def)
  have obs: "hoare safe_end (launch_instance_with_observer o1 obs) error_safe" for obs
    unfolding launch_instance_with_observer_def Let_def
    by (rule error_safe_bind [OF steady.emit_free], rule error_safe_bind [OF steady.prepare_free],
        rule hoare_sum, rule hoare_ret, simp add: error_safe_def,
        rule error_safe_bind [OF steady.remove_stale_free], rule error_safe_bind [OF creds],
        rule hoare_sum, rule fail, rule start_safe)
  have branch: "hoare (error_safe r) (case r of Inl e \<Rightarrow> a e | Inr p \<Rightarrow> b p) error_safe"
    if "\<And>e. hoare safe_end (a e) error_safe" "\<And>p Q. hoare Q (b p) error_safe"
    for r :: "gerr + launched" and a and b :: "launched \<Rightarrow> (gerr + launched) io"
    using that by (cases r) (auto simp: hoare_def error_safe_def)
  show ?thesis
    unfolding launch_instance_def Let_def
    by (rule error_safe_bind [OF steady.emit_free], rule hoare_bind [OF obs], rule branch,
        rule error_safe_bind [OF steady.emit_free], rule hoare_ret, simp add: error_safe_def,
        rule hoare_unknown, rule hoare_ret, simp add: error_safe_def)
qed

text \<open>A shutdown of a launched instance asks its process group to end.\<close>

lemma shutdown_ends:
  assumes "1 < process_group_id i" shows "hoare P (shutdown_alone i) (\<lambda>_. ended)"
proof -
  let ?j = "fst (begin_shutdown i)"
  have j: "1 < process_group_id ?j"
    using assms by (simp add: begin_shutdown_def Let_def)
  have stop: "hoare Q (if has_cmd ?j \<or> wait_done s \<noteq> NotStarted \<or> process_group_id ?j \<noteq> 0
      then terminate_process_observed (process_group_id ?j) g r f b \<bind> (\<lambda>x. give (h x)) else give []) (\<lambda>_. ended)"
    for Q s g r f b h
    using j by simp (rule hoare_bind [OF hoare_weaken [OF terminate_ends [OF j]]], simp add: hoare_ret)
  have finish: "hoare ended (emit_launch b k e) (\<lambda>_. ended)" for b k e
    by (rule steady_ended [OF steady.emit_free])
  have run: "hoare Q (run_shutdown ?j) (\<lambda>_. ended)" for Q
    unfolding run_shutdown_def run_phases_def
    by (rule hoare_unknown, rule hoare_unknown, rule hoare_unknown, rule hoare_bind [OF stop],
        rule steady_ended, intro steady.free_rel steady.cleanup_free steady.emit_free)
  show ?thesis
    unfolding shutdown_alone_def Let_def
    by (rule hoare_unknown, rule hoare_bind [OF run], rule hoare_bind [OF finish], rule hoare_ret, assumption)
qed


lemma demo_ready: "map_sum (\<lambda>_. ()) process_group_id (fst (run_state (launch_instance demo_options) (demo_machine socket_env))) = Inr 7"
  by code_simp

theorem launched_instance_ready_witness:
  "\<exists>i. fst (run_state (launch_instance demo_options) (demo_machine socket_env)) = Inr i \<and>
     process_group_id i = 7 \<and> ready_instance demo_options i"
proof -
  obtain i where i: "fst (run_state (launch_instance demo_options) (demo_machine socket_env)) = Inr i" "process_group_id i = 7"
    using demo_ready by (cases "fst (run_state (launch_instance demo_options) (demo_machine socket_env))") auto
  then have "run_state (launch_instance demo_options) (demo_machine socket_env) =
      (Inr i, snd (run_state (launch_instance demo_options) (demo_machine socket_env)))"
    by (simp add: prod_eq_iff)
  from launched_instance_ready [OF this] i show ?thesis by blast
qed

lemma demo_failed: "isl (fst (run_state (launch loud_options) refusing_machine))"
  by code_simp


end
