(* ===== verification/ProcessWindows.thy ===== *)
theory ProcessWindows imports ProcessLaws begin

text \<open>
  Starting and stopping the bridge process on Windows (\<^verbatim>\<open>process_windows.go\<close>): no process groups,
  one forced kill, and the external program \<^verbatim>\<open>taskkill\<close> for the daemon.  That program is a
  parameter: what running it returns, with the exit code when it is an \<^verbatim>\<open>exec.ExitError\<close>.
\<close>

definition start_process_windows :: "string \<Rightarrow> string list \<Rightarrow> string \<Rightarrow> string list \<Rightarrow> (gerr + int) io" where
  "start_process_windows binary args dir env = do {
     record_act (AStart binary args dir env);
     r \<leftarrow> syscall ''exec'' binary (faulty (\<lambda>s. (Inr (), s)));
     give (case r of Inl e \<Rightarrow> Inl e | Inr _ \<Rightarrow> Inr 0)
   }"

definition kill_child :: "int \<Rightarrow> (gerr + unit) io" where
  "kill_child pid = do {
     record_act (AKillChild pid);
     syscall ''kill'' [] (faulty (\<lambda>s. (Inr (), s)))
   }"

text \<open>The select between the child's result and the reap timer, where the received error counts.\<close>

definition await_exit :: "int \<Rightarrow> gerr option option io" where
  "await_exit timeout = do {
     s0 \<leftarrow> State_Monad.get;
     e \<leftarrow> tick;
     State (\<lambda>s. let late = clock s0 + timeout \<le> clock s in
       case wait_done s of
         Exited x \<Rightarrow>
           if late \<and> odd (pick e) then (None, s) else (Some x, s\<lparr>wait_done := Reaped\<rparr>)
       | _ \<Rightarrow> (None, if late then s else s\<lparr>clock := clock s0 + timeout\<rparr>))
   }"

definition terminate_observed_windows :: "int option \<Rightarrow> int \<Rightarrow> (bool \<times> gerr option) io" where
  "terminate_observed_windows child reap0 =
     (case child of
        None \<Rightarrow> give (False, None)
      | Some pid \<Rightarrow> do {
          k \<leftarrow> kill_child pid;
          let errs = errors_of ''kill process'' (case k of Inl e \<Rightarrow> Some e | Inr _ \<Rightarrow> None);
          r \<leftarrow> await_exit (finite_duration reap0 default_shutdown_reap_timeout);
          give (False, join_all (errs @ (case r of
              Some x \<Rightarrow> errors_of ''wait for killed process'' x
            | None \<Rightarrow> [Plain ''wait for killed process: timeout''])))
        })"

definition terminate_windows :: "int option \<Rightarrow> int \<Rightarrow> int \<Rightarrow> int \<Rightarrow> bool \<Rightarrow> (bool \<times> gerr option) io" where
  "terminate_windows child pgid grace reap forcible = terminate_observed_windows child reap"

definition stop_process_with_taskkill ::
    "int \<Rightarrow> int \<Rightarrow> (int \<Rightarrow> (gerr \<times> int option) option io) \<Rightarrow> gerr option io" where
  "stop_process_with_taskkill pid timeout taskkill =
     (if pid \<le> 1 then give (Some (Plain ''refusing to signal an invalid or unrecorded process''))
      else do {
        s0 \<leftarrow> State_Monad.get;
        r \<leftarrow> taskkill pid;
        s \<leftarrow> State_Monad.get;
        give (case r of
            None \<Rightarrow> None
          | Some (e, code) \<Rightarrow>
              if code = Some 128 then None
              else if clock s0 + finite_duration timeout default_shutdown_reap_timeout \<le> clock s
              then Some (WrapE (''taskkill process '' @ int_text pid) (JoinE [e, Sent Ctx_DeadlineExceeded]))
              else Some (WrapE (''taskkill process '' @ int_text pid) e))
      })"

definition stop_process_windows :: "(int \<Rightarrow> (gerr \<times> int option) option io) \<Rightarrow> int \<Rightarrow> gerr option io" where
  "stop_process_windows taskkill pid = stop_process_with_taskkill pid default_shutdown_reap_timeout taskkill"

section \<open>Laws\<close>

text \<open>A started child has no process group here, so a Unix termination would refuse its number.\<close>

lemma start_windows_group: "fst (run_state (start_process_windows b a d e) s) \<noteq> Inr pid \<or> pid = 0"
  by (auto simp: start_process_windows_def split: prod.split sum.split)

text \<open>A termination that reports nothing has received the child's result.\<close>

lemma terminate_windows_reaps:
  "hoare (\<lambda>_. True) (terminate_windows (Some pid) pgid grace reap forcible) (\<lambda>r. reaped (snd r = None))"
  by (auto simp: hoare_def terminate_windows_def terminate_observed_windows_def await_exit_def errors_of_def Let_def
      split: prod.splits wait_chan.splits sum.splits option.splits if_splits)

text \<open>The process is killed exactly once, whatever the calls return.\<close>

lemma tick_trace: "trace (snd (run_state tick s)) = trace s"
  by (simp add: tick_def settle_def split: list.split)

lemma kill_child_trace: "trace (snd (run_state (kill_child pid) s)) = trace s @ [AKillChild pid]"
  using tick_trace [of "s\<lparr>trace := trace s @ [AKillChild pid]\<rparr>"]
  by (auto simp: kill_child_def record_act_def syscall_def faulty_def split: prod.splits option.split)

lemma await_exit_trace: "trace (snd (run_state (await_exit d) s)) = trace s"
  using tick_trace [of s]
  by (auto simp: await_exit_def Let_def split: prod.splits wait_chan.splits if_splits)

theorem windows_kills_once:
  "trace (snd (run_state (terminate_windows (Some pid) pgid grace reap forcible) s)) = trace s @ [AKillChild pid]"
  by (simp add: terminate_windows_def terminate_observed_windows_def split: prod.split)
    (metis await_exit_trace kill_child_trace snd_conv)

text \<open>Both systems refuse a process number that no child can have.\<close>

lemma stop_refuses:
  "pid \<le> 1 \<Longrightarrow> snd (run_state (stop_process pid) s) = s \<and> snd (run_state (stop_process_windows tk pid) s) = s \<and>
     fst (run_state (stop_process pid) s) \<noteq> None \<and> fst (run_state (stop_process_windows tk pid) s) \<noteq> None"
  by (simp add: stop_process_def stop_process_windows_def stop_process_with_taskkill_def)

end
